(* ===== verification/GoBase.thy ===== *)
theory GoBase
  imports Main "HOL-Library.Word" "HOL-Library.Sublist" "HOL-Library.Char_ord"
    "HOL-Library.List_Lexorder"
begin

text \<open>
  The prelude of the development: the Go types and the parts of the Go standard library the
  modelled packages share, with the generic lemmas on lists, options and strings that the
  component theories use.

  A Go \<open>string\<close> or \<open>[]byte\<close> is a list of bytes, \<^typ>\<open>string\<close> here (a HOL \<^typ>\<open>char\<close> is one
  byte), so \<open>len\<close> is \<^const>\<open>length\<close> and \<open>==\<close> and \<open><\<close> on strings are equality and the
  lexicographic order of \<open>HOL-Library.List_Lexorder\<close>. A \<open>time.Time\<close> is the number of
  nanoseconds since the Unix epoch and a \<open>time.Duration\<close> a number of nanoseconds, both as
  \<^typ>\<open>int\<close>. A \<open>uuid.UUID\<close> is a 128-bit word. A pointer that may be nil is an
  \<^typ>\<open>'a option\<close>, and a call that returns \<open>(T, error)\<close> has a sum type with the error on the
  left. What the code draws from the clock, from \<open>crypto/rand\<close> and from \<open>uuid.New\<close> is an
  argument of the definition.
\<close>

section \<open>Types\<close>

type_synonym bytes = string
type_synonym uuid = "128 word"
type_synonym time = int
type_synonym duration = int

definition uuid_Nil :: uuid where
  "uuid_Nil = 0"

definition nanosecond :: duration where
  "nanosecond = 1"

definition millisecond :: duration where
  "millisecond = 1000000"

definition second :: duration where
  "second = 1000000000"

definition minute :: duration where
  "minute = 60 * second"

definition hour :: duration where
  "hour = 60 * minute"

text \<open>The zero \<open>time.Time\<close> (1 January of the year 1), and \<open>Time.Sub\<close>, which saturates at the
  ends of the 64-bit range of a duration.\<close>

definition zero_time :: time where
  "zero_time = - 62135596800 * second"

definition time_Sub :: "time \<Rightarrow> time \<Rightarrow> duration" where
  "time_Sub t u = max (- (2 ^ 63)) (min (2 ^ 63 - 1) (t - u))"

lemmas duration_defs =
  nanosecond_def millisecond_def second_def minute_def hour_def

lemma time_Sub_exact:
  "- (2 ^ 63) \<le> t - u \<Longrightarrow> t - u < 2 ^ 63 \<Longrightarrow> time_Sub t u = t - u"
  by (simp add: time_Sub_def)

section \<open>Collections of facts\<close>

named_theorems store_simps \<open>reading a table after a store operation\<close>
named_theorems inv_intros \<open>invariant preservation, one fact per operation\<close>
named_theorems go_string \<open>what the string functions of the standard library return\<close>

section \<open>Lists and options\<close>

text \<open>An SQL \<open>UPDATE ... WHERE\<close> on a table kept as a list.\<close>

definition upd_where :: "('a \<Rightarrow> bool) \<Rightarrow> ('a \<Rightarrow> 'a) \<Rightarrow> 'a list \<Rightarrow> 'a list" where
  "upd_where P f xs = map (\<lambda>x. if P x then f x else x) xs"

lemma upd_where_Nil [simp]: "upd_where P f [] = []"
  by (simp add: upd_where_def)

lemma upd_where_Cons [simp]:
  "upd_where P f (x # xs) = (if P x then f x else x) # upd_where P f xs"
  by (simp add: upd_where_def)

lemma length_upd_where [simp]: "length (upd_where P f xs) = length xs"
  by (simp add: upd_where_def)

lemma set_upd_where: "set (upd_where P f xs) = (\<lambda>x. if P x then f x else x) ` set xs"
  by (simp add: upd_where_def)

lemma upd_where_cases:
  assumes "y \<in> set (upd_where P f xs)"
  obtains x where "x \<in> set xs" "P x" "y = f x" | "y \<in> set xs" "\<not> P y"
  using assms by (auto simp: set_upd_where)

lemma map_upd_where [simp]:
  "(\<And>x. P x \<Longrightarrow> g (f x) = g x) \<Longrightarrow> map g (upd_where P f xs) = map g xs"
  by (induction xs) auto

lemma upd_where_False: "(\<And>x. x \<in> set xs \<Longrightarrow> \<not> P x) \<Longrightarrow> upd_where P f xs = xs"
  by (induction xs) auto

lemma filter_upd_where_other:
  "(\<And>x. P x \<Longrightarrow> \<not> Q x \<and> \<not> Q (f x)) \<Longrightarrow> filter Q (upd_where P f xs) = filter Q xs"
  by (induction xs) auto

lemma find_upd_where_key:
  "(\<And>x. P x \<Longrightarrow> g (f x) = g x) \<Longrightarrow>
   find (\<lambda>x. g x = k) (upd_where P f xs) =
   map_option (\<lambda>x. if P x then f x else x) (find (\<lambda>x. g x = k) xs)"
  by (induction xs) auto

lemma find_Some_iff_distinct:
  "distinct (map g xs) \<Longrightarrow> find (\<lambda>x. g x = k) xs = Some y \<longleftrightarrow> y \<in> set xs \<and> g y = k"
proof (induction xs)
  case Nil
  then show ?case by simp
next
  case (Cons x xs)
  then show ?case by (auto simp: image_iff)
qed

lemma find_append: "find P (xs @ ys) = (case find P xs of None \<Rightarrow> find P ys | Some x \<Rightarrow> Some x)"
  by (induction xs) auto

lemma find_None_set: "find P xs = None \<longleftrightarrow> (\<forall>x \<in> set xs. \<not> P x)"
  by (induction xs) auto

lemma find_SomeD: "find P xs = Some x \<Longrightarrow> x \<in> set xs \<and> P x"
  by (induction xs) (auto split: if_splits)

lemma distinct_map_inj: "distinct (map g xs) \<Longrightarrow> x \<in> set xs \<Longrightarrow> y \<in> set xs \<Longrightarrow> g x = g y \<Longrightarrow> x = y"
  by (simp add: distinct_map inj_on_def)

lemma span_unique:
  "a @ c # b = a' @ c # b' \<Longrightarrow> c \<notin> set a \<Longrightarrow> c \<notin> set a' \<Longrightarrow> a = a' \<and> b = b'"
proof (induction a arbitrary: a')
  case Nil
  then show ?case by (cases a') auto
next
  case (Cons x a)
  then show ?case by (cases a') auto
qed

section \<open>Package strings\<close>

definition HasPrefix :: "string \<Rightarrow> string \<Rightarrow> bool" where
  "HasPrefix s p \<longleftrightarrow> take (length p) s = p"

definition CutPrefix :: "string \<Rightarrow> string \<Rightarrow> string option" where
  "CutPrefix s p = (if HasPrefix s p then Some (drop (length p) s) else None)"

text \<open>\<open>strings.Cut\<close> and \<open>strings.SplitN\<close> with a separator of one byte.\<close>

definition Cut :: "char \<Rightarrow> string \<Rightarrow> (string \<times> string) option" where
  "Cut c s = (case dropWhile (\<lambda>x. x \<noteq> c) s of
      [] \<Rightarrow> None
    | _ # rest \<Rightarrow> Some (takeWhile (\<lambda>x. x \<noteq> c) s, rest))"

fun SplitN :: "char \<Rightarrow> nat \<Rightarrow> string \<Rightarrow> string list" where
  "SplitN c 0 s = []"
| "SplitN c (Suc 0) s = [s]"
| "SplitN c (Suc (Suc n)) s = (case Cut c s of
      None \<Rightarrow> [s]
    | Some (a, rest) \<Rightarrow> a # SplitN c (Suc n) rest)"

text \<open>\<open>strings.Trim\<close> with a cutset of one byte.\<close>

definition Trim :: "char \<Rightarrow> string \<Rightarrow> string" where
  "Trim c s = rev (dropWhile (\<lambda>x. x = c) (rev (dropWhile (\<lambda>x. x = c) s)))"

text \<open>
  \<open>strings.TrimSpace\<close> removes the code points with the Unicode property White\_Space at both
  ends. \<open>space_seqs\<close> lists their UTF-8 encodings; since the first byte of each is no
  continuation byte, a match of the bytes at either end of a string is a match of the rune.
\<close>

definition space_seqs :: "string list" where
  "space_seqs =
    [[CHR 0x09], [CHR 0x0A], [CHR 0x0B], [CHR 0x0C], [CHR 0x0D], [CHR 0x20],
     [CHR 0xC2, CHR 0x85], [CHR 0xC2, CHR 0xA0], [CHR 0xE1, CHR 0x9A, CHR 0x80],
     [CHR 0xE2, CHR 0x80, CHR 0x80], [CHR 0xE2, CHR 0x80, CHR 0x81], [CHR 0xE2, CHR 0x80, CHR 0x82],
     [CHR 0xE2, CHR 0x80, CHR 0x83], [CHR 0xE2, CHR 0x80, CHR 0x84], [CHR 0xE2, CHR 0x80, CHR 0x85],
     [CHR 0xE2, CHR 0x80, CHR 0x86], [CHR 0xE2, CHR 0x80, CHR 0x87], [CHR 0xE2, CHR 0x80, CHR 0x88],
     [CHR 0xE2, CHR 0x80, CHR 0x89], [CHR 0xE2, CHR 0x80, CHR 0x8A],
     [CHR 0xE2, CHR 0x80, CHR 0xA8], [CHR 0xE2, CHR 0x80, CHR 0xA9], [CHR 0xE2, CHR 0x80, CHR 0xAF],
     [CHR 0xE2, CHR 0x81, CHR 0x9F], [CHR 0xE3, CHR 0x80, CHR 0x80]]"

fun trim_seqs :: "nat \<Rightarrow> string list \<Rightarrow> string \<Rightarrow> string" where
  "trim_seqs 0 qs s = s"
| "trim_seqs (Suc n) qs s = (case find (HasPrefix s) qs of
      None \<Rightarrow> s
    | Some q \<Rightarrow> trim_seqs n qs (drop (length q) s))"

text \<open>Every sequence has at least one byte, so a string of \<open>n\<close> bytes is trimmed in \<open>n\<close> rounds.\<close>

definition TrimSpace :: "string \<Rightarrow> string" where
  "TrimSpace s =
    (let l = trim_seqs (length s) space_seqs s
     in rev (trim_seqs (length l) (map rev space_seqs) (rev l)))"

text \<open>
  \<open>strings.ToLower\<close>: ASCII letters, and the two code points outside ASCII that
  \<open>unicode.ToLower\<close> maps into it, U+0130 (to \<open>i\<close>) and U+212A (to \<open>k\<close>). Every other rune
  outside ASCII is mapped outside ASCII; its bytes are kept, since the callers only compare the
  result with ASCII characters.
\<close>

definition lower_byte :: "char \<Rightarrow> char" where
  "lower_byte c =
    (case map_of (zip ''ABCDEFGHIJKLMNOPQRSTUVWXYZ'' ''abcdefghijklmnopqrstuvwxyz'') c of
       Some d \<Rightarrow> d
     | None \<Rightarrow> c)"

fun ToLower :: "string \<Rightarrow> string" where
  "ToLower [] = []"
| "ToLower (c # s) =
     (if c = CHR 0xC4 \<and> take 1 s = [CHR 0xB0] then CHR ''i'' # ToLower (drop 1 s)
      else if c = CHR 0xE2 \<and> take 2 s = [CHR 0x84, CHR 0xAA] then CHR ''k'' # ToLower (drop 2 s)
      else lower_byte c # ToLower s)"

text \<open>\<open>strings.EqualFold\<close> against a literal with no \<open>k\<close> and no \<open>s\<close>, for which folding is ASCII
  folding.\<close>

definition EqualFold :: "string \<Rightarrow> string \<Rightarrow> bool" where
  "EqualFold s t \<longleftrightarrow> map lower_byte s = map lower_byte t"

lemma CutPrefix_append [go_string, simp]: "CutPrefix (p @ s) p = Some s"
  by (simp add: CutPrefix_def HasPrefix_def)

lemma CutPrefix_SomeD: "CutPrefix s p = Some r \<Longrightarrow> s = p @ r"
  by (auto simp: CutPrefix_def HasPrefix_def split: if_splits)
    (metis append_take_drop_id)

lemma Cut_append [go_string]: "c \<notin> set a \<Longrightarrow> Cut c (a @ c # b) = Some (a, b)"
proof -
  assume "c \<notin> set a"
  then have "dropWhile (\<lambda>x. x \<noteq> c) (a @ c # b) = c # b"
    and "takeWhile (\<lambda>x. x \<noteq> c) (a @ c # b) = a"
    by (induction a) auto
  then show ?thesis by (simp add: Cut_def)
qed

lemma Cut_SomeD: "Cut c s = Some (a, b) \<Longrightarrow> s = a @ c # b \<and> c \<notin> set a"
proof -
  assume h: "Cut c s = Some (a, b)"
  then obtain x where x: "dropWhile (\<lambda>x. x \<noteq> c) s = x # b" and a: "a = takeWhile (\<lambda>x. x \<noteq> c) s"
    by (auto simp: Cut_def split: list.splits)
  have "x = c" using x by (metis (mono_tags, lifting) dropWhile_eq_Cons_conv)
  moreover have "s = a @ x # b" using x a by (metis takeWhile_dropWhile_id)
  moreover have "c \<notin> set a" using a by (auto dest: set_takeWhileD)
  ultimately show ?thesis by simp
qed

lemma Cut_None [go_string]: "Cut c s = None \<longleftrightarrow> c \<notin> set s"
proof -
  have "Cut c s = None \<longleftrightarrow> dropWhile (\<lambda>x. x \<noteq> c) s = []"
    by (cases "dropWhile (\<lambda>x. x \<noteq> c) s") (simp_all add: Cut_def del: dropWhile_eq_Nil_conv)
  also have "\<dots> \<longleftrightarrow> c \<notin> set s" by auto
  finally show ?thesis .
qed

lemma SplitN_append [go_string]:
  "c \<notin> set a \<Longrightarrow> SplitN c (Suc (Suc n)) (a @ c # b) = a # SplitN c (Suc n) b"
  by (simp add: Cut_append)

section \<open>Numbers as text\<close>

definition digit_char :: "nat \<Rightarrow> char" where
  "digit_char n = ''0123456789'' ! n"

fun digits_nat :: "nat \<Rightarrow> string" where
  "digits_nat n =
    (if n < 10 then [digit_char n] else digits_nat (n div 10) @ [digit_char (n mod 10)])"

declare digits_nat.simps [simp del]

definition Itoa :: "int \<Rightarrow> string" where
  "Itoa i = (if i < 0 then CHR ''-'' # digits_nat (nat (- i)) else digits_nat (nat i))"

lemma digit_char_set: "n < 10 \<Longrightarrow> digit_char n \<in> set ''0123456789''"
  unfolding digit_char_def by (rule nth_mem) simp

lemma digit_char_inj: "m < 10 \<Longrightarrow> n < 10 \<Longrightarrow> digit_char m = digit_char n \<longleftrightarrow> m = n"
  unfolding digit_char_def by (rule nth_eq_iff_index_eq) simp_all

lemma digits_nat_set: "set (digits_nat n) \<subseteq> set ''0123456789''"
proof (induction n rule: digits_nat.induct)
  case (1 n)
  show ?case
  proof (cases "n < 10")
    case True
    then show ?thesis using digit_char_set [OF True] by (simp add: digits_nat.simps [of n])
  next
    case False
    have "n mod 10 < 10" by simp
    from digit_char_set [OF this] 1 [OF False] False show ?thesis
      by (subst digits_nat.simps) (auto simp del: list.set(2) simp: list.set(2) [of _ "[]"])
  qed
qed

lemma digits_nat_nonempty [simp]: "digits_nat n \<noteq> []"
  by (simp add: digits_nat.simps [of n])

lemma digits_nat_injD: "digits_nat m = digits_nat n \<Longrightarrow> m = n"
proof (induction m arbitrary: n rule: digits_nat.induct)
  case (1 m)
  show ?case
  proof (cases "m < 10 \<or> n < 10")
    case True
    then have "m < 10 \<and> n < 10"
      using "1.prems" by (auto simp: digits_nat.simps [of m] digits_nat.simps [of n] split: if_splits dest: sym)
    then show ?thesis
      using "1.prems" digit_char_inj [of m n] by (simp add: digits_nat.simps [of m] digits_nat.simps [of n])
  next
    case False
    then have "digits_nat (m div 10) = digits_nat (n div 10)" "m mod 10 = n mod 10"
      using "1.prems" digit_char_inj [of "m mod 10" "n mod 10"]
      by (simp_all add: digits_nat.simps [of m] digits_nat.simps [of n])
    then have "m div 10 = n div 10" "m mod 10 = n mod 10"
      using "1.IH" False by auto
    then show ?thesis by (metis div_mult_mod_eq)
  qed
qed

lemma digits_nat_inj [simp]: "digits_nat m = digits_nat n \<longleftrightarrow> m = n"
  using digits_nat_injD by auto

section \<open>Package encoding/hex\<close>

definition hex_char :: "nat \<Rightarrow> char" where
  "hex_char n = ''0123456789abcdef'' ! n"

definition hexEncode :: "bytes \<Rightarrow> string" where
  "hexEncode bs = concat (map (\<lambda>b. [hex_char (of_char b div 16), hex_char (of_char b mod 16)]) bs)"

definition is_hex :: "char \<Rightarrow> bool" where
  "is_hex c \<longleftrightarrow> c \<in> set ''0123456789abcdef''"

lemma hexEncode_simps [simp]:
  "hexEncode [] = []"
  "hexEncode (b # bs) = hex_char (of_char b div 16) # hex_char (of_char b mod 16) # hexEncode bs"
  by (simp_all add: hexEncode_def)

lemma length_hexEncode [simp]: "length (hexEncode bs) = 2 * length bs"
  by (induction bs) auto

lemma is_hex_char: "n < 16 \<Longrightarrow> is_hex (hex_char n)"
  unfolding is_hex_def hex_char_def by (rule nth_mem) simp

lemma hex_char_inj: "m < 16 \<Longrightarrow> n < 16 \<Longrightarrow> hex_char m = hex_char n \<longleftrightarrow> m = n"
  unfolding hex_char_def by (rule nth_eq_iff_index_eq) simp_all

lemma of_char_div_16: "of_char (b::char) div 16 < (16::nat)"
  by (rule less_mult_imp_div_less) simp

lemma hexEncode_is_hex: "c \<in> set (hexEncode bs) \<Longrightarrow> is_hex c"
  by (induction bs) (auto simp: is_hex_char of_char_div_16)

lemma underscore_not_hex: "CHR ''_'' \<notin> set (hexEncode bs)"
  using hexEncode_is_hex [of "CHR ''_''" bs] by (auto simp: is_hex_def)

lemma hexEncode_inj: "hexEncode xs = hexEncode ys \<Longrightarrow> xs = ys"
proof (induction xs arbitrary: ys)
  case Nil
  then show ?case by (cases ys) auto
next
  case (Cons x xs)
  then obtain y ys' where ys: "ys = y # ys'" by (cases ys) auto
  have "of_char x div 16 = (of_char y div 16 :: nat)" "of_char x mod 16 = (of_char y mod 16 :: nat)"
    using Cons.prems ys hex_char_inj [OF of_char_div_16 of_char_div_16, of x y]
      hex_char_inj [of "of_char x mod 16" "of_char y mod 16"] by simp_all
  then have "of_char x = (of_char y :: nat)" by (metis div_mult_mod_eq)
  then show ?case using Cons ys by simp
qed

end
