(* ===== verification/Authz.thy ===== *)
theory Authz
  imports GoBase
begin

text \<open>
  The role model of the control plane, \<open>internal/authz/authz.go\<close>: the roles are strings (they
  are a text column of the database), ordered admin over operator over viewer by a level, with
  level 0 (the zero value a Go map lookup gives) for every other string.
\<close>

definition RoleViewer :: string where
  "RoleViewer = ''viewer''"

definition RoleOperator :: string where
  "RoleOperator = ''operator''"

definition RoleAdmin :: string where
  "RoleAdmin = ''admin''"

definition level :: "string \<Rightarrow> int" where
  "level role =
    (case map_of [(RoleViewer, 1), (RoleOperator, 2), (RoleAdmin, 3)] role of
       Some n \<Rightarrow> n
     | None \<Rightarrow> 0)"

definition Known :: "string \<Rightarrow> bool" where
  "Known role \<longleftrightarrow> level role \<noteq> 0"

definition AtLeast :: "string \<Rightarrow> string \<Rightarrow> bool" where
  "AtLeast role mn \<longleftrightarrow> (let r = level role; m = level mn in r \<noteq> 0 \<and> m \<noteq> 0 \<and> r \<ge> m)"

definition CanMutate :: "string \<Rightarrow> bool" where
  "CanMutate role \<longleftrightarrow> AtLeast role RoleOperator"

lemmas role_defs = RoleViewer_def RoleOperator_def RoleAdmin_def

lemma level_simps [simp]:
  "level RoleViewer = 1" "level RoleOperator = 2" "level RoleAdmin = 3"
  by (simp_all add: level_def role_defs)

lemma Known_iff: "Known role \<longleftrightarrow> role \<in> {RoleViewer, RoleOperator, RoleAdmin}"
  by (auto simp: Known_def level_def split: if_splits)

lemma level_inj: "Known a \<Longrightarrow> Known b \<Longrightarrow> level a = level b \<Longrightarrow> a = b"
  unfolding Known_iff by (elim insertE emptyE) simp_all

lemma CanMutate_iff: "CanMutate role \<longleftrightarrow> role \<in> {RoleOperator, RoleAdmin}"
  by (auto simp: CanMutate_def AtLeast_def Let_def level_def role_defs split: if_splits)

lemma AtLeast_Admin_iff: "AtLeast role RoleAdmin \<longleftrightarrow> role = RoleAdmin"
  by (auto simp: AtLeast_def Let_def level_def role_defs split: if_splits)

text \<open>
  Privilege orders: an interface for a relation "grants at least" that is a linear order on the
  recognised names and relates nothing else. A guard that demands a role then demands every
  weaker one.
\<close>

locale privilege_order =
  fixes grants :: "'r \<Rightarrow> 'r \<Rightarrow> bool" and recognised :: "'r \<Rightarrow> bool"
  assumes grants_recognised: "grants a b \<Longrightarrow> recognised a \<and> recognised b"
    and grants_refl: "recognised a \<Longrightarrow> grants a a"
    and grants_trans: "grants a b \<Longrightarrow> grants b c \<Longrightarrow> grants a c"
    and grants_antisym: "grants a b \<Longrightarrow> grants b a \<Longrightarrow> a = b"
    and grants_total: "recognised a \<Longrightarrow> recognised b \<Longrightarrow> grants a b \<or> grants b a"
begin

lemma unrecognised_grants_nothing: "\<not> recognised a \<Longrightarrow> \<not> grants a b"
  using grants_recognised by blast

lemma stronger_grants_more:
  "recognised a \<Longrightarrow> grants a b \<longleftrightarrow> {c. grants b c} \<subseteq> {c. grants a c} \<and> recognised b"
  using grants_recognised grants_refl grants_trans by blast

lemma not_grants_iff_strictly_below:
  "recognised a \<Longrightarrow> recognised b \<Longrightarrow> \<not> grants a b \<longleftrightarrow> grants b a \<and> a \<noteq> b"
  using grants_total grants_antisym grants_refl by blast

end

interpretation role: privilege_order AtLeast Known
proof (standard, goal_cases)
  case (4 a b)
  then have "Known a" "Known b" "level a = level b"
    by (auto simp: AtLeast_def Let_def Known_def)
  then show ?case by (rule level_inj)
qed (auto simp: AtLeast_def Known_def Let_def)

end
