(* ===== verification/Slug.thy ===== *)
theory Slug
  imports GoBase
begin

text \<open>
  Customer slugs, \<open>internal/tenants/slug.go\<close>: the pattern a slug has to match and the
  derivation of a slug from a customer name. The loop of \<open>DeriveSlug\<close> over the runes of the
  lower-cased name is \<open>slug_loop\<close>, over its bytes: a rune outside ASCII is a run of bytes that
  are no slug characters, and a run of those writes one hyphen whatever its length.
\<close>

definition alnum :: "char \<Rightarrow> bool" where
  "alnum c \<longleftrightarrow> (CHR ''a'' \<le> c \<and> c \<le> CHR ''z'') \<or> (CHR ''0'' \<le> c \<and> c \<le> CHR ''9'')"

definition slug_char :: "char \<Rightarrow> bool" where
  "slug_char c \<longleftrightarrow> alnum c \<or> c = CHR ''-''"

definition ValidSlug :: "string \<Rightarrow> bool" where
  "ValidSlug s \<longleftrightarrow>
    3 \<le> length s \<and> length s \<le> 64 \<and> alnum (hd s) \<and> list_all slug_char s \<and> alnum (last s)"

fun slug_loop :: "bool \<Rightarrow> string \<Rightarrow> string" where
  "slug_loop lastHyphen [] = []"
| "slug_loop lastHyphen (r # rs) =
     (if alnum r then r # slug_loop False rs
      else if \<not> lastHyphen then CHR ''-'' # slug_loop True rs
      else slug_loop lastHyphen rs)"

text \<open>The padding loop: the empty string becomes \<open>customer\<close>, a shorter one gets zeros.\<close>

function pad_slug :: "string \<Rightarrow> string" where
  "pad_slug s =
    (if length s < 3 then (if s = [] then ''customer'' else pad_slug (s @ ''0'')) else s)"
  by pat_completeness auto
termination
  by (relation "measure (\<lambda>s. 3 - length s)") auto

declare pad_slug.simps [simp del]

definition DeriveSlug :: "string \<Rightarrow> string" where
  "DeriveSlug name =
    (let s = Trim (CHR ''-'') (slug_loop True (ToLower name));
         s = (if length s > 64 then Trim (CHR ''-'') (take 64 s) else s)
     in pad_slug s)"

section \<open>The loop and the trimming\<close>

abbreviation no_double_hyphen :: "string \<Rightarrow> bool" where
  "no_double_hyphen \<equiv> successively (\<lambda>a b. \<not> (a = CHR ''-'' \<and> b = CHR ''-''))"

lemma hyphen_not_alnum [simp]: "\<not> alnum (CHR ''-'')"
  by (simp add: alnum_def less_eq_char_def)

lemma alnum_neq_hyphen: "alnum c \<Longrightarrow> c \<noteq> CHR ''-''"
  by auto

lemma slug_loop_chars: "list_all slug_char (slug_loop b s)"
  by (induction b s rule: slug_loop.induct) (auto simp: slug_char_def)

lemma slug_loop_True_hd: "slug_loop True s \<noteq> [] \<Longrightarrow> alnum (hd (slug_loop True s))"
  by (induction "True" s rule: slug_loop.induct) auto

lemma slug_loop_no_double: "no_double_hyphen (slug_loop b s)"
proof (induction b s rule: slug_loop.induct)
  case (1 b)
  then show ?case by simp
next
  case (2 b r rs)
  then show ?case
    using slug_loop_True_hd [of rs] by (auto simp: successively_Cons)
qed

lemma Trim_split: "\<exists>p q. s = p @ Trim c s @ q"
proof -
  let ?t = "dropWhile (\<lambda>x. x = c) s"
  have "?t = rev (dropWhile (\<lambda>x. x = c) (rev ?t)) @ rev (takeWhile (\<lambda>x. x = c) (rev ?t))"
    by (metis rev_append rev_rev_ident takeWhile_dropWhile_id)
  moreover have "s = takeWhile (\<lambda>x. x = c) s @ ?t" by simp
  ultimately show ?thesis unfolding Trim_def by metis
qed

lemma Trim_last: "Trim c s \<noteq> [] \<Longrightarrow> last (Trim c s) \<noteq> c"
proof -
  let ?r = "rev (dropWhile (\<lambda>x. x = c) s)"
  assume "Trim c s \<noteq> []"
  then have ne: "dropWhile (\<lambda>x. x = c) ?r \<noteq> []" by (simp add: Trim_def)
  then have "hd (dropWhile (\<lambda>x. x = c) ?r) \<noteq> c" by (rule hd_dropWhile)
  with ne show ?thesis by (simp add: Trim_def last_rev)
qed

lemma Trim_hd: "Trim c s \<noteq> [] \<Longrightarrow> hd (Trim c s) \<noteq> c"
proof -
  let ?d = "dropWhile (\<lambda>x. x = c) s"
  assume ne: "Trim c s \<noteq> []"
  obtain q where q: "?d = Trim c s @ q"
    unfolding Trim_def by (metis rev_append rev_rev_ident takeWhile_dropWhile_id)
  then have "hd ?d = hd (Trim c s)" "?d \<noteq> []" using ne by auto
  then show ?thesis using hd_dropWhile [of "\<lambda>x. x = c" s] by auto
qed

lemma Trim_id: "s \<noteq> [] \<Longrightarrow> hd s \<noteq> c \<Longrightarrow> last s \<noteq> c \<Longrightarrow> Trim c s = s"
proof -
  assume "s \<noteq> []" "hd s \<noteq> c" "last s \<noteq> c"
  then have "dropWhile (\<lambda>x. x = c) s = s" "dropWhile (\<lambda>x. x = c) (rev s) = rev s"
    by (metis dropWhile_eq_self_iff) (metis \<open>last s \<noteq> c\<close> dropWhile_eq_self_iff hd_rev)
  then show ?thesis by (simp add: Trim_def)
qed

text \<open>The shape every intermediate value has: slug characters, no double hyphen, and, unless
  empty, a letter or digit at either end.\<close>

definition slug_shape :: "string \<Rightarrow> bool" where
  "slug_shape s \<longleftrightarrow> list_all slug_char s \<and> no_double_hyphen s \<and>
     (s \<noteq> [] \<longrightarrow> alnum (hd s) \<and> alnum (last s))"

lemma slug_shape_Trim:
  assumes "list_all slug_char s" "no_double_hyphen s"
  shows "slug_shape (Trim (CHR ''-'') s)"
proof -
  obtain p q where s: "s = p @ Trim (CHR ''-'') s @ q" using Trim_split by blast
  have all: "list_all slug_char (Trim (CHR ''-'') s)"
    using assms(1) s by (metis list_all_append)
  have nd: "no_double_hyphen (Trim (CHR ''-'') s)"
    using assms(2) s by (metis successively_append_iff)
  show ?thesis
  proof (cases "Trim (CHR ''-'') s = []")
    case True
    then show ?thesis by (simp add: slug_shape_def)
  next
    case False
    then have "hd (Trim (CHR ''-'') s) \<in> set (Trim (CHR ''-'') s)"
      "last (Trim (CHR ''-'') s) \<in> set (Trim (CHR ''-'') s)" by simp_all
    then show ?thesis
      using all nd Trim_hd [OF False] Trim_last [OF False]
      by (auto simp: slug_shape_def list_all_iff slug_char_def)
  qed
qed

lemma pad_slug_long: "3 \<le> length s \<Longrightarrow> pad_slug s = s"
  by (simp add: pad_slug.simps)

lemma zero_alnum: "alnum (CHR ''0'')"
  by (simp add: alnum_def)

lemma pad_slug_cases:
  assumes "slug_shape s" "length s < 3"
  shows "slug_shape (pad_slug s) \<and> 3 \<le> length (pad_slug s) \<and> length (pad_slug s) \<le> 8"
proof -
  have "s = [] \<or> (\<exists>a. s = [a]) \<or> (\<exists>a b. s = [a, b])"
    using assms(2) by (cases s rule: rev_cases; cases "butlast s" rule: rev_cases) auto
  then consider "s = []" | a where "s = [a]" | a b where "s = [a, b]" by blast
  then show ?thesis
  proof cases
    case 1
    then show ?thesis
      by (simp add: pad_slug.simps slug_shape_def slug_char_def alnum_def less_eq_char_def)
  next
    case (2 a)
    then have "pad_slug s = [a, CHR ''0'', CHR ''0'']"
      by (simp add: pad_slug.simps [of "[a]"] pad_slug.simps [of "[a, b]" for b]
          pad_slug.simps [of "[a, b, c]" for b c])
    with 2 assms(1) show ?thesis by (auto simp: slug_shape_def slug_char_def zero_alnum)
  next
    case (3 a b)
    then have "pad_slug s = [a, b, CHR ''0'']"
      by (simp add: pad_slug.simps [of "[a, b]"] pad_slug.simps [of "[a, b, c]" for c])
    with 3 assms(1) show ?thesis by (auto simp: slug_shape_def slug_char_def zero_alnum)
  qed
qed

lemma slug_shape_Valid: "slug_shape s \<Longrightarrow> 3 \<le> length s \<Longrightarrow> length s \<le> 64 \<Longrightarrow> ValidSlug s"
  by (auto simp: slug_shape_def ValidSlug_def)

lemma length_Trim_le: "length (Trim c s) \<le> length s"
  by (metis Trim_split length_append le_add1 le_add2 le_trans)

lemma no_double_take: "no_double_hyphen s \<Longrightarrow> no_double_hyphen (take n s)"
  by (metis append_take_drop_id successively_append_iff)

lemma list_all_take: "list_all P s \<Longrightarrow> list_all P (take n s)"
  by (metis append_take_drop_id list_all_append)

lemma DeriveSlug_shape: "slug_shape (DeriveSlug name) \<and> 3 \<le> length (DeriveSlug name) \<and> length (DeriveSlug name) \<le> 64"
proof -
  define s where "s = Trim (CHR ''-'') (slug_loop True (ToLower name))"
  define t where "t = (if length s > 64 then Trim (CHR ''-'') (take 64 s) else s)"
  have s: "slug_shape s"
    unfolding s_def using slug_loop_chars slug_loop_no_double by (rule slug_shape_Trim)
  have "slug_shape (Trim (CHR ''-'') (take 64 s))"
    using s unfolding slug_shape_def [of s]
    by (intro slug_shape_Trim list_all_take no_double_take) blast+
  with s have t: "slug_shape t" by (simp add: t_def)
  have len: "length t \<le> 64"
    using length_Trim_le [of "CHR ''-''" "take 64 s"] by (auto simp: t_def)
  have eq: "DeriveSlug name = pad_slug t" by (simp add: DeriveSlug_def s_def t_def Let_def)
  show ?thesis
  proof (cases "length t < 3")
    case True
    then show ?thesis using pad_slug_cases [OF t True] eq by simp
  next
    case False
    then show ?thesis using t len eq by (simp add: pad_slug_long)
  qed
qed

section \<open>Slugs are fixed points\<close>

lemma lower_byte_slug_char: "slug_char c \<Longrightarrow> lower_byte c = c"
proof (rule ccontr)
  define U where "U = ''ABCDEFGHIJKLMNOPQRSTUVWXYZ''"
  define L where "L = ''abcdefghijklmnopqrstuvwxyz''"
  assume sc: "slug_char c" and ne: "lower_byte c \<noteq> c"
  have "lower_byte c = (case map_of (zip U L) c of Some d \<Rightarrow> d | None \<Rightarrow> c)"
    by (simp only: lower_byte_def U_def L_def)
  with ne have "map_of (zip U L) c \<noteq> None" by (auto split: option.splits)
  moreover have "length U = length L" by (simp add: U_def L_def)
  ultimately have "c \<in> set U" using map_of_zip_is_None [of U L c] by simp
  then show False using sc by (auto simp: U_def slug_char_def alnum_def less_eq_char_def)
qed

lemma ToLower_slug: "list_all slug_char s \<Longrightarrow> ToLower s = s"
proof (induction s)
  case Nil
  then show ?case by simp
next
  case (Cons c s)
  then have "c \<noteq> CHR 0xC4" "c \<noteq> CHR 0xE2"
    by (auto simp: slug_char_def alnum_def less_eq_char_def)
  then show ?case using Cons by (simp add: lower_byte_slug_char)
qed

lemma slug_loop_id:
  "list_all slug_char s \<Longrightarrow> no_double_hyphen s \<Longrightarrow> (b \<longrightarrow> s \<noteq> [] \<longrightarrow> alnum (hd s)) \<Longrightarrow>
   slug_loop b s = s"
proof (induction b s rule: slug_loop.induct)
  case (1 b)
  then show ?case by simp
next
  case (2 b r rs)
  show ?case
  proof (cases "alnum r")
    case True
    then show ?thesis using 2 by (auto simp: successively_Cons)
  next
    case False
    then have r: "r = CHR ''-''" using 2(4) by (auto simp: slug_char_def)
    then have "\<not> b" using 2(6) False by auto
    have "rs \<noteq> [] \<longrightarrow> alnum (hd rs)"
      using 2(4,5) r by (cases rs) (auto simp: slug_char_def)
    then show ?thesis using 2(2,4,5) False r \<open>\<not> b\<close> by (auto simp: successively_Cons)
  qed
qed

lemma DeriveSlug_fixed: "ValidSlug s \<Longrightarrow> no_double_hyphen s \<Longrightarrow> DeriveSlug s = s"
proof -
  assume v: "ValidSlug s" and nd: "no_double_hyphen s"
  then have ne: "s \<noteq> []" by (auto simp: ValidSlug_def)
  have "slug_loop True (ToLower s) = s"
    using v nd by (simp add: ToLower_slug ValidSlug_def slug_loop_id)
  moreover have "Trim (CHR ''-'') s = s"
    using v ne by (intro Trim_id) (auto simp: ValidSlug_def)
  ultimately show ?thesis
    using v by (simp add: DeriveSlug_def Let_def ValidSlug_def pad_slug_long)
qed

end
