(* ===== verification/GoCrypto.thy ===== *)
theory GoCrypto
  imports GoBase
begin

unbundle bit_operations_syntax

text \<open>
  The functions of \<open>crypto/sha256\<close> and \<open>encoding/base64\<close> the program calls, as the standard
  library implements them: SHA-256 of FIPS 180-4 over 32-bit words, the encoding
  \<open>base64.RawURLEncoding\<close>, and the text form of a \<open>uuid.UUID\<close>.
\<close>

section \<open>SHA-256\<close>

type_synonym w32 = "32 word"

definition sha_K :: "w32 list" where
  "sha_K =
    [0x428A2F98, 0x71374491, 0xB5C0FBCF, 0xE9B5DBA5, 0x3956C25B, 0x59F111F1,
     0x923F82A4, 0xAB1C5ED5, 0xD807AA98, 0x12835B01, 0x243185BE, 0x550C7DC3,
     0x72BE5D74, 0x80DEB1FE, 0x9BDC06A7, 0xC19BF174, 0xE49B69C1, 0xEFBE4786,
     0x0FC19DC6, 0x240CA1CC, 0x2DE92C6F, 0x4A7484AA, 0x5CB0A9DC, 0x76F988DA,
     0x983E5152, 0xA831C66D, 0xB00327C8, 0xBF597FC7, 0xC6E00BF3, 0xD5A79147,
     0x06CA6351, 0x14292967, 0x27B70A85, 0x2E1B2138, 0x4D2C6DFC, 0x53380D13,
     0x650A7354, 0x766A0ABB, 0x81C2C92E, 0x92722C85, 0xA2BFE8A1, 0xA81A664B,
     0xC24B8B70, 0xC76C51A3, 0xD192E819, 0xD6990624, 0xF40E3585, 0x106AA070,
     0x19A4C116, 0x1E376C08, 0x2748774C, 0x34B0BCB5, 0x391C0CB3, 0x4ED8AA4A,
     0x5B9CCA4F, 0x682E6FF3, 0x748F82EE, 0x78A5636F, 0x84C87814, 0x8CC70208,
     0x90BEFFFA, 0xA4506CEB, 0xBEF9A3F7, 0xC67178F2]"

definition sha_H0 :: "w32 list" where
  "sha_H0 = [0x6A09E667, 0xBB67AE85, 0x3C6EF372, 0xA54FF53A, 0x510E527F, 0x9B05688C, 0x1F83D9AB, 0x5BE0CD19]"

definition rotr :: "nat \<Rightarrow> w32 \<Rightarrow> w32" where
  "rotr n x = drop_bit n x OR push_bit (32 - n) x"

definition sha_ss0 :: "w32 \<Rightarrow> w32" where
  "sha_ss0 x = (rotr 7 x XOR rotr 18 x) XOR drop_bit 3 x"

definition sha_ss1 :: "w32 \<Rightarrow> w32" where
  "sha_ss1 x = (rotr 17 x XOR rotr 19 x) XOR drop_bit 10 x"

definition sha_bs0 :: "w32 \<Rightarrow> w32" where
  "sha_bs0 x = (rotr 2 x XOR rotr 13 x) XOR rotr 22 x"

definition sha_bs1 :: "w32 \<Rightarrow> w32" where
  "sha_bs1 x = (rotr 6 x XOR rotr 11 x) XOR rotr 25 x"

text \<open>Big-endian bytes of a 32-bit word and back.\<close>

definition w32_bytes :: "w32 \<Rightarrow> bytes" where
  "w32_bytes w = map (\<lambda>k. char_of (unat (drop_bit k w) mod 256)) [24, 16, 8, 0]"

definition bytes_w32 :: "bytes \<Rightarrow> w32" where
  "bytes_w32 bs = foldl (\<lambda>v b. v * 256 + of_char b) 0 bs"

definition sha_pad :: "bytes \<Rightarrow> bytes" where
  "sha_pad m =
    (let l = length m; z = (119 - l mod 64) mod 64; bits = 8 * l
     in m @ [CHR 0x80] @ replicate z (CHR 0x00)
        @ map (\<lambda>k. char_of (bits div 256 ^ k mod 256)) [7, 6, 5, 4, 3, 2, 1, 0])"

text \<open>The message schedule: sixteen words of the block, extended to 64.\<close>

definition sha_extend :: "w32 list \<Rightarrow> w32 list" where
  "sha_extend w =
    (let t = length w
     in w @ [sha_ss1 (w ! (t - 2)) + w ! (t - 7) + sha_ss0 (w ! (t - 15)) + w ! (t - 16)])"

definition sha_schedule :: "bytes \<Rightarrow> w32 list" where
  "sha_schedule blk =
    (sha_extend ^^ 48) (map (\<lambda>i. bytes_w32 (take 4 (drop (4 * i) blk))) [0..<16])"

fun sha_round :: "w32 list \<Rightarrow> w32 \<times> w32 \<Rightarrow> w32 list" where
  "sha_round [a, b, c, d, e, f, g, h] (k, w) =
    (let ch = (e AND f) XOR (NOT e AND g);
         maj = ((a AND b) XOR (a AND c)) XOR (b AND c);
         t1 = h + sha_bs1 e + ch + k + w;
         t2 = sha_bs0 a + maj
     in [t1 + t2, a, b, c, d + t1, e, f, g])"
| "sha_round st _ = st"

definition sha_block :: "w32 list \<Rightarrow> bytes \<Rightarrow> w32 list" where
  "sha_block hs blk = map2 (+) hs (foldl sha_round hs (zip sha_K (sha_schedule blk)))"

definition Sum256 :: "bytes \<Rightarrow> bytes" where
  "Sum256 m =
    (let p = sha_pad m
     in concat (map w32_bytes
          (foldl sha_block sha_H0 (map (\<lambda>i. take 64 (drop (64 * i) p)) [0..<length p div 64]))))"

lemma length_sha_round: "length (sha_round st x) = length st"
  by (cases "(st, x)" rule: sha_round.cases) (simp_all add: Let_def)

lemma length_foldl_sha_round: "length (foldl sha_round st xs) = length st"
  by (induction xs arbitrary: st) (simp_all add: length_sha_round)

lemma length_sha_block: "length (sha_block hs blk) = length hs"
  by (simp add: sha_block_def length_foldl_sha_round)

lemma length_foldl_sha_block: "length (foldl sha_block hs bs) = length hs"
  by (induction bs arbitrary: hs) (simp_all add: length_sha_block)

lemma length_w32_bytes: "length (w32_bytes w) = 4"
  by (simp add: w32_bytes_def)

lemma length_Sum256 [simp]: "length (Sum256 m) = 32"
proof -
  have four: "length (concat (map w32_bytes ws)) = 4 * length ws" for ws
    by (induction ws) (simp_all add: length_w32_bytes)
  show ?thesis by (simp add: Sum256_def Let_def four length_foldl_sha_block sha_H0_def)
qed

section \<open>base64.RawURLEncoding\<close>

definition b64_char :: "nat \<Rightarrow> char" where
  "b64_char n = ''ABCDEFGHIJKLMNOPQRSTUVWXYZabcdefghijklmnopqrstuvwxyz0123456789-_'' ! n"

fun base64RawURL :: "bytes \<Rightarrow> string" where
  "base64RawURL [] = []"
| "base64RawURL [a] =
    [b64_char (of_char a div 4), b64_char (of_char a mod 4 * 16)]"
| "base64RawURL [a, b] =
    [b64_char (of_char a div 4), b64_char (of_char a mod 4 * 16 + of_char b div 16),
     b64_char (of_char b mod 16 * 4)]"
| "base64RawURL (a # b # c # r) =
    b64_char (of_char a div 4) # b64_char (of_char a mod 4 * 16 + of_char b div 16)
    # b64_char (of_char b mod 16 * 4 + of_char c div 64) # b64_char (of_char c mod 64)
    # base64RawURL r"

lemma length_base64RawURL: "length (base64RawURL bs) = (4 * length bs + 2) div 3"
proof (induction bs rule: base64RawURL.induct)
  case (4 a b c r)
  have "(4 * length (a # b # c # r) + 2) div 3 = 4 + (4 * length r + 2) div 3" by simp
  then show ?case using 4 by simp
qed simp_all

section \<open>UUIDs as text\<close>

definition uuid_nibbles :: "uuid \<Rightarrow> nat list" where
  "uuid_nibbles u = map (\<lambda>k. unat u div 16 ^ k mod 16) (rev [0..<32])"

definition uuid_String :: "uuid \<Rightarrow> string" where
  "uuid_String u =
    (let h = map hex_char (uuid_nibbles u)
     in take 8 h @ ''-'' @ take 4 (drop 8 h) @ ''-'' @ take 4 (drop 12 h) @ ''-''
        @ take 4 (drop 16 h) @ ''-'' @ drop 20 h)"

lemma uuid_nibbles_inj: "uuid_nibbles u = uuid_nibbles v \<Longrightarrow> u = v"
proof -
  assume eq: "uuid_nibbles u = uuid_nibbles v"
  have nib: "unat u div 16 ^ k mod 16 = unat v div 16 ^ k mod 16" if "k < 32" for k
    using eq that by (simp add: uuid_nibbles_def)
  have low: "unat u mod 16 ^ k = unat v mod 16 ^ k" if "k \<le> 32" for k
    using that
  proof (induction k)
    case 0
    then show ?case by simp
  next
    case (Suc k)
    have "x mod 16 ^ Suc k = x mod 16 ^ k + 16 ^ k * (x div 16 ^ k mod 16)" for x :: nat
      using mod_mult2_eq [of x "16 ^ k" 16] by (simp add: mult.commute)
    then show ?case using Suc nib [of k] by simp
  qed
  have "unat u < 16 ^ 32" "unat v < 16 ^ 32"
    using unsigned_less [of u] unsigned_less [of v] by simp_all
  then have "unat u = unat v" using low [of 32] by simp
  then show ?thesis by (simp add: word_unat_eq_iff)
qed

lemma uuid_String_inj: "uuid_String u = uuid_String v \<longleftrightarrow> u = v"
proof
  assume eq: "uuid_String u = uuid_String v"
  define g where "g = (\<lambda>h :: string. take 8 h @ ''-'' @ take 4 (drop 8 h) @ ''-'' @ take 4 (drop 12 h)
     @ ''-'' @ take 4 (drop 16 h) @ ''-'' @ drop 20 h)"
  have undash: "take 8 (g h) @ take 4 (drop 9 (g h)) @ take 4 (drop 14 (g h)) @ take 4 (drop 19 (g h))
     @ drop 24 (g h) = h" if "length h = 32" for h
  proof -
    have parts: "h = take 8 h @ take 4 (drop 8 h) @ take 4 (drop 12 h) @ take 4 (drop 16 h) @ drop 20 h"
      using append_take_drop_id [of 8 h] append_take_drop_id [of 4 "drop 8 h"]
        append_take_drop_id [of 4 "drop 12 h"] append_take_drop_id [of 4 "drop 16 h"]
      by simp
    have "g h = take 8 h @ ''-'' @ take 4 (drop 8 h) @ ''-'' @ take 4 (drop 12 h)
     @ ''-'' @ take 4 (drop 16 h) @ ''-'' @ drop 20 h" by (simp add: g_def)
    then show ?thesis using that parts by simp
  qed
  have "map hex_char (uuid_nibbles u) = map hex_char (uuid_nibbles v)"
    using eq undash [of "map hex_char (uuid_nibbles u)"] undash [of "map hex_char (uuid_nibbles v)"]
    by (simp add: uuid_String_def Let_def g_def uuid_nibbles_def)
  moreover have "inj_on hex_char (set (uuid_nibbles u) \<union> set (uuid_nibbles v))"
    by (auto simp: inj_on_def uuid_nibbles_def hex_char_inj)
  ultimately have "uuid_nibbles u = uuid_nibbles v" by (rule map_inj_on)
  then show "u = v" by (rule uuid_nibbles_inj)
qed simp

end
