(* ===== verification/Keys.thy ===== *)
theory Keys
  imports GoCrypto
begin

text \<open>
  The four credential formats of \<open>internal/tenants\<close>: ingest API keys (\<open>keys.go\<close>), per-agent
  OpAMP tokens (\<open>agenttoken.go\<close>), bootstrap tokens (\<open>bootstrap.go\<close>) and management-API tokens
  (\<open>apitoken.go\<close>). Each has a generator, which takes the 36 bytes read from \<open>crypto/rand\<close>
  (\<^term>\<open>None\<close> when the read fails), and a parser for the lookup prefix. The locale
  \<open>credential_format\<close> is the contract all four keep.
\<close>

datatype key_error = ErrRand string

record GeneratedKey =
  gk_Secret :: string
  gk_Prefix :: string
  gk_Hash :: bytes

definition HashAPIKey :: "string \<Rightarrow> bytes" where
  "HashAPIKey key = Sum256 key"

definition GenerateAPIKey :: "bytes option \<Rightarrow> key_error + GeneratedKey" where
  "GenerateAPIKey rnd = (case rnd of
      None \<Rightarrow> Inl (ErrRand ''generate api key'')
    | Some buf \<Rightarrow>
        (let prefix = ''otm_'' @ hexEncode (take 4 buf);
             secret = prefix @ ''_'' @ base64RawURL (drop 4 buf)
         in Inr \<lparr>gk_Secret = secret, gk_Prefix = prefix, gk_Hash = HashAPIKey secret\<rparr>))"

definition ParseKeyPrefix :: "string \<Rightarrow> string option" where
  "ParseKeyPrefix key =
    (let parts = SplitN (CHR ''_'') 3 key
     in if length parts \<noteq> 3 \<or> parts ! 0 \<noteq> ''otm'' \<or> length (parts ! 1) \<noteq> 8 \<or> parts ! 2 = ''''
        then None
        else if list_all is_hex (parts ! 1) then Some (''otm_'' @ parts ! 1)
        else None)"

definition GenerateAgentToken :: "bytes option \<Rightarrow> key_error + GeneratedKey" where
  "GenerateAgentToken rnd = (case rnd of
      None \<Rightarrow> Inl (ErrRand ''generate agent token'')
    | Some buf \<Rightarrow>
        (let prefix = ''otm_at_'' @ hexEncode (take 4 buf);
             secret = prefix @ ''_'' @ base64RawURL (drop 4 buf)
         in Inr \<lparr>gk_Secret = secret, gk_Prefix = prefix, gk_Hash = HashAPIKey secret\<rparr>))"

definition ParseAgentTokenPrefix :: "string \<Rightarrow> string option" where
  "ParseAgentTokenPrefix token =
    (let parts = SplitN (CHR ''_'') 4 token
     in if length parts \<noteq> 4 \<or> parts ! 0 \<noteq> ''otm'' \<or> parts ! 1 \<noteq> ''at'' \<or> length (parts ! 2) \<noteq> 8
           \<or> parts ! 3 = ''''
        then None
        else if list_all is_hex (parts ! 2) then Some (''otm_at_'' @ parts ! 2)
        else None)"

definition GenerateBootstrapToken :: "bytes option \<Rightarrow> key_error + GeneratedKey" where
  "GenerateBootstrapToken rnd = (case rnd of
      None \<Rightarrow> Inl (ErrRand ''generate bootstrap token'')
    | Some buf \<Rightarrow>
        (let prefix = ''otm_bt_'' @ hexEncode (take 4 buf);
             secret = prefix @ ''_'' @ base64RawURL (drop 4 buf)
         in Inr \<lparr>gk_Secret = secret, gk_Prefix = prefix, gk_Hash = HashAPIKey secret\<rparr>))"

definition ParseBootstrapTokenPrefix :: "string \<Rightarrow> string option" where
  "ParseBootstrapTokenPrefix token =
    (let parts = SplitN (CHR ''_'') 4 token
     in if length parts \<noteq> 4 \<or> parts ! 0 \<noteq> ''otm'' \<or> parts ! 1 \<noteq> ''bt'' \<or> length (parts ! 2) \<noteq> 8
           \<or> parts ! 3 = ''''
        then None
        else if list_all is_hex (parts ! 2) then Some (''otm_bt_'' @ parts ! 2)
        else None)"

definition GenerateAPIToken :: "bytes option \<Rightarrow> key_error + GeneratedKey" where
  "GenerateAPIToken rnd = (case rnd of
      None \<Rightarrow> Inl (ErrRand ''generate api token'')
    | Some buf \<Rightarrow>
        (let prefix = ''otm_pat_'' @ hexEncode (take 4 buf);
             secret = prefix @ ''_'' @ base64RawURL (drop 4 buf)
         in Inr \<lparr>gk_Secret = secret, gk_Prefix = prefix, gk_Hash = HashAPIKey secret\<rparr>))"

definition ParseAPITokenPrefix :: "string \<Rightarrow> string option" where
  "ParseAPITokenPrefix token =
    (let parts = SplitN (CHR ''_'') 4 token
     in if length parts \<noteq> 4 \<or> parts ! 0 \<noteq> ''otm'' \<or> parts ! 1 \<noteq> ''pat'' \<or> length (parts ! 2) \<noteq> 8
           \<or> parts ! 3 = ''''
        then None
        else if list_all is_hex (parts ! 2) then Some (''otm_pat_'' @ parts ! 2)
        else None)"

section \<open>What the parsers accept\<close>

lemma length_HashAPIKey [simp]: "length (HashAPIKey k) = 32"
  by (simp add: HashAPIKey_def)

lemma is_hex_no_underscore: "list_all is_hex h \<Longrightarrow> CHR ''_'' \<notin> set h"
  by (auto simp: list_all_iff is_hex_def)

lemma SplitN_3:
  "SplitN c 3 s = (case Cut c s of
      None \<Rightarrow> [s]
    | Some (a, r) \<Rightarrow> (case Cut c r of None \<Rightarrow> [a, r] | Some (b, q) \<Rightarrow> [a, b, q]))"
  by (simp add: numeral_3_eq_3 split: option.split)

lemma SplitN_4:
  "SplitN c 4 s = (case Cut c s of
      None \<Rightarrow> [s]
    | Some (a, r) \<Rightarrow> (case Cut c r of
          None \<Rightarrow> [a, r]
        | Some (b, q) \<Rightarrow> (case Cut c q of None \<Rightarrow> [a, b, q] | Some (d, e) \<Rightarrow> [a, b, d, e])))"
  by (simp add: eval_nat_numeral split: option.split)

definition three_part :: "string \<Rightarrow> string \<Rightarrow> string \<Rightarrow> bool" where
  "three_part tag k p \<longleftrightarrow>
    (\<exists>h s. length h = 8 \<and> list_all is_hex h \<and> s \<noteq> [] \<and> k = tag @ h @ ''_'' @ s \<and> p = tag @ h)"

lemma ParseKeyPrefix_iff: "ParseKeyPrefix k = Some p \<longleftrightarrow> three_part ''otm_'' k p"
proof
  assume "ParseKeyPrefix k = Some p"
  then obtain a r b q where c1: "Cut (CHR ''_'') k = Some (a, r)"
    and c2: "Cut (CHR ''_'') r = Some (b, q)"
    and rest: "a = ''otm''" "length b = 8" "q \<noteq> []" "list_all is_hex b" "p = ''otm_'' @ b"
    by (auto simp: ParseKeyPrefix_def Let_def SplitN_3 split: option.splits if_splits)
  from Cut_SomeD [OF c1] Cut_SomeD [OF c2] rest show "three_part ''otm_'' k p"
    unfolding three_part_def by (intro exI [of _ b] exI [of _ q]) auto
next
  assume "three_part ''otm_'' k p"
  then obtain h s where h: "length h = 8" "list_all is_hex h" "s \<noteq> []"
    and k: "k = ''otm'' @ CHR ''_'' # (h @ CHR ''_'' # s)" and p: "p = ''otm_'' @ h"
    by (auto simp: three_part_def)
  have "Cut (CHR ''_'') k = Some (''otm'', h @ CHR ''_'' # s)"
    unfolding k by (rule Cut_append) simp
  moreover have "Cut (CHR ''_'') (h @ CHR ''_'' # s) = Some (h, s)"
    using is_hex_no_underscore [OF h(2)] by (rule Cut_append)
  ultimately show "ParseKeyPrefix k = Some p"
    using h p by (simp add: ParseKeyPrefix_def Let_def SplitN_3)
qed

text \<open>The three token parsers differ only in the kind field.\<close>

definition parse_token :: "string \<Rightarrow> string \<Rightarrow> string option" where
  "parse_token kind token =
    (let parts = SplitN (CHR ''_'') 4 token
     in if length parts \<noteq> 4 \<or> parts ! 0 \<noteq> ''otm'' \<or> parts ! 1 \<noteq> kind \<or> length (parts ! 2) \<noteq> 8
           \<or> parts ! 3 = ''''
        then None
        else if list_all is_hex (parts ! 2) then Some (''otm_'' @ kind @ ''_'' @ parts ! 2)
        else None)"

lemma token_parsers:
  "ParseAgentTokenPrefix = parse_token ''at''"
  "ParseBootstrapTokenPrefix = parse_token ''bt''"
  "ParseAPITokenPrefix = parse_token ''pat''"
  by (simp_all add: fun_eq_iff ParseAgentTokenPrefix_def ParseBootstrapTokenPrefix_def
      ParseAPITokenPrefix_def parse_token_def Let_def)

lemma parse_token_iff:
  assumes kind: "CHR ''_'' \<notin> set kind"
  shows "parse_token kind k = Some p \<longleftrightarrow> three_part (''otm_'' @ kind @ ''_'') k p"
proof
  assume "parse_token kind k = Some p"
  then obtain a r b q d e where c: "Cut (CHR ''_'') k = Some (a, r)"
    "Cut (CHR ''_'') r = Some (b, q)" "Cut (CHR ''_'') q = Some (d, e)"
    and rest: "a = ''otm''" "b = kind" "length d = 8" "e \<noteq> []" "list_all is_hex d"
      "p = ''otm_'' @ kind @ ''_'' @ d"
    by (auto simp: parse_token_def Let_def SplitN_4 split: option.splits if_splits)
  from c [THEN Cut_SomeD] rest show "three_part (''otm_'' @ kind @ ''_'') k p"
    unfolding three_part_def by (intro exI [of _ d] exI [of _ e]) auto
next
  assume "three_part (''otm_'' @ kind @ ''_'') k p"
  then obtain h s where h: "length h = 8" "list_all is_hex h" "s \<noteq> []"
    and k: "k = ''otm'' @ CHR ''_'' # (kind @ CHR ''_'' # (h @ CHR ''_'' # s))"
    and p: "p = ''otm_'' @ kind @ ''_'' @ h"
    by (auto simp: three_part_def)
  have "Cut (CHR ''_'') k = Some (''otm'', kind @ CHR ''_'' # (h @ CHR ''_'' # s))"
    unfolding k by (rule Cut_append) simp
  moreover have "Cut (CHR ''_'') (kind @ CHR ''_'' # (h @ CHR ''_'' # s)) = Some (kind, h @ CHR ''_'' # s)"
    using kind by (rule Cut_append)
  moreover have "Cut (CHR ''_'') (h @ CHR ''_'' # s) = Some (h, s)"
    using is_hex_no_underscore [OF h(2)] by (rule Cut_append)
  ultimately show "parse_token kind k = Some p"
    using h p by (simp add: parse_token_def Let_def SplitN_4)
qed

section \<open>The contract of a credential format\<close>

locale credential_format =
  fixes gen :: "bytes option \<Rightarrow> key_error + GeneratedKey"
    and parse :: "string \<Rightarrow> string option"
    and tag :: string
  assumes gen_layout: "gen (Some buf) = Inr g \<Longrightarrow>
      gk_Prefix g = tag @ hexEncode (take 4 buf) \<and>
      gk_Secret g = gk_Prefix g @ ''_'' @ base64RawURL (drop 4 buf) \<and>
      gk_Hash g = HashAPIKey (gk_Secret g)"
    and gen_total: "\<exists>g. gen (Some buf) = Inr g"
    and gen_fails: "\<exists>e. gen None = Inl e"
    and parse_iff: "parse k = Some p \<longleftrightarrow> three_part tag k p"
begin

text \<open>A generated secret parses back to the prefix stored with it.\<close>

lemma round_trip:
  assumes "length buf = 36" "gen (Some buf) = Inr g"
  shows "parse (gk_Secret g) = Some (gk_Prefix g)"
proof -
  from gen_layout [OF assms(2)] have g: "gk_Prefix g = tag @ hexEncode (take 4 buf)"
    "gk_Secret g = tag @ hexEncode (take 4 buf) @ ''_'' @ base64RawURL (drop 4 buf)" by simp_all
  have "length (base64RawURL (drop 4 buf)) = 43"
    using assms(1) by (simp add: length_base64RawURL)
  then have "base64RawURL (drop 4 buf) \<noteq> []" by auto
  moreover have "list_all is_hex (hexEncode (take 4 buf))"
    using hexEncode_is_hex by (auto simp: list_all_iff)
  ultimately have "three_part tag (gk_Secret g) (gk_Prefix g)"
    unfolding three_part_def g using assms(1)
    by (intro exI [of _ "hexEncode (take 4 buf)"] exI [of _ "base64RawURL (drop 4 buf)"]) auto
  then show ?thesis by (simp add: parse_iff)
qed

lemma secret_length:
  assumes "length buf = 36" "gen (Some buf) = Inr g"
  shows "length (gk_Secret g) = length tag + 52"
  using gen_layout [OF assms(2)] assms(1) by (simp add: length_base64RawURL)

text \<open>The prefix is a prefix of the presented credential, so the lookup reveals nothing else.\<close>

lemma parse_prefix: "parse k = Some p \<Longrightarrow> prefix p k \<and> length p = length tag + 8"
  by (auto simp: parse_iff three_part_def prefix_def)

lemma parse_tag: "parse k = Some p \<Longrightarrow> prefix tag k"
  by (auto simp: parse_iff three_part_def)

end

interpretation api_key: credential_format GenerateAPIKey ParseKeyPrefix "''otm_''"
  by unfold_locales (auto simp: GenerateAPIKey_def Let_def ParseKeyPrefix_iff)

interpretation agent_token: credential_format GenerateAgentToken ParseAgentTokenPrefix "''otm_at_''"
  by unfold_locales (auto simp: GenerateAgentToken_def Let_def token_parsers parse_token_iff)

interpretation bootstrap_token: credential_format GenerateBootstrapToken ParseBootstrapTokenPrefix
  "''otm_bt_''"
  by unfold_locales (auto simp: GenerateBootstrapToken_def Let_def token_parsers parse_token_iff)

interpretation api_token: credential_format GenerateAPIToken ParseAPITokenPrefix "''otm_pat_''"
  by unfold_locales (auto simp: GenerateAPIToken_def Let_def token_parsers parse_token_iff)

text \<open>The formats are told apart by the second field, which for an API key is eight hex digits.\<close>

lemma parse_token_kinds: "parse_token a k = Some p \<Longrightarrow> parse_token b k = Some q \<Longrightarrow> a = b"
  by (auto simp: parse_token_def Let_def split: if_splits)

lemma parse_key_or_token:
  "ParseKeyPrefix k = Some p \<Longrightarrow> length kind \<noteq> 8 \<Longrightarrow> parse_token kind k = None"
  by (auto simp: ParseKeyPrefix_def parse_token_def Let_def SplitN_3 SplitN_4
      split: if_splits option.splits)

lemma parsers_exclusive:
  "length (filter (\<lambda>parse. parse k \<noteq> None)
     [ParseKeyPrefix, ParseAgentTokenPrefix, ParseBootstrapTokenPrefix, ParseAPITokenPrefix]) \<le> 1"
proof (cases "ParseKeyPrefix k")
  case None
  have "parse_token ''at'' k = None \<or> parse_token ''bt'' k = None"
    "parse_token ''at'' k = None \<or> parse_token ''pat'' k = None"
    "parse_token ''bt'' k = None \<or> parse_token ''pat'' k = None"
    using parse_token_kinds [of "''at''" k _ "''bt''"] parse_token_kinds [of "''at''" k _ "''pat''"]
      parse_token_kinds [of "''bt''" k _ "''pat''"] by fastforce+
  with None show ?thesis by (auto simp: token_parsers)
next
  case (Some p)
  then show ?thesis
    using parse_key_or_token [of k p "''at''"] parse_key_or_token [of k p "''bt''"]
      parse_key_or_token [of k p "''pat''"] by (simp add: token_parsers)
qed

end
