(* ===== verification/StoreBase.thy ===== *)
theory StoreBase
  imports GoCrypto Authz "HOL-Library.Product_Lexorder"
begin

text \<open>
  The database of the control plane: the row types of \<open>internal/store/store.go\<close>, the tables and
  constraints of \<open>internal/store/migrations\<close>, the transaction wrapper of \<open>internal/store/pg.go\<close>
  and the audit log of \<open>internal/audit/audit.go\<close>.

  A table is the list of its rows in insertion order. A statement of the code is the operation on
  that list its SQL text describes; \<open>now()\<close>, which is constant within a transaction, and generated
  identifiers are arguments. A statement that breaks a constraint of the schema returns the error
  the code maps the violation to. The constraints are the invariant \<open>db_wf\<close>; the store theories
  show that every operation keeps it. Connection failures are not part of a store operation: the
  components that react to them take the failing calls as an argument.
\<close>

section \<open>Values\<close>

text \<open>JSON values, for the JSONB columns and for \<open>map[string]any\<close>. A number is an integer, or the
  text of a literal with a fraction or an exponent.\<close>

datatype json =
    JNull
  | JBool bool
  | JNum int
  | JDec string
  | JStr string
  | JArr "json list"
  | JObj "(string \<times> json) list"

datatype store_error =
    ErrNotFound
  | ErrSlugExists
  | ErrNameExists
  | ErrConflict
  | ErrEmailExists
  | ErrLastAdmin
  | ErrDB string

text \<open>The columns of type INT hold 32-bit integers, those of type BIGINT 64-bit ones; the driver
  refuses a value outside the range.\<close>

definition int4_ok :: "int \<Rightarrow> bool" where
  "int4_ok n \<longleftrightarrow> - (2 ^ 31) \<le> n \<and> n < 2 ^ 31"

definition int8_ok :: "int \<Rightarrow> bool" where
  "int8_ok n \<longleftrightarrow> - (2 ^ 63) \<le> n \<and> n < 2 ^ 63"

definition CustomerActive :: string where
  "CustomerActive = ''active''"

definition CustomerSuspended :: string where
  "CustomerSuspended = ''suspended''"

definition CustomerDeleted :: string where
  "CustomerDeleted = ''deleted''"

definition ValidationValid :: string where
  "ValidationValid = ''valid''"

definition ValidationInvalid :: string where
  "ValidationInvalid = ''invalid''"

definition ClassForwarding :: string where
  "ClassForwarding = ''forwarding''"

definition ClassEdge :: string where
  "ClassEdge = ''edge''"

definition AgentClassGateway :: string where
  "AgentClassGateway = ''gateway''"

definition AgentClassEdge :: string where
  "AgentClassEdge = ''edge''"

definition RemoteConfigUnset :: string where
  "RemoteConfigUnset = ''unset''"

definition RemoteConfigApplying :: string where
  "RemoteConfigApplying = ''applying''"

definition RemoteConfigApplied :: string where
  "RemoteConfigApplied = ''applied''"

definition RemoteConfigFailed :: string where
  "RemoteConfigFailed = ''failed''"

definition agent_event_types :: "string list" where
  "agent_event_types = [''enrolled'', ''connected'', ''disconnected'', ''config_applied'',
     ''config_failed'', ''healthy'', ''unhealthy'']"

lemmas status_defs =
  CustomerActive_def CustomerSuspended_def CustomerDeleted_def ValidationValid_def
  ValidationInvalid_def ClassForwarding_def ClassEdge_def AgentClassGateway_def AgentClassEdge_def
  RemoteConfigUnset_def RemoteConfigApplying_def RemoteConfigApplied_def RemoteConfigFailed_def

section \<open>Rows\<close>

record Customer =
  cust_ID :: uuid
  cust_Slug :: string
  cust_Name :: string
  cust_ClientID :: string
  cust_Status :: string
  cust_RateLimitItemsPerSec :: "int option"
  cust_RetentionDays :: "int option"
  cust_CreatedAt :: time
  cust_UpdatedAt :: time

record User =
  u_ID :: uuid
  u_Email :: string
  u_DisplayName :: "string option"
  u_Role :: string
  u_ExternalID :: "string option"
  u_DisabledAt :: "time option"
  u_LastLoginAt :: "time option"
  u_CreatedAt :: time

record Identity =
  idn_UserID :: uuid
  idn_Provider :: string
  idn_Subject :: string

record APIKey =
  ak_ID :: uuid
  ak_CustomerID :: uuid
  ak_Name :: string
  ak_KeyPrefix :: string
  ak_KeyHash :: bytes
  ak_CreatedBy :: "uuid option"
  ak_CreatedAt :: time
  ak_ExpiresAt :: "time option"
  ak_RevokedAt :: "time option"
  ak_LastUsedAt :: "time option"

record session_row =
  ses_Token :: string
  ses_Data :: bytes
  ses_Expiry :: time

record pipeline_row =
  pl_ID :: uuid
  pl_CustomerID :: uuid
  pl_Name :: string
  pl_TargetClass :: string
  pl_ActiveVersionID :: "uuid option"
  pl_CreatedAt :: time

record version_row =
  pv_ID :: uuid
  pv_PipelineID :: uuid
  pv_Version :: int
  pv_Graph :: json
  pv_RenderedYAML :: string
  pv_ConfigHash :: bytes
  pv_ValidationStatus :: string
  pv_ValidationOutput :: "string option"
  pv_CreatedBy :: "uuid option"
  pv_CreatedAt :: time

record BootstrapToken =
  bt_ID :: uuid
  bt_CustomerID :: uuid
  bt_Name :: string
  bt_TokenPrefix :: string
  bt_TokenHash :: bytes
  bt_MaxUses :: int
  bt_UsedCount :: int
  bt_CreatedBy :: "uuid option"
  bt_CreatedAt :: time
  bt_ExpiresAt :: time
  bt_RevokedAt :: "time option"

text \<open>The columns of \<open>agents\<close> the store selects, and the per-agent token columns, which only
  \<open>AgentsByTokenPrefix\<close> reads.\<close>

record agent_cols =
  ag_ID :: uuid
  ag_InstanceUID :: bytes
  ag_CustomerID :: "uuid option"
  ag_Class :: string
  ag_Name :: "string option"
  ag_DisplayName :: "string option"
  ag_Labels :: json
  ag_AgentVersion :: "string option"
  ag_Description :: "json option"
  ag_Capabilities :: "int option"
  ag_AssignedConfigHash :: "bytes option"
  ag_ReportedConfigHash :: "bytes option"
  ag_AckedConfigHash :: "bytes option"
  ag_ReportedConfigYAML :: "string option"
  ag_RemoteConfigStatus :: string
  ag_RemoteConfigError :: "string option"
  ag_Health :: "json option"
  ag_Healthy :: "bool option"
  ag_Connected :: bool
  ag_LastSeenAt :: "time option"
  ag_EnrolledVia :: "uuid option"
  ag_CreatedAt :: time

record agent_row = agent_cols +
  ag_TokenPrefix :: "string option"
  ag_TokenHash :: "bytes option"
  ag_TokenIssuedAt :: "time option"

record AgentEvent =
  ev_ID :: int
  ev_AgentID :: uuid
  ev_EventType :: string
  ev_Detail :: "json option"
  ev_CreatedAt :: time

record AuthProvider =
  ap_ID :: uuid
  ap_Type :: string
  ap_Name :: string
  ap_DisplayName :: string
  ap_ClientID :: string
  ap_ClientSecretEnc :: bytes
  ap_Issuer :: "string option"
  ap_SAMLConfig :: "json option"
  ap_Enabled :: bool
  ap_CreatedAt :: time
  ap_UpdatedAt :: time

record Webhook =
  wh_ID :: uuid
  wh_Type :: string
  wh_Name :: string
  wh_URL :: string
  wh_Events :: "string list"
  wh_SecretEnc :: "bytes option"
  wh_Enabled :: bool
  wh_CreatedBy :: "uuid option"
  wh_CreatedAt :: time
  wh_UpdatedAt :: time

record api_token_row =
  pat_ID :: uuid
  pat_Name :: string
  pat_TokenPrefix :: string
  pat_TokenHash :: bytes
  pat_Role :: string
  pat_CreatedBy :: "uuid option"
  pat_CreatedAt :: time
  pat_ExpiresAt :: "time option"
  pat_RevokedAt :: "time option"
  pat_LastUsedAt :: "time option"

record BillingSettings =
  bs_PricePerGiBMicro :: int
  bs_PricePerMillionItemsMicro :: int
  bs_Currency :: string
  bs_UpdatedAt :: time
  bs_UpdatedBy :: "uuid option"

text \<open>An audit entry as the services build it, and the row it becomes.\<close>

record Entry =
  ae_ActorUserID :: "uuid option"
  ae_ActorType :: string
  ae_Action :: string
  ae_EntityType :: string
  ae_EntityID :: string
  ae_CustomerID :: "uuid option"
  ae_Payload :: "json option"

record audit_row = Entry +
  al_ID :: int
  al_CreatedAt :: time

section \<open>The database\<close>

record db =
  customers :: "Customer list"
  users :: "User list"
  user_identities :: "Identity list"
  user_customer_grants :: "(uuid \<times> uuid) list"
  api_keys :: "APIKey list"
  sessions :: "session_row list"
  audit_log :: "audit_row list"
  audit_seq :: int
  pipelines :: "pipeline_row list"
  pipeline_versions :: "version_row list"
  bootstrap_tokens :: "BootstrapToken list"
  agents :: "agent_row list"
  agent_events :: "AgentEvent list"
  event_seq :: int
  auth_providers :: "AuthProvider list"
  webhooks :: "Webhook list"
  api_tokens :: "api_token_row list"
  billing_settings :: "BillingSettings option"

text \<open>The database the migrations leave: empty tables and the seeded price list.\<close>

definition db_init :: "time \<Rightarrow> db" where
  "db_init now = \<lparr>customers = [], users = [], user_identities = [], user_customer_grants = [],
     api_keys = [], sessions = [], audit_log = [], audit_seq = 1, pipelines = [],
     pipeline_versions = [], bootstrap_tokens = [], agents = [], agent_events = [], event_seq = 1,
     auth_providers = [], webhooks = [], api_tokens = [],
     billing_settings = Some \<lparr>bs_PricePerGiBMicro = 0, bs_PricePerMillionItemsMicro = 0,
       bs_Currency = ''EUR'', bs_UpdatedAt = now, bs_UpdatedBy = None\<rparr>\<rparr>"

section \<open>Transactions\<close>

text \<open>A transaction body returns the error that rolls it back, or its result and the new state.\<close>

type_synonym 'a tx = "db \<Rightarrow> store_error + 'a \<times> db"

definition inTx :: "'a tx \<Rightarrow> db \<Rightarrow> (store_error + 'a) \<times> db" where
  "inTx fn db = (case fn db of
      Inl e \<Rightarrow> (Inl e, db)
    | Inr (x, db') \<Rightarrow> (Inr x, db'))"

lemma inTx_Inl: "fst (inTx fn db) = Inl e \<Longrightarrow> snd (inTx fn db) = db"
  by (auto simp: inTx_def split: sum.splits)

lemma inTx_Inr: "inTx fn db = (Inr x, db') \<longleftrightarrow> fn db = Inr (x, db')"
  by (auto simp: inTx_def split: sum.splits)

lemma inTx_error: "inTx fn db = (Inl e, db') \<longleftrightarrow> fn db = Inl e \<and> db' = db"
  by (auto simp: inTx_def split: sum.splits)

lemma inTx_keeps:
  "P db \<Longrightarrow> (\<And>x db'. fn db = Inr (x, db') \<Longrightarrow> P db') \<Longrightarrow> P (snd (inTx fn db))"
  by (auto simp: inTx_def split: sum.splits)

section \<open>The audit log\<close>

definition ActorUser :: string where
  "ActorUser = ''user''"

definition ActorSystem :: string where
  "ActorSystem = ''system''"

definition ActorAgent :: string where
  "ActorAgent = ''agent''"

definition actor_types :: "string list" where
  "actor_types = [ActorUser, ActorSystem, ActorAgent]"

fun audit_Write :: "time \<Rightarrow> Entry list \<Rightarrow> db \<Rightarrow> store_error + db" where
  "audit_Write now [] db = Inr db"
| "audit_Write now (e # es) db =
    (let e = (if ae_ActorType e = '''' then e\<lparr>ae_ActorType := ActorUser\<rparr> else e)
     in if ae_ActorType e \<notin> set actor_types then Inl (ErrDB ''audit: insert'')
        else audit_Write now es
          (db\<lparr>audit_log := audit_log db @ [Entry.extend e (audit_row.fields (audit_seq db) now)],
              audit_seq := audit_seq db + 1\<rparr>))"

text \<open>An audit write touches the two audit fields only.\<close>

lemma audit_Write_frame:
  "audit_Write now es db = Inr db' \<Longrightarrow>
   db' = db\<lparr>audit_log := audit_log db', audit_seq := audit_seq db'\<rparr>"
proof (induction es arbitrary: db)
  case Nil
  then show ?case by simp
next
  case (Cons e es)
  let ?e = "if ae_ActorType e = '''' then e\<lparr>ae_ActorType := ActorUser\<rparr> else e"
  let ?db = "db\<lparr>audit_log := audit_log db @ [Entry.extend ?e (audit_row.fields (audit_seq db) now)],
              audit_seq := audit_seq db + 1\<rparr>"
  from Cons.prems have "audit_Write now es ?db = Inr db'"
    by (auto simp: Let_def split: if_splits)
  from Cons.IH [OF this] show ?case by simp
qed

lemma audit_Write_fields [store_simps]:
  assumes "audit_Write now es db = Inr db'"
  shows "customers db' = customers db" "users db' = users db"
    "user_identities db' = user_identities db" "user_customer_grants db' = user_customer_grants db"
    "api_keys db' = api_keys db" "sessions db' = sessions db" "pipelines db' = pipelines db"
    "pipeline_versions db' = pipeline_versions db" "bootstrap_tokens db' = bootstrap_tokens db"
    "agents db' = agents db" "agent_events db' = agent_events db" "event_seq db' = event_seq db"
    "auth_providers db' = auth_providers db" "webhooks db' = webhooks db"
    "api_tokens db' = api_tokens db" "billing_settings db' = billing_settings db"
  by (subst audit_Write_frame [OF assms], simp)+

text \<open>Every entry of a successful write is in the log, after what was there, in order.\<close>

lemma audit_Write_log:
  "audit_Write now es db = Inr db' \<Longrightarrow>
   \<exists>rows. audit_log db' = audit_log db @ rows \<and> map ae_Action rows = map ae_Action es \<and>
     map ae_EntityID rows = map ae_EntityID es \<and> map ae_ActorUserID rows = map ae_ActorUserID es"
proof (induction es arbitrary: db)
  case Nil
  then show ?case by simp
next
  case (Cons e es)
  let ?e = "if ae_ActorType e = '''' then e\<lparr>ae_ActorType := ActorUser\<rparr> else e"
  let ?r = "Entry.extend ?e (audit_row.fields (audit_seq db) now)"
  from Cons.prems have "audit_Write now es
      (db\<lparr>audit_log := audit_log db @ [?r], audit_seq := audit_seq db + 1\<rparr>) = Inr db'"
    by (auto simp: Let_def split: if_splits)
  from Cons.IH [OF this] obtain rows where
    "audit_log db' = audit_log db @ ?r # rows" "map ae_Action rows = map ae_Action es"
    "map ae_EntityID rows = map ae_EntityID es" "map ae_ActorUserID rows = map ae_ActorUserID es"
    by auto
  then show ?case
    by (intro exI [of _ "?r # rows"]) (auto simp: Entry.defs)
qed

lemma audit_Write_ok:
  "list_all (\<lambda>e. ae_ActorType e \<in> {'''', ActorUser, ActorSystem, ActorAgent}) es \<Longrightarrow>
   \<exists>db'. audit_Write now es db = Inr db'"
proof (induction es arbitrary: db)
  case Nil
  then show ?case by simp
next
  case (Cons e es)
  then show ?case by (auto simp: Let_def actor_types_def)
qed

text \<open>The end of most transaction bodies: write the audit entries and return what \<open>f\<close> reads from the
  database then.\<close>

definition commit :: "time \<Rightarrow> Entry list \<Rightarrow> (db \<Rightarrow> 'a) \<Rightarrow> db \<Rightarrow> store_error + 'a \<times> db" where
  "commit now entries f db = (case audit_Write now entries db of
      Inl e \<Rightarrow> Inl e
    | Inr db' \<Rightarrow> Inr (f db', db'))"

lemma commit_Inr:
  "commit now es f db = Inr (x, db') \<longleftrightarrow> audit_Write now es db = Inr db' \<and> x = f db'"
  by (auto simp: commit_def split: sum.splits)

section \<open>The constraints of the schema\<close>

definition status_ok :: "string \<Rightarrow> bool" where
  "status_ok s \<longleftrightarrow> s \<in> set [CustomerActive, CustomerSuspended, CustomerDeleted]"

definition role_ok :: "string \<Rightarrow> bool" where
  "role_ok s \<longleftrightarrow> s \<in> set [RoleAdmin, RoleOperator, RoleViewer]"

definition rate_ok :: "int option \<Rightarrow> bool" where
  "rate_ok r \<longleftrightarrow> (case r of None \<Rightarrow> True | Some n \<Rightarrow> n > 0 \<and> int4_ok n)"

definition retention_ok :: "int option \<Rightarrow> bool" where
  "retention_ok r \<longleftrightarrow> (case r of None \<Rightarrow> True | Some n \<Rightarrow> 1 \<le> n \<and> n \<le> 30)"

definition ref_ok :: "uuid list \<Rightarrow> uuid option \<Rightarrow> bool" where
  "ref_ok ids r \<longleftrightarrow> (case r of None \<Rightarrow> True | Some i \<Rightarrow> i \<in> set ids)"

definition customer_ids :: "db \<Rightarrow> uuid list" where
  "customer_ids db = map cust_ID (customers db)"

definition user_ids :: "db \<Rightarrow> uuid list" where
  "user_ids db = map u_ID (users db)"

definition pipeline_ids :: "db \<Rightarrow> uuid list" where
  "pipeline_ids db = map pl_ID (pipelines db)"

definition version_ids :: "db \<Rightarrow> uuid list" where
  "version_ids db = map pv_ID (pipeline_versions db)"

definition bootstrap_ids :: "db \<Rightarrow> uuid list" where
  "bootstrap_ids db = map bt_ID (bootstrap_tokens db)"

definition agent_ids :: "db \<Rightarrow> uuid list" where
  "agent_ids db = map ag_ID (agents db)"

lemmas id_list_defs =
  customer_ids_def user_ids_def pipeline_ids_def version_ids_def bootstrap_ids_def agent_ids_def

text \<open>One predicate per table, over the table and the keys its rows refer to.\<close>

definition customers_wf :: "Customer list \<Rightarrow> bool" where
  "customers_wf cs \<longleftrightarrow>
    distinct (map cust_ID cs) \<and> distinct (map cust_Slug cs) \<and> distinct (map cust_ClientID cs) \<and>
    list_all (\<lambda>c. status_ok (cust_Status c) \<and> rate_ok (cust_RateLimitItemsPerSec c) \<and>
      retention_ok (cust_RetentionDays c)) cs"

definition users_wf :: "User list \<Rightarrow> bool" where
  "users_wf us \<longleftrightarrow>
    distinct (map u_ID us) \<and> distinct (map u_Email us) \<and>
    distinct (filter (\<lambda>e. e \<noteq> None) (map u_ExternalID us)) \<and>
    list_all (\<lambda>u. role_ok (u_Role u)) us"

definition identities_wf :: "uuid list \<Rightarrow> Identity list \<Rightarrow> bool" where
  "identities_wf uids xs \<longleftrightarrow>
    distinct (map (\<lambda>i. (idn_Provider i, idn_Subject i)) xs) \<and>
    list_all (\<lambda>i. idn_UserID i \<in> set uids) xs"

definition grants_wf :: "uuid list \<Rightarrow> uuid list \<Rightarrow> (uuid \<times> uuid) list \<Rightarrow> bool" where
  "grants_wf uids cids gs \<longleftrightarrow> distinct gs \<and>
    list_all (\<lambda>g. fst g \<in> set uids \<and> snd g \<in> set cids) gs"

definition api_keys_wf :: "uuid list \<Rightarrow> uuid list \<Rightarrow> APIKey list \<Rightarrow> bool" where
  "api_keys_wf uids cids ks \<longleftrightarrow> distinct (map ak_ID ks) \<and>
    list_all (\<lambda>k. ak_CustomerID k \<in> set cids \<and> ref_ok uids (ak_CreatedBy k)) ks"

definition pipelines_wf :: "uuid list \<Rightarrow> uuid list \<Rightarrow> pipeline_row list \<Rightarrow> bool" where
  "pipelines_wf cids vids ps \<longleftrightarrow> distinct (map pl_ID ps) \<and>
    distinct (map (\<lambda>p. (pl_CustomerID p, pl_Name p)) ps) \<and>
    list_all (\<lambda>p. pl_CustomerID p \<in> set cids \<and>
      pl_TargetClass p \<in> set [ClassForwarding, ClassEdge] \<and>
      ref_ok vids (pl_ActiveVersionID p)) ps"

definition versions_wf :: "uuid list \<Rightarrow> uuid list \<Rightarrow> version_row list \<Rightarrow> bool" where
  "versions_wf uids pids vs \<longleftrightarrow> distinct (map pv_ID vs) \<and>
    distinct (map (\<lambda>v. (pv_PipelineID v, pv_Version v)) vs) \<and>
    list_all (\<lambda>v. pv_PipelineID v \<in> set pids \<and>
      pv_ValidationStatus v \<in> set [ValidationValid, ValidationInvalid] \<and>
      ref_ok uids (pv_CreatedBy v)) vs"

definition bootstrap_wf :: "uuid list \<Rightarrow> uuid list \<Rightarrow> BootstrapToken list \<Rightarrow> bool" where
  "bootstrap_wf uids cids ts \<longleftrightarrow> distinct (map bt_ID ts) \<and>
    list_all (\<lambda>t. bt_CustomerID t \<in> set cids \<and> ref_ok uids (bt_CreatedBy t)) ts"

definition agents_wf :: "uuid list \<Rightarrow> uuid list \<Rightarrow> agent_row list \<Rightarrow> bool" where
  "agents_wf cids bids xs \<longleftrightarrow> distinct (map ag_ID xs) \<and> distinct (map ag_InstanceUID xs) \<and>
    list_all (\<lambda>a. ref_ok cids (ag_CustomerID a) \<and>
      ag_Class a \<in> set [AgentClassGateway, AgentClassEdge] \<and>
      ag_RemoteConfigStatus a \<in> set [RemoteConfigUnset, RemoteConfigApplying, RemoteConfigApplied,
        RemoteConfigFailed] \<and>
      ref_ok bids (ag_EnrolledVia a)) xs"

definition events_wf :: "uuid list \<Rightarrow> int \<Rightarrow> AgentEvent list \<Rightarrow> bool" where
  "events_wf aids seq es \<longleftrightarrow> distinct (map ev_ID es) \<and>
    list_all (\<lambda>e. ev_AgentID e \<in> set aids \<and> ev_EventType e \<in> set agent_event_types \<and>
      ev_ID e < seq) es"

definition provider_types :: "string list" where
  "provider_types = [''google'', ''microsoft'', ''github'', ''oidc'', ''saml'']"

definition providers_wf :: "AuthProvider list \<Rightarrow> bool" where
  "providers_wf ps \<longleftrightarrow> distinct (map ap_ID ps) \<and> distinct (map ap_Name ps) \<and>
    list_all (\<lambda>p. ap_Type p \<in> set provider_types) ps"

definition webhook_types :: "string list" where
  "webhook_types = [''webhook'', ''slack'']"

definition webhooks_wf :: "uuid list \<Rightarrow> Webhook list \<Rightarrow> bool" where
  "webhooks_wf uids ws \<longleftrightarrow> distinct (map wh_ID ws) \<and>
    list_all (\<lambda>w. wh_Type w \<in> set webhook_types \<and> ref_ok uids (wh_CreatedBy w)) ws"

definition api_tokens_wf :: "uuid list \<Rightarrow> api_token_row list \<Rightarrow> bool" where
  "api_tokens_wf uids ts \<longleftrightarrow> distinct (map pat_ID ts) \<and>
    list_all (\<lambda>t. role_ok (pat_Role t) \<and> ref_ok uids (pat_CreatedBy t)) ts"

definition billing_wf :: "uuid list \<Rightarrow> BillingSettings option \<Rightarrow> bool" where
  "billing_wf uids b \<longleftrightarrow> (case b of None \<Rightarrow> True | Some x \<Rightarrow> ref_ok uids (bs_UpdatedBy x))"

definition audit_wf :: "int \<Rightarrow> audit_row list \<Rightarrow> bool" where
  "audit_wf seq rows \<longleftrightarrow> distinct (map al_ID rows) \<and>
    list_all (\<lambda>r. ae_ActorType r \<in> set actor_types \<and> al_ID r < seq) rows"

definition db_wf :: "db \<Rightarrow> bool" where
  "db_wf db \<longleftrightarrow>
    customers_wf (customers db) \<and> users_wf (users db) \<and>
    identities_wf (user_ids db) (user_identities db) \<and>
    grants_wf (user_ids db) (customer_ids db) (user_customer_grants db) \<and>
    api_keys_wf (user_ids db) (customer_ids db) (api_keys db) \<and>
    pipelines_wf (customer_ids db) (version_ids db) (pipelines db) \<and>
    versions_wf (user_ids db) (pipeline_ids db) (pipeline_versions db) \<and>
    bootstrap_wf (user_ids db) (customer_ids db) (bootstrap_tokens db) \<and>
    agents_wf (customer_ids db) (bootstrap_ids db) (agents db) \<and>
    events_wf (agent_ids db) (event_seq db) (agent_events db) \<and>
    providers_wf (auth_providers db) \<and> webhooks_wf (user_ids db) (webhooks db) \<and>
    api_tokens_wf (user_ids db) (api_tokens db) \<and> billing_wf (user_ids db) (billing_settings db) \<and>
    audit_wf (audit_seq db) (audit_log db)"

lemmas table_wf_defs =
  customers_wf_def users_wf_def identities_wf_def grants_wf_def api_keys_wf_def pipelines_wf_def
  versions_wf_def bootstrap_wf_def agents_wf_def events_wf_def providers_wf_def webhooks_wf_def
  api_tokens_wf_def billing_wf_def audit_wf_def

lemma db_init_wf: "db_wf (db_init now)"
  by (simp add: db_wf_def db_init_def table_wf_defs ref_ok_def)

lemma ref_ok_None [simp]: "ref_ok ids None"
  by (simp add: ref_ok_def)

lemma ref_ok_iff: "ref_ok ids r \<longleftrightarrow> set_option r \<subseteq> set ids"
  by (auto simp: ref_ok_def split: option.splits)

lemma ref_ok_mono: "ref_ok ids r \<Longrightarrow> set ids \<subseteq> set ids' \<Longrightarrow> ref_ok ids' r"
  by (auto simp: ref_ok_def split: option.splits)

text \<open>More keys to refer to keep a table's constraints.\<close>

lemma wf_mono:
  "identities_wf uids xi \<Longrightarrow> set uids \<subseteq> set uids' \<Longrightarrow> identities_wf uids' xi"
  "grants_wf uids cids gs \<Longrightarrow> set uids \<subseteq> set uids' \<Longrightarrow> set cids \<subseteq> set cids' \<Longrightarrow> grants_wf uids' cids' gs"
  "api_keys_wf uids cids ks \<Longrightarrow> set uids \<subseteq> set uids' \<Longrightarrow> set cids \<subseteq> set cids' \<Longrightarrow>
     api_keys_wf uids' cids' ks"
  "pipelines_wf cids vids ps \<Longrightarrow> set cids \<subseteq> set cids' \<Longrightarrow> set vids \<subseteq> set vids' \<Longrightarrow>
     pipelines_wf cids' vids' ps"
  "versions_wf uids pids vs \<Longrightarrow> set uids \<subseteq> set uids' \<Longrightarrow> set pids \<subseteq> set pids' \<Longrightarrow>
     versions_wf uids' pids' vs"
  "bootstrap_wf uids cids ts \<Longrightarrow> set uids \<subseteq> set uids' \<Longrightarrow> set cids \<subseteq> set cids' \<Longrightarrow>
     bootstrap_wf uids' cids' ts"
  "agents_wf cids bids xs \<Longrightarrow> set cids \<subseteq> set cids' \<Longrightarrow> set bids \<subseteq> set bids' \<Longrightarrow> agents_wf cids' bids' xs"
  "events_wf aids n es \<Longrightarrow> set aids \<subseteq> set aids' \<Longrightarrow> events_wf aids' n es"
  "webhooks_wf uids ws \<Longrightarrow> set uids \<subseteq> set uids' \<Longrightarrow> webhooks_wf uids' ws"
  "api_tokens_wf uids xt \<Longrightarrow> set uids \<subseteq> set uids' \<Longrightarrow> api_tokens_wf uids' xt"
  "billing_wf uids b \<Longrightarrow> set uids \<subseteq> set uids' \<Longrightarrow> billing_wf uids' b"
  by (auto simp: table_wf_defs list_all_iff ref_ok_iff split: option.splits) fastforce

text \<open>An audit write keeps every constraint.\<close>

lemma audit_Write_audit_wf:
  "audit_Write now es db = Inr db' \<Longrightarrow> audit_wf (audit_seq db) (audit_log db) \<Longrightarrow>
   audit_wf (audit_seq db') (audit_log db')"
proof (induction es arbitrary: db)
  case Nil
  then show ?case by simp
next
  case (Cons e es)
  let ?e = "if ae_ActorType e = '''' then e\<lparr>ae_ActorType := ActorUser\<rparr> else e"
  let ?r = "Entry.extend ?e (audit_row.fields (audit_seq db) now)"
  let ?db = "db\<lparr>audit_log := audit_log db @ [?r], audit_seq := audit_seq db + 1\<rparr>"
  have w: "audit_Write now es ?db = Inr db'" and t: "ae_ActorType ?e \<in> set actor_types"
    using Cons.prems(1) by (auto simp: Let_def split: if_splits)
  have "al_ID ?r = audit_seq db" "ae_ActorType ?r = ae_ActorType ?e"
    by (simp_all add: Entry.defs audit_row.defs)
  moreover have "audit_seq db \<notin> set (map al_ID (audit_log db))"
    using Cons.prems(2) by (auto simp: audit_wf_def list_all_iff)
  ultimately have "audit_wf (audit_seq ?db) (audit_log ?db)"
    using Cons.prems(2) t by (auto simp: audit_wf_def list_all_iff)
  with w show ?case by (rule Cons.IH)
qed

lemma audit_Write_wf [inv_intros]:
  assumes "audit_Write now es db = Inr db'" "db_wf db"
  shows "db_wf db'"
  using assms(2) audit_Write_audit_wf [OF assms(1)]
  unfolding db_wf_def id_list_defs audit_Write_fields [OF assms(1)] by blast

lemma commit_wf: "commit now es f db = Inr (x, db') \<Longrightarrow> db_wf db \<Longrightarrow> db_wf db'"
  by (auto simp: commit_Inr intro: audit_Write_wf)

section \<open>Replacing one table\<close>

text \<open>
  An operation on one table has to show the constraints of that table only, and that the keys
  other tables refer to are still there.
\<close>

lemma db_wf_customers:
  "db_wf db \<Longrightarrow> set (customer_ids db) \<subseteq> set (map cust_ID cs) \<Longrightarrow> customers_wf cs \<Longrightarrow>
   db_wf (db\<lparr>customers := cs\<rparr>)"
  by (clarsimp simp: db_wf_def id_list_defs) ((intro conjI)?; erule wf_mono; simp)

lemma db_wf_users:
  "db_wf db \<Longrightarrow> set (user_ids db) \<subseteq> set (map u_ID us) \<Longrightarrow> users_wf us \<Longrightarrow> db_wf (db\<lparr>users := us\<rparr>)"
  by (clarsimp simp: db_wf_def id_list_defs) ((intro conjI)?; erule wf_mono; simp)

lemma db_wf_identities:
  "db_wf db \<Longrightarrow> identities_wf (user_ids db) xs \<Longrightarrow> db_wf (db\<lparr>user_identities := xs\<rparr>)"
  by (simp add: db_wf_def id_list_defs)

lemma db_wf_grants:
  "db_wf db \<Longrightarrow> grants_wf (user_ids db) (customer_ids db) gs \<Longrightarrow> db_wf (db\<lparr>user_customer_grants := gs\<rparr>)"
  by (simp add: db_wf_def id_list_defs)

lemma db_wf_api_keys:
  "db_wf db \<Longrightarrow> api_keys_wf (user_ids db) (customer_ids db) ks \<Longrightarrow> db_wf (db\<lparr>api_keys := ks\<rparr>)"
  by (simp add: db_wf_def id_list_defs)

lemma db_wf_sessions: "db_wf db \<Longrightarrow> db_wf (db\<lparr>sessions := ss\<rparr>)"
  by (simp add: db_wf_def id_list_defs)

lemma db_wf_pipelines:
  "db_wf db \<Longrightarrow> set (pipeline_ids db) \<subseteq> set (map pl_ID ps) \<Longrightarrow>
   pipelines_wf (customer_ids db) (version_ids db) ps \<Longrightarrow> db_wf (db\<lparr>pipelines := ps\<rparr>)"
  by (clarsimp simp: db_wf_def id_list_defs) ((intro conjI)?; erule wf_mono; simp)

lemma db_wf_versions:
  "db_wf db \<Longrightarrow> set (version_ids db) \<subseteq> set (map pv_ID vs) \<Longrightarrow>
   versions_wf (user_ids db) (pipeline_ids db) vs \<Longrightarrow> db_wf (db\<lparr>pipeline_versions := vs\<rparr>)"
  by (clarsimp simp: db_wf_def id_list_defs) ((intro conjI)?; erule wf_mono; simp)

lemma db_wf_bootstrap:
  "db_wf db \<Longrightarrow> set (bootstrap_ids db) \<subseteq> set (map bt_ID ts) \<Longrightarrow>
   bootstrap_wf (user_ids db) (customer_ids db) ts \<Longrightarrow> db_wf (db\<lparr>bootstrap_tokens := ts\<rparr>)"
  by (clarsimp simp: db_wf_def id_list_defs) ((intro conjI)?; erule wf_mono; simp)

lemma db_wf_agents:
  "db_wf db \<Longrightarrow> set (agent_ids db) \<subseteq> set (map ag_ID xs) \<Longrightarrow>
   agents_wf (customer_ids db) (bootstrap_ids db) xs \<Longrightarrow> db_wf (db\<lparr>agents := xs\<rparr>)"
  by (clarsimp simp: db_wf_def id_list_defs) ((intro conjI)?; erule wf_mono; simp)

lemma db_wf_events:
  "db_wf db \<Longrightarrow> events_wf (agent_ids db) n es \<Longrightarrow> db_wf (db\<lparr>agent_events := es, event_seq := n\<rparr>)"
  by (simp add: db_wf_def id_list_defs)

lemma db_wf_auth_providers: "db_wf db \<Longrightarrow> providers_wf ps \<Longrightarrow> db_wf (db\<lparr>auth_providers := ps\<rparr>)"
  by (simp add: db_wf_def id_list_defs)

lemma db_wf_webhooks: "db_wf db \<Longrightarrow> webhooks_wf (user_ids db) ws \<Longrightarrow> db_wf (db\<lparr>webhooks := ws\<rparr>)"
  by (simp add: db_wf_def id_list_defs)

lemma db_wf_api_tokens: "db_wf db \<Longrightarrow> api_tokens_wf (user_ids db) ts \<Longrightarrow> db_wf (db\<lparr>api_tokens := ts\<rparr>)"
  by (simp add: db_wf_def id_list_defs)

lemma db_wf_billing: "db_wf db \<Longrightarrow> billing_wf (user_ids db) b \<Longrightarrow> db_wf (db\<lparr>billing_settings := b\<rparr>)"
  by (simp add: db_wf_def id_list_defs)

lemma inTx_wf:
  "db_wf db \<Longrightarrow> (\<And>x db'. fn db = Inr (x, db') \<Longrightarrow> db_wf db') \<Longrightarrow> db_wf (snd (inTx fn db))"
  by (rule inTx_keeps)

text \<open>The same for an operation that is known by what it stores when it succeeds.\<close>

lemma op_wf:
  assumes "db_wf db" "\<And>e db'. r = (Inl e, db') \<Longrightarrow> db' = db" "\<And>x db'. r = (Inr x, db') \<Longrightarrow> db_wf db'"
  shows "db_wf (snd r)"
  using assms by (cases r; cases "fst r") auto

lemma db_wfD:
  assumes "db_wf db"
  shows "customers_wf (customers db)" "users_wf (users db)"
    "identities_wf (user_ids db) (user_identities db)"
    "grants_wf (user_ids db) (customer_ids db) (user_customer_grants db)"
    "api_keys_wf (user_ids db) (customer_ids db) (api_keys db)"
    "pipelines_wf (customer_ids db) (version_ids db) (pipelines db)"
    "versions_wf (user_ids db) (pipeline_ids db) (pipeline_versions db)"
    "bootstrap_wf (user_ids db) (customer_ids db) (bootstrap_tokens db)"
    "agents_wf (customer_ids db) (bootstrap_ids db) (agents db)"
    "events_wf (agent_ids db) (event_seq db) (agent_events db)"
    "providers_wf (auth_providers db)" "webhooks_wf (user_ids db) (webhooks db)"
    "api_tokens_wf (user_ids db) (api_tokens db)" "billing_wf (user_ids db) (billing_settings db)"
  using assms by (simp_all add: db_wf_def)

end
