(* ===== verification/StoreTenants.thy ===== *)
theory StoreTenants
  imports StoreBase
begin

text \<open>
  The customer and API-key operations of \<open>internal/store/pg.go\<close>. Each definition \<open>pg_F\<close> is the
  method \<open>F\<close> of \<open>*PG\<close>; a method that runs in a transaction returns its result with the database
  it leaves, and a method that only reads returns its result.
\<close>

section \<open>Operations\<close>

record NewCustomer =
  nc_ID :: uuid
  nc_Slug :: string
  nc_Name :: string
  nc_ClientID :: string

record NewAPIKey =
  nk_ID :: uuid
  nk_CustomerID :: uuid
  nk_Name :: string
  nk_KeyPrefix :: string
  nk_KeyHash :: bytes
  nk_CreatedBy :: "uuid option"
  nk_ExpiresAt :: "time option"

text \<open>\<open>OptionalInt\<close>: \<^term>\<open>None\<close> is \<open>Set = false\<close>, \<^term>\<open>Some v\<close> writes \<open>v\<close> (where
  \<^term>\<open>None\<close> is SQL's NULL).\<close>

type_synonym OptionalInt = "int option option"

record CustomerUpdate =
  cu_Name :: "string option"
  cu_Status :: "string option"
  cu_RateLimitItemsPerSec :: OptionalInt
  cu_RetentionDays :: OptionalInt

record AuthKey =
  auk_KeyID :: uuid
  auk_CustomerID :: uuid
  auk_ClientID :: string
  auk_KeyHash :: bytes
  auk_CustomerStatus :: string
  auk_ExpiresAt :: "time option"
  auk_RateLimitItemsPerSec :: int

record CustomerRef =
  cr_ID :: uuid
  cr_Name :: string
  cr_ClientID :: string

definition find_customer :: "uuid \<Rightarrow> db \<Rightarrow> Customer option" where
  "find_customer i db = find (\<lambda>c. cust_ID c = i) (customers db)"

definition new_customer_row :: "time \<Rightarrow> NewCustomer \<Rightarrow> Customer" where
  "new_customer_row now c = \<lparr>cust_ID = nc_ID c, cust_Slug = nc_Slug c, cust_Name = nc_Name c,
     cust_ClientID = nc_ClientID c, cust_Status = CustomerActive, cust_RateLimitItemsPerSec = None,
     cust_RetentionDays = None, cust_CreatedAt = now, cust_UpdatedAt = now\<rparr>"

definition new_api_key_row :: "time \<Rightarrow> NewAPIKey \<Rightarrow> APIKey" where
  "new_api_key_row now k = \<lparr>ak_ID = nk_ID k, ak_CustomerID = nk_CustomerID k, ak_Name = nk_Name k,
     ak_KeyPrefix = nk_KeyPrefix k, ak_KeyHash = nk_KeyHash k, ak_CreatedBy = nk_CreatedBy k,
     ak_CreatedAt = now, ak_ExpiresAt = nk_ExpiresAt k, ak_RevokedAt = None, ak_LastUsedAt = None\<rparr>"

text \<open>The INSERT of \<open>insertAPIKey\<close>: the primary key, then the two foreign keys.\<close>

definition insertAPIKey :: "time \<Rightarrow> NewAPIKey \<Rightarrow> APIKey tx" where
  "insertAPIKey now k db =
    (if nk_ID k \<in> set (map ak_ID (api_keys db)) then Inl (ErrDB ''insert api key'')
     else if nk_CustomerID k \<notin> set (customer_ids db) then Inl (ErrDB ''insert api key'')
     else if \<not> ref_ok (user_ids db) (nk_CreatedBy k) then Inl (ErrDB ''insert api key'')
     else let row = new_api_key_row now k
          in Inr (row, db\<lparr>api_keys := api_keys db @ [row]\<rparr>))"

definition insert_customer :: "time \<Rightarrow> NewCustomer \<Rightarrow> Customer tx" where
  "insert_customer now c db =
    (if nc_ID c \<in> set (customer_ids db) then Inl (ErrDB ''insert customer'')
     else if nc_Slug c \<in> set (map cust_Slug (customers db)) then Inl ErrSlugExists
     else if nc_ClientID c \<in> set (map cust_ClientID (customers db)) then Inl ErrConflict
     else let row = new_customer_row now c
          in Inr (row, db\<lparr>customers := customers db @ [row]\<rparr>))"

definition pg_CreateCustomer ::
    "time \<Rightarrow> NewCustomer \<Rightarrow> NewAPIKey \<Rightarrow> Entry list \<Rightarrow> db \<Rightarrow> (store_error + Customer \<times> APIKey) \<times> db" where
  "pg_CreateCustomer now c k entries = inTx (\<lambda>db.
    (case insert_customer now c db of
       Inl e \<Rightarrow> Inl e
     | Inr (cust, db1) \<Rightarrow> (case insertAPIKey now k db1 of
         Inl e \<Rightarrow> Inl e
       | Inr (key, db2) \<Rightarrow> (case audit_Write now entries db2 of
           Inl e \<Rightarrow> Inl e
         | Inr db3 \<Rightarrow> Inr ((cust, key), db3)))))"

definition pg_GetCustomer :: "uuid \<Rightarrow> db \<Rightarrow> store_error + Customer" where
  "pg_GetCustomer i db =
    (case find (\<lambda>c. cust_ID c = i \<and> cust_Status c \<noteq> CustomerDeleted) (customers db) of
       None \<Rightarrow> Inl ErrNotFound
     | Some c \<Rightarrow> Inr c)"

definition pg_ListCustomers :: "string option \<Rightarrow> db \<Rightarrow> Customer list" where
  "pg_ListCustomers status db =
    sort_key (\<lambda>c. (cust_CreatedAt c, cust_ID c))
      (filter (\<lambda>c. cust_Status c \<noteq> CustomerDeleted \<and>
          (case status of None \<Rightarrow> True | Some s \<Rightarrow> cust_Status c = s)) (customers db))"

definition coalesce :: "'a option \<Rightarrow> 'a \<Rightarrow> 'a" where
  "coalesce o' x = (case o' of None \<Rightarrow> x | Some y \<Rightarrow> y)"

definition apply_customer_update :: "time \<Rightarrow> CustomerUpdate \<Rightarrow> Customer \<Rightarrow> Customer" where
  "apply_customer_update now upd c = c\<lparr>
     cust_Name := coalesce (cu_Name upd) (cust_Name c),
     cust_Status := coalesce (cu_Status upd) (cust_Status c),
     cust_RateLimitItemsPerSec := coalesce (cu_RateLimitItemsPerSec upd) (cust_RateLimitItemsPerSec c),
     cust_RetentionDays := coalesce (cu_RetentionDays upd) (cust_RetentionDays c),
     cust_UpdatedAt := now\<rparr>"

text \<open>The CHECK constraints on the new row; a value outside the 32-bit range of the column is
  refused by the driver before the row is looked up.\<close>

definition customer_update_range :: "CustomerUpdate \<Rightarrow> bool" where
  "customer_update_range upd \<longleftrightarrow>
    (\<forall>n \<in> set_option (coalesce (cu_RateLimitItemsPerSec upd) None). int4_ok n) \<and>
    (\<forall>n \<in> set_option (coalesce (cu_RetentionDays upd) None). int4_ok n)"

definition customer_checks :: "Customer \<Rightarrow> bool" where
  "customer_checks c \<longleftrightarrow> status_ok (cust_Status c) \<and> rate_ok (cust_RateLimitItemsPerSec c) \<and>
     retention_ok (cust_RetentionDays c)"

definition pg_UpdateCustomer ::
    "time \<Rightarrow> uuid \<Rightarrow> CustomerUpdate \<Rightarrow> Entry list \<Rightarrow> db \<Rightarrow> (store_error + Customer) \<times> db" where
  "pg_UpdateCustomer now i upd entries = inTx (\<lambda>db.
    if \<not> customer_update_range upd then Inl (ErrDB ''update customer'')
    else (case pg_GetCustomer i db of
       Inl e \<Rightarrow> Inl ErrNotFound
     | Inr c \<Rightarrow>
         (let c' = apply_customer_update now upd c
          in if \<not> customer_checks c' then Inl (ErrDB ''update customer'')
             else (case audit_Write now entries
                     (db\<lparr>customers := upd_where (\<lambda>x. cust_ID x = i \<and> cust_Status x \<noteq> CustomerDeleted)
                        (apply_customer_update now upd) (customers db)\<rparr>) of
                Inl e \<Rightarrow> Inl e
              | Inr db' \<Rightarrow> Inr (c', db')))))"

definition pg_SoftDeleteCustomer ::
    "time \<Rightarrow> uuid \<Rightarrow> Entry list \<Rightarrow> db \<Rightarrow> (store_error + unit) \<times> db" where
  "pg_SoftDeleteCustomer now i entries = inTx (\<lambda>db.
    (let hit = (\<lambda>c. cust_ID c = i \<and> cust_Status c \<noteq> CustomerDeleted)
     in if \<not> list_ex hit (customers db) then Inl ErrNotFound
        else (case audit_Write now entries
                (db\<lparr>customers := upd_where hit
                       (\<lambda>c. c\<lparr>cust_Status := CustomerDeleted, cust_UpdatedAt := now\<rparr>) (customers db),
                    api_keys := upd_where (\<lambda>k. ak_CustomerID k = i \<and> ak_RevokedAt k = None)
                       (\<lambda>k. k\<lparr>ak_RevokedAt := Some now\<rparr>) (api_keys db)\<rparr>) of
           Inl e \<Rightarrow> Inl e
         | Inr db' \<Rightarrow> Inr ((), db'))))"

definition pg_CountActiveCustomers :: "db \<Rightarrow> nat" where
  "pg_CountActiveCustomers db = length (filter (\<lambda>c. cust_Status c = CustomerActive) (customers db))"

definition pg_ListCustomerRefs :: "db \<Rightarrow> CustomerRef list" where
  "pg_ListCustomerRefs db =
    map (\<lambda>c. \<lparr>cr_ID = cust_ID c, cr_Name = cust_Name c, cr_ClientID = cust_ClientID c\<rparr>) (customers db)"

definition pg_ListAPIKeys :: "uuid \<Rightarrow> db \<Rightarrow> store_error + APIKey list" where
  "pg_ListAPIKeys customerID db =
    (case pg_GetCustomer customerID db of
       Inl e \<Rightarrow> Inl e
     | Inr _ \<Rightarrow> Inr (sort_key (\<lambda>k. (ak_CreatedAt k, ak_ID k))
         (filter (\<lambda>k. ak_CustomerID k = customerID) (api_keys db))))"

definition pg_CreateAPIKey ::
    "time \<Rightarrow> NewAPIKey \<Rightarrow> Entry list \<Rightarrow> db \<Rightarrow> (store_error + APIKey) \<times> db" where
  "pg_CreateAPIKey now k entries db =
    (case pg_GetCustomer (nk_CustomerID k) db of
       Inl e \<Rightarrow> (Inl e, db)
     | Inr _ \<Rightarrow> inTx (\<lambda>db. (case insertAPIKey now k db of
           Inl e \<Rightarrow> Inl e
         | Inr (key, db1) \<Rightarrow> (case audit_Write now entries db1 of
             Inl e \<Rightarrow> Inl e
           | Inr db2 \<Rightarrow> Inr (key, db2)))) db)"

definition pg_RevokeAPIKey ::
    "time \<Rightarrow> uuid \<Rightarrow> uuid \<Rightarrow> Entry list \<Rightarrow> db \<Rightarrow> (store_error + unit) \<times> db" where
  "pg_RevokeAPIKey now customerID keyID entries = inTx (\<lambda>db.
    (if \<not> list_ex (\<lambda>k. ak_ID k = keyID \<and> ak_CustomerID k = customerID) (api_keys db)
     then Inl ErrNotFound
     else (case audit_Write now entries
             (db\<lparr>api_keys := upd_where
                (\<lambda>k. ak_ID k = keyID \<and> ak_CustomerID k = customerID \<and> ak_RevokedAt k = None)
                (\<lambda>k. k\<lparr>ak_RevokedAt := Some now\<rparr>) (api_keys db)\<rparr>) of
        Inl e \<Rightarrow> Inl e
      | Inr db' \<Rightarrow> Inr ((), db'))))"

definition auth_key_of :: "APIKey \<Rightarrow> Customer \<Rightarrow> AuthKey" where
  "auth_key_of k c = \<lparr>auk_KeyID = ak_ID k, auk_CustomerID = ak_CustomerID k,
     auk_ClientID = cust_ClientID c, auk_KeyHash = ak_KeyHash k, auk_CustomerStatus = cust_Status c,
     auk_ExpiresAt = ak_ExpiresAt k,
     auk_RateLimitItemsPerSec = coalesce (cust_RateLimitItemsPerSec c) 0\<rparr>"

definition pg_ActiveKeysByPrefix :: "string \<Rightarrow> db \<Rightarrow> AuthKey list" where
  "pg_ActiveKeysByPrefix pfx db =
    [auth_key_of k c. k \<leftarrow> api_keys db, ak_KeyPrefix k = pfx \<and> ak_RevokedAt k = None,
       c \<leftarrow> customers db, cust_ID c = ak_CustomerID k]"

text \<open>The batch of \<open>TouchAPIKeys\<close>, one UPDATE per usage; the Unix epoch is time 0.\<close>

definition greatest_time :: "time option \<Rightarrow> time \<Rightarrow> time option" where
  "greatest_time t u = Some (max (coalesce t 0) u)"

definition touch_key :: "uuid \<Rightarrow> time \<Rightarrow> db \<Rightarrow> db" where
  "touch_key i ts db = db\<lparr>api_keys := upd_where (\<lambda>k. ak_ID k = i)
     (\<lambda>k. k\<lparr>ak_LastUsedAt := greatest_time (ak_LastUsedAt k) ts\<rparr>) (api_keys db)\<rparr>"

definition pg_TouchAPIKeys :: "(uuid \<times> time) list \<Rightarrow> db \<Rightarrow> db" where
  "pg_TouchAPIKeys usages db = foldl (\<lambda>db (i, ts). touch_key i ts db) db usages"

lemma insert_customer_Inr:
  "insert_customer now c db = Inr (r, db') \<longleftrightarrow>
   nc_ID c \<notin> set (customer_ids db) \<and> nc_Slug c \<notin> set (map cust_Slug (customers db)) \<and>
   nc_ClientID c \<notin> set (map cust_ClientID (customers db)) \<and>
   r = new_customer_row now c \<and> db' = db\<lparr>customers := customers db @ [r]\<rparr>"
  by (auto simp: insert_customer_def Let_def)

lemma insertAPIKey_Inr:
  "insertAPIKey now k db = Inr (r, db') \<longleftrightarrow>
   nk_ID k \<notin> set (map ak_ID (api_keys db)) \<and> nk_CustomerID k \<in> set (customer_ids db) \<and>
   ref_ok (user_ids db) (nk_CreatedBy k) \<and>
   r = new_api_key_row now k \<and> db' = db\<lparr>api_keys := api_keys db @ [r]\<rparr>"
  by (auto simp: insertAPIKey_def Let_def)

section \<open>The constraints are kept\<close>

lemma insert_customer_wf:
  assumes "insert_customer now c db = Inr (cust, db')" "db_wf db"
  shows "db_wf db'"
proof -
  let ?cs = "customers db @ [new_customer_row now c]"
  from assms(1) have db': "db' = db\<lparr>customers := ?cs\<rparr>"
    and new: "nc_ID c \<notin> set (customer_ids db)" "nc_Slug c \<notin> set (map cust_Slug (customers db))"
      "nc_ClientID c \<notin> set (map cust_ClientID (customers db))"
    by (auto simp: insert_customer_def Let_def split: if_splits)
  have "customers_wf ?cs"
    using db_wfD(1) [OF assms(2)] new
    by (simp add: customers_wf_def new_customer_row_def id_list_defs status_ok_def rate_ok_def
        retention_ok_def)
  then show ?thesis
    unfolding db' by (intro db_wf_customers [OF assms(2)]) (auto simp: id_list_defs)
qed

lemma insertAPIKey_wf:
  assumes "insertAPIKey now k db = Inr (key, db')" "db_wf db"
  shows "db_wf db'"
proof -
  let ?ks = "api_keys db @ [new_api_key_row now k]"
  from assms(1) have db': "db' = db\<lparr>api_keys := ?ks\<rparr>"
    and new: "nk_ID k \<notin> set (map ak_ID (api_keys db))" "nk_CustomerID k \<in> set (customer_ids db)"
      "ref_ok (user_ids db) (nk_CreatedBy k)"
    by (auto simp: insertAPIKey_def Let_def split: if_splits)
  have "api_keys_wf (user_ids db) (customer_ids db) ?ks"
    using db_wfD(5) [OF assms(2)] new by (simp add: api_keys_wf_def new_api_key_row_def)
  then show ?thesis unfolding db' by (rule db_wf_api_keys [OF assms(2)])
qed

lemma api_keys_wf_upd:
  assumes "api_keys_wf us cs ks"
    and "\<And>k. P k \<Longrightarrow> ak_ID (f k) = ak_ID k \<and> ak_CustomerID (f k) = ak_CustomerID k \<and>
           ak_CreatedBy (f k) = ak_CreatedBy k"
  shows "api_keys_wf us cs (upd_where P f ks)"
  using assms by (auto simp: api_keys_wf_def list_all_iff set_upd_where)

lemma customers_wf_upd:
  assumes "customers_wf cs"
    and "\<And>c. P c \<Longrightarrow> c \<in> set cs \<Longrightarrow> cust_ID (f c) = cust_ID c \<and> cust_Slug (f c) = cust_Slug c \<and>
           cust_ClientID (f c) = cust_ClientID c \<and> customer_checks (f c)"
  shows "customers_wf (upd_where P f cs)"
proof -
  have keys: "map g (upd_where P f cs) = map g cs" if "\<And>c. P c \<Longrightarrow> c \<in> set cs \<Longrightarrow> g (f c) = g c" for g
    using that by (simp add: upd_where_def)
  show ?thesis
    using assms by (auto simp: customers_wf_def keys list_all_iff set_upd_where customer_checks_def)
qed

lemma find_customer_hit:
  assumes "pg_GetCustomer i db = Inr c" "customers_wf (customers db)" "x \<in> set (customers db)"
    "cust_ID x = i"
  shows "x = c"
proof -
  have "c \<in> set (customers db)" "cust_ID c = i"
    using assms(1) by (auto simp: pg_GetCustomer_def dest!: find_SomeD split: option.splits)
  then show ?thesis
    using assms(2-4) distinct_map_inj [of cust_ID "customers db" x c] by (simp add: customers_wf_def)
qed

lemma pg_CreateCustomer_wf [inv_intros]:
  "db_wf db \<Longrightarrow> db_wf (snd (pg_CreateCustomer now c k es db))"
  unfolding pg_CreateCustomer_def
  by (rule inTx_wf)
    (auto split: sum.splits prod.splits dest: insert_customer_wf insertAPIKey_wf audit_Write_wf)

lemma pg_CreateAPIKey_wf [inv_intros]:
  "db_wf db \<Longrightarrow> db_wf (snd (pg_CreateAPIKey now k es db))"
  unfolding pg_CreateAPIKey_def
  by (cases "pg_GetCustomer (nk_CustomerID k) db")
    (auto intro!: inTx_wf split: sum.splits prod.splits, metis audit_Write_wf insertAPIKey_wf)

lemma pg_UpdateCustomer_wf [inv_intros]:
  assumes "db_wf db"
  shows "db_wf (snd (pg_UpdateCustomer now i upd es db))"
  unfolding pg_UpdateCustomer_def
proof (rule inTx_wf [OF assms], goal_cases)
  case (1 x db')
  let ?P = "\<lambda>x. cust_ID x = i \<and> cust_Status x \<noteq> CustomerDeleted"
  let ?cs = "upd_where ?P (apply_customer_update now upd) (customers db)"
  from 1 obtain c where g: "pg_GetCustomer i db = Inr c"
    and ck: "customer_checks (apply_customer_update now upd c)"
    and w: "audit_Write now es (db\<lparr>customers := ?cs\<rparr>) = Inr db'"
    by (auto simp: Let_def split: if_splits sum.splits)
  have keep: "cust_ID (apply_customer_update now upd y) = cust_ID y"
    "cust_Slug (apply_customer_update now upd y) = cust_Slug y"
    "cust_ClientID (apply_customer_update now upd y) = cust_ClientID y" for y
    by (simp_all add: apply_customer_update_def)
  have cwf: "customers_wf (customers db)" using assms by (rule db_wfD)
  have "customers_wf ?cs"
    using find_customer_hit [OF g cwf] ck by (intro customers_wf_upd [OF cwf]) (auto simp: keep)
  moreover have "map cust_ID ?cs = map cust_ID (customers db)"
    by (simp add: keep)
  ultimately have "db_wf (db\<lparr>customers := ?cs\<rparr>)"
    by (intro db_wf_customers [OF assms]) (simp_all add: id_list_defs)
  with w show ?case by (rule audit_Write_wf)
qed

lemma pg_SoftDeleteCustomer_wf [inv_intros]:
  assumes "db_wf db"
  shows "db_wf (snd (pg_SoftDeleteCustomer now i es db))"
  unfolding pg_SoftDeleteCustomer_def
proof (rule inTx_wf [OF assms], goal_cases)
  case (1 x db')
  let ?P = "\<lambda>c. cust_ID c = i \<and> cust_Status c \<noteq> CustomerDeleted"
  let ?cs = "upd_where ?P (\<lambda>c. c\<lparr>cust_Status := CustomerDeleted, cust_UpdatedAt := now\<rparr>) (customers db)"
  let ?ks = "upd_where (\<lambda>k. ak_CustomerID k = i \<and> ak_RevokedAt k = None)
     (\<lambda>k. k\<lparr>ak_RevokedAt := Some now\<rparr>) (api_keys db)"
  from 1 have w: "audit_Write now es (db\<lparr>customers := ?cs, api_keys := ?ks\<rparr>) = Inr db'"
    by (auto simp: Let_def split: if_splits sum.splits)
  have cwf: "customers_wf (customers db)" using assms by (rule db_wfD)
  then have "customers_wf ?cs"
    by (intro customers_wf_upd) (auto simp: customer_checks_def status_ok_def customers_wf_def list_all_iff)
  then have "db_wf (db\<lparr>customers := ?cs\<rparr>)"
    by (intro db_wf_customers [OF assms]) (simp_all add: id_list_defs)
  moreover have "api_keys_wf (user_ids db) (customer_ids db) ?ks"
    by (rule api_keys_wf_upd [OF db_wfD(5) [OF assms]]) simp
  then have "api_keys_wf (user_ids (db\<lparr>customers := ?cs\<rparr>)) (customer_ids (db\<lparr>customers := ?cs\<rparr>)) ?ks"
    by (simp add: id_list_defs)
  ultimately have "db_wf (db\<lparr>customers := ?cs, api_keys := ?ks\<rparr>)"
    by (rule db_wf_api_keys)
  with w show ?case by (rule audit_Write_wf)
qed

lemma pg_RevokeAPIKey_wf [inv_intros]:
  assumes "db_wf db"
  shows "db_wf (snd (pg_RevokeAPIKey now c i es db))"
  unfolding pg_RevokeAPIKey_def
proof (rule inTx_wf [OF assms], goal_cases)
  case (1 x db')
  let ?ks = "upd_where (\<lambda>k. ak_ID k = i \<and> ak_CustomerID k = c \<and> ak_RevokedAt k = None)
     (\<lambda>k. k\<lparr>ak_RevokedAt := Some now\<rparr>) (api_keys db)"
  from 1 have w: "audit_Write now es (db\<lparr>api_keys := ?ks\<rparr>) = Inr db'"
    by (auto split: if_splits sum.splits)
  have "api_keys_wf (user_ids db) (customer_ids db) ?ks"
    by (rule api_keys_wf_upd [OF db_wfD(5) [OF assms]]) simp
  then have "db_wf (db\<lparr>api_keys := ?ks\<rparr>)" by (rule db_wf_api_keys [OF assms])
  with w show ?case by (rule audit_Write_wf)
qed

lemma touch_key_wf: "db_wf db \<Longrightarrow> db_wf (touch_key i ts db)"
  unfolding touch_key_def
  by (rule db_wf_api_keys, assumption, rule api_keys_wf_upd) (simp_all add: db_wfD)

lemma pg_TouchAPIKeys_wf [inv_intros]: "db_wf db \<Longrightarrow> db_wf (pg_TouchAPIKeys us db)"
  unfolding pg_TouchAPIKeys_def by (induction us arbitrary: db) (auto simp: touch_key_wf)

section \<open>What a lookup by prefix finds\<close>

lemma in_ActiveKeysByPrefix:
  "a \<in> set (pg_ActiveKeysByPrefix p db) \<longleftrightarrow>
   (\<exists>k c. k \<in> set (api_keys db) \<and> c \<in> set (customers db) \<and> ak_KeyPrefix k = p \<and> ak_RevokedAt k = None \<and>
      cust_ID c = ak_CustomerID k \<and> a = auth_key_of k c)"
  by (auto simp: pg_ActiveKeysByPrefix_def)

text \<open>A revoked key is gone from every lookup; a soft-deleted customer has no key left in any.\<close>

lemma RevokeAPIKey_revoked:
  assumes "pg_RevokeAPIKey now c i es db = (Inr (), db')" "db_wf db"
    "k \<in> set (api_keys db')" "ak_ID k = i"
  shows "ak_RevokedAt k \<noteq> None"
proof -
  let ?P = "\<lambda>k. ak_ID k = i \<and> ak_CustomerID k = c \<and> ak_RevokedAt k = None"
  let ?f = "\<lambda>k. k\<lparr>ak_RevokedAt := Some now\<rparr>"
  from assms(1) have ex: "list_ex (\<lambda>k. ak_ID k = i \<and> ak_CustomerID k = c) (api_keys db)"
    and w: "audit_Write now es (db\<lparr>api_keys := upd_where ?P ?f (api_keys db)\<rparr>) = Inr db'"
    by (auto simp: pg_RevokeAPIKey_def inTx_Inr split: if_splits sum.splits)
  from ex obtain y where y: "y \<in> set (api_keys db)" "ak_ID y = i" "ak_CustomerID y = c"
    by (auto simp: list_ex_iff)
  from assms(3) audit_Write_fields(5) [OF w] obtain x where x: "x \<in> set (api_keys db)"
    and k: "k = (if ?P x then ?f x else x)" by (auto simp: set_upd_where)
  have "ak_ID x = i" using k assms(4) by (auto split: if_splits)
  then have "x = y"
    using x y db_wfD(5) [OF assms(2)] distinct_map_inj [of ak_ID "api_keys db" x y]
    by (simp add: api_keys_wf_def)
  then show ?thesis using k y by auto
qed

lemma pg_CreateCustomer_succeeds:
  assumes "nc_ID c \<notin> set (customer_ids db)" "nc_Slug c \<notin> set (map cust_Slug (customers db))"
    "nc_ClientID c \<notin> set (map cust_ClientID (customers db))" "nk_ID k \<notin> set (map ak_ID (api_keys db))"
    "nk_CustomerID k = nc_ID c" "ref_ok (user_ids db) (nk_CreatedBy k)"
    "\<And>db. \<exists>db'. audit_Write now es db = Inr db'"
  shows "\<exists>cust key db'. pg_CreateCustomer now c k es db = (Inr (cust, key), db')"
proof -
  define r where "r = new_customer_row now c"
  define db1 where "db1 = db\<lparr>customers := customers db @ [r]\<rparr>"
  have 1: "insert_customer now c db = Inr (r, db1)"
    using assms(1-3) by (simp add: insert_customer_def r_def db1_def Let_def)
  have "customer_ids db1 = customer_ids db @ [nc_ID c]" "user_ids db1 = user_ids db" "api_keys db1 = api_keys db"
    by (simp_all add: id_list_defs db1_def r_def new_customer_row_def)
  then have 2: "\<exists>key db2. insertAPIKey now k db1 = Inr (key, db2)"
    using assms(4-6) by (simp add: insertAPIKey_def Let_def)
  then obtain key db2 where "insertAPIKey now k db1 = Inr (key, db2)" by blast
  moreover obtain db3 where "audit_Write now es db2 = Inr db3" using assms(7) by blast
  ultimately show ?thesis using 1 by (simp add: pg_CreateCustomer_def inTx_def)
qed

lemma RevokeAPIKey_rows:
  assumes "pg_RevokeAPIKey now c i es db = (Inr (), db')" "k \<in> set (api_keys db')"
  shows "\<exists>x \<in> set (api_keys db). ak_ID x = ak_ID k \<and> ak_KeyHash x = ak_KeyHash k"
proof -
  let ?P = "\<lambda>k. ak_ID k = i \<and> ak_CustomerID k = c \<and> ak_RevokedAt k = None"
  from assms(1) have w: "audit_Write now es (db\<lparr>api_keys := upd_where ?P
      (\<lambda>k. k\<lparr>ak_RevokedAt := Some now\<rparr>) (api_keys db)\<rparr>) = Inr db'"
    by (auto simp: pg_RevokeAPIKey_def inTx_Inr split: if_splits sum.splits)
  from assms(2) audit_Write_fields(5) [OF w] show ?thesis by (auto simp: set_upd_where)
qed

lemma SoftDeleteCustomer_revoked:
  assumes "pg_SoftDeleteCustomer now i es db = (Inr (), db')" "k \<in> set (api_keys db')"
    "ak_CustomerID k = i"
  shows "ak_RevokedAt k \<noteq> None"
proof -
  from assms(1) obtain cs where w: "audit_Write now es (db\<lparr>customers := cs,
      api_keys := upd_where (\<lambda>k. ak_CustomerID k = i \<and> ak_RevokedAt k = None)
        (\<lambda>k. k\<lparr>ak_RevokedAt := Some now\<rparr>) (api_keys db)\<rparr>) = Inr db'"
    by (auto simp: pg_SoftDeleteCustomer_def inTx_Inr Let_def split: if_splits sum.splits)
  from assms(2) audit_Write_fields(5) [OF w] obtain x where "x \<in> set (api_keys db)"
    "k = (if ak_CustomerID x = i \<and> ak_RevokedAt x = None then x\<lparr>ak_RevokedAt := Some now\<rparr> else x)"
    by (auto simp: set_upd_where)
  then show ?thesis using assms(3) by (auto split: if_splits)
qed

end
