(* ===== verification/Tenants.thy ===== *)
theory Tenants
  imports StoreTenants Slug Keys
begin

text \<open>
  The tenants service, \<open>internal/tenants/service.go\<close>: customers and API keys on top of the store.
  What an attempt of \<open>CreateCustomer\<close> draws from \<open>crypto/rand\<close>, \<open>uuid.New\<close> and the clock is a
  record \<open>draws\<close>, one per attempt.
\<close>

datatype svc_error =
    ErrInvalidName
  | ErrInvalidSlug
  | ErrUnknownRole string
  | ErrRandom string
  | ErrStore store_error

record draws =
  dr_client :: "bytes option"
  dr_key :: "bytes option"
  dr_customer_id :: uuid
  dr_key_id :: uuid
  dr_now :: time

definition NewClientID :: "bytes option \<Rightarrow> string option" where
  "NewClientID rnd = map_option (\<lambda>b. ''cust_'' @ hexEncode b) rnd"

record CreatedCustomer =
  cc_Customer :: Customer
  cc_Key :: APIKey
  cc_Secret :: string

definition name_ok :: "string \<Rightarrow> bool" where
  "name_ok name \<longleftrightarrow> \<not> (name = '''' \<or> length name > 200)"

definition user_entry :: "uuid option \<Rightarrow> string \<Rightarrow> string \<Rightarrow> string \<Rightarrow> uuid option \<Rightarrow> json option \<Rightarrow> Entry" where
  "user_entry actor action etype eid cust payload = \<lparr>ae_ActorUserID = actor, ae_ActorType = '''',
     ae_Action = action, ae_EntityType = etype, ae_EntityID = eid, ae_CustomerID = cust,
     ae_Payload = payload\<rparr>"

definition create_customer_entries ::
    "uuid option \<Rightarrow> string \<Rightarrow> string \<Rightarrow> string \<Rightarrow> uuid \<Rightarrow> uuid \<Rightarrow> string \<Rightarrow> Entry list" where
  "create_customer_entries actor name slug clientID cid kid kprefix =
    [user_entry actor ''customer.create'' ''customer'' (uuid_String cid) (Some cid)
       (Some (JObj [(''name'', JStr name), (''slug'', JStr slug), (''client_id'', JStr clientID)])),
     user_entry actor ''apikey.create'' ''api_key'' (uuid_String kid) (Some cid)
       (Some (JObj [(''name'', JStr ''default''), (''key_prefix'', JStr kprefix)]))]"

text \<open>One round of the retry loop: the draws, then the store's transaction.\<close>

definition create_attempt ::
    "uuid option \<Rightarrow> string \<Rightarrow> string \<Rightarrow> draws \<Rightarrow> db \<Rightarrow> (svc_error + CreatedCustomer) \<times> db" where
  "create_attempt actor name trySlug d db =
    (case NewClientID (dr_client d) of
       None \<Rightarrow> (Inl (ErrRandom ''generate client id''), db)
     | Some clientID \<Rightarrow>
         (case GenerateAPIKey (dr_key d) of
            Inl (ErrRand m) \<Rightarrow> (Inl (ErrRandom m), db)
          | Inr key \<Rightarrow>
              (let nc = \<lparr>nc_ID = dr_customer_id d, nc_Slug = trySlug, nc_Name = name,
                         nc_ClientID = clientID\<rparr>;
                   nk = \<lparr>nk_ID = dr_key_id d, nk_CustomerID = dr_customer_id d,
                         nk_Name = ''default'', nk_KeyPrefix = gk_Prefix key,
                         nk_KeyHash = gk_Hash key, nk_CreatedBy = actor, nk_ExpiresAt = None\<rparr>
               in case pg_CreateCustomer (dr_now d) nc nk
                      (create_customer_entries actor name trySlug clientID (dr_customer_id d)
                         (dr_key_id d) (gk_Prefix key)) db of
                    (Inl e, db') \<Rightarrow> (Inl (ErrStore e), db')
                  | (Inr (cust, apiKey), db') \<Rightarrow>
                      (Inr \<lparr>cc_Customer = cust, cc_Key = apiKey, cc_Secret = gk_Secret key\<rparr>, db'))))"

text \<open>The retry loop, with the number of attempts left.\<close>

fun create_loop ::
    "nat \<Rightarrow> nat \<Rightarrow> uuid option \<Rightarrow> string \<Rightarrow> bool \<Rightarrow> string \<Rightarrow> string \<Rightarrow> (nat \<Rightarrow> draws) \<Rightarrow> db \<Rightarrow>
     (svc_error + CreatedCustomer) \<times> db" where
  "create_loop 0 attempt actor name derived baseSlug trySlug dr db = (Inl (ErrStore ErrSlugExists), db)"
| "create_loop (Suc left) attempt actor name derived baseSlug trySlug dr db =
    (case create_attempt actor name trySlug (dr attempt) db of
       (Inr c, db') \<Rightarrow> (Inr c, db')
     | (Inl e, db') \<Rightarrow>
         (if e = ErrStore ErrSlugExists \<and> derived then
            create_loop left (Suc attempt) actor name derived baseSlug
              (baseSlug @ ''-'' @ Itoa (int attempt + 1)) dr db'
          else if e = ErrStore ErrConflict then
            create_loop left (Suc attempt) actor name derived baseSlug trySlug dr db'
          else (Inl e, db')))"

definition maxAttempts :: nat where
  "maxAttempts = 10"

definition CreateCustomer ::
    "uuid option \<Rightarrow> string \<Rightarrow> string option \<Rightarrow> (nat \<Rightarrow> draws) \<Rightarrow> db \<Rightarrow> (svc_error + CreatedCustomer) \<times> db" where
  "CreateCustomer actor name slug dr db =
    (let name = TrimSpace name
     in if \<not> name_ok name then (Inl ErrInvalidName, db)
        else (case slug of
            None \<Rightarrow> (let b = DeriveSlug name in create_loop maxAttempts 1 actor name True b b dr db)
          | Some s \<Rightarrow> (if \<not> ValidSlug s then (Inl ErrInvalidSlug, db)
                       else create_loop maxAttempts 1 actor name False s s dr db)))"

definition opt_field :: "string \<Rightarrow> json option \<Rightarrow> (string \<times> json) list" where
  "opt_field k v = (case v of None \<Rightarrow> [] | Some j \<Rightarrow> [(k, j)])"

definition jint :: "int option \<Rightarrow> json" where
  "jint v = (case v of None \<Rightarrow> JNull | Some n \<Rightarrow> JNum n)"

definition UpdateCustomer ::
    "time \<Rightarrow> uuid option \<Rightarrow> uuid \<Rightarrow> CustomerUpdate \<Rightarrow> db \<Rightarrow> (svc_error + Customer) \<times> db" where
  "UpdateCustomer now actor i upd db =
    (let name = map_option TrimSpace (cu_Name upd);
         upd' = upd\<lparr>cu_Name := name\<rparr>;
         payload = JObj (opt_field ''name'' (map_option JStr name)
           @ opt_field ''status'' (map_option JStr (cu_Status upd))
           @ opt_field ''rate_limit_items_per_sec'' (map_option jint (cu_RateLimitItemsPerSec upd))
           @ opt_field ''retention_days'' (map_option jint (cu_RetentionDays upd)))
     in if (case name of None \<Rightarrow> False | Some n \<Rightarrow> \<not> name_ok n) then (Inl ErrInvalidName, db)
        else (case pg_UpdateCustomer now i upd'
                 [user_entry actor ''customer.update'' ''customer'' (uuid_String i) (Some i)
                    (Some payload)] db of
            (Inl e, db') \<Rightarrow> (Inl (ErrStore e), db')
          | (Inr c, db') \<Rightarrow> (Inr c, db')))"

definition DeleteCustomer :: "time \<Rightarrow> uuid option \<Rightarrow> uuid \<Rightarrow> db \<Rightarrow> (store_error + unit) \<times> db" where
  "DeleteCustomer now actor i db = pg_SoftDeleteCustomer now i
     [user_entry actor ''customer.delete'' ''customer'' (uuid_String i) (Some i) None] db"

definition CreateAPIKey ::
    "time \<Rightarrow> uuid \<Rightarrow> bytes option \<Rightarrow> uuid option \<Rightarrow> uuid \<Rightarrow> string \<Rightarrow> time option \<Rightarrow> db \<Rightarrow>
     (svc_error + APIKey \<times> string) \<times> db" where
  "CreateAPIKey now newID rnd actor customerID name expiresAt db =
    (let name = TrimSpace name
     in if \<not> name_ok name then (Inl ErrInvalidName, db)
        else (case GenerateAPIKey rnd of
            Inl (ErrRand m) \<Rightarrow> (Inl (ErrRandom m), db)
          | Inr key \<Rightarrow>
              (let nk = \<lparr>nk_ID = newID, nk_CustomerID = customerID, nk_Name = name,
                         nk_KeyPrefix = gk_Prefix key, nk_KeyHash = gk_Hash key,
                         nk_CreatedBy = actor, nk_ExpiresAt = expiresAt\<rparr>
               in case pg_CreateAPIKey now nk
                      [user_entry actor ''apikey.create'' ''api_key'' (uuid_String newID)
                         (Some customerID)
                         (Some (JObj [(''name'', JStr name), (''key_prefix'', JStr (gk_Prefix key))]))] db of
                    (Inl e, db') \<Rightarrow> (Inl (ErrStore e), db')
                  | (Inr stored, db') \<Rightarrow> (Inr (stored, gk_Secret key), db'))))"

definition RevokeAPIKey :: "time \<Rightarrow> uuid option \<Rightarrow> uuid \<Rightarrow> uuid \<Rightarrow> db \<Rightarrow> (store_error + unit) \<times> db" where
  "RevokeAPIKey now actor customerID keyID db = pg_RevokeAPIKey now customerID keyID
     [user_entry actor ''apikey.revoke'' ''api_key'' (uuid_String keyID) (Some customerID) None] db"

section \<open>An attempt\<close>

lemma user_entries_ok: "list_all (\<lambda>e. ae_ActorType e = '''') es \<Longrightarrow> \<exists>db'. audit_Write now es db = Inr db'"
  by (rule audit_Write_ok) (auto simp: list_all_iff)

text \<open>What a successful attempt has stored, and that a failed one leaves the database alone.\<close>

lemma create_attempt_Inr:
  assumes "create_attempt actor name s d db = (Inr c, db')"
  shows "cust_ID (cc_Customer c) = dr_customer_id d" "cust_Slug (cc_Customer c) = s"
    "cust_Name (cc_Customer c) = name" "cust_Status (cc_Customer c) = CustomerActive"
    "ak_CustomerID (cc_Key c) = dr_customer_id d" "ak_RevokedAt (cc_Key c) = None"
    "ak_ExpiresAt (cc_Key c) = None" "ak_KeyHash (cc_Key c) = HashAPIKey (cc_Secret c)"
    "\<exists>buf. dr_key d = Some buf \<and> (length buf = 36 \<longrightarrow> ParseKeyPrefix (cc_Secret c) = Some (ak_KeyPrefix (cc_Key c)))"
    "customers db' = customers db @ [cc_Customer c]" "api_keys db' = api_keys db @ [cc_Key c]"
    "s \<notin> set (map cust_Slug (customers db))"
    "map ae_Action (drop (length (audit_log db)) (audit_log db')) = [''customer.create'', ''apikey.create'']"
proof -
  from assms obtain b key clientID db1 db2 where k: "GenerateAPIKey (dr_key d) = Inr key"
    and ic: "insert_customer (dr_now d) \<lparr>nc_ID = dr_customer_id d, nc_Slug = s, nc_Name = name,
        nc_ClientID = clientID\<rparr> db = Inr (cc_Customer c, db1)"
    and ik: "insertAPIKey (dr_now d) \<lparr>nk_ID = dr_key_id d, nk_CustomerID = dr_customer_id d,
        nk_Name = ''default'', nk_KeyPrefix = gk_Prefix key, nk_KeyHash = gk_Hash key,
        nk_CreatedBy = actor, nk_ExpiresAt = None\<rparr> db1 = Inr (cc_Key c, db2)"
    and w: "audit_Write (dr_now d) (create_customer_entries actor name s clientID (dr_customer_id d)
        (dr_key_id d) (gk_Prefix key)) db2 = Inr db'"
    and sec: "cc_Secret c = gk_Secret key"
    by (auto simp: create_attempt_def Let_def pg_CreateCustomer_def inTx_def
        split: option.splits sum.splits key_error.splits prod.splits)
  obtain buf where buf: "dr_key d = Some buf"
    using k by (auto simp: GenerateAPIKey_def split: option.splits)
  note g = api_key.gen_layout [OF k [unfolded buf]]
  note rows = ic [unfolded insert_customer_Inr] ik [unfolded insertAPIKey_Inr]
  show "\<exists>buf. dr_key d = Some buf \<and> (length buf = 36 \<longrightarrow> ParseKeyPrefix (cc_Secret c) = Some (ak_KeyPrefix (cc_Key c)))"
    using buf k api_key.round_trip [of buf key] rows sec by (simp add: new_api_key_row_def)
  show "cust_ID (cc_Customer c) = dr_customer_id d" "cust_Slug (cc_Customer c) = s"
    "cust_Name (cc_Customer c) = name" "cust_Status (cc_Customer c) = CustomerActive"
    "s \<notin> set (map cust_Slug (customers db))"
    using rows by (simp_all add: new_customer_row_def)
  show "ak_CustomerID (cc_Key c) = dr_customer_id d" "ak_RevokedAt (cc_Key c) = None"
    "ak_ExpiresAt (cc_Key c) = None" "ak_KeyHash (cc_Key c) = HashAPIKey (cc_Secret c)"
    using rows g sec by (simp_all add: new_api_key_row_def)
  show "customers db' = customers db @ [cc_Customer c]" "api_keys db' = api_keys db @ [cc_Key c]"
    using rows audit_Write_fields [OF w] by simp_all
  have "audit_log db2 = audit_log db" using rows by simp
  with audit_Write_log [OF w] show
    "map ae_Action (drop (length (audit_log db)) (audit_log db')) = [''customer.create'', ''apikey.create'']"
    by (auto simp: create_customer_entries_def user_entry_def)
qed

lemma create_attempt_succeeds:
  assumes "dr_client d = Some bytes" "dr_key d = Some buf"
    "dr_customer_id d \<notin> set (customer_ids db)" "s \<notin> set (map cust_Slug (customers db))"
    "''cust_'' @ hexEncode bytes \<notin> set (map cust_ClientID (customers db))"
    "dr_key_id d \<notin> set (map ak_ID (api_keys db))" "ref_ok (user_ids db) actor"
  shows "\<exists>c db'. create_attempt actor name s d db = (Inr c, db')"
proof -
  obtain key where key: "GenerateAPIKey (dr_key d) = Inr key" using api_key.gen_total assms(2) by metis
  have c: "NewClientID (dr_client d) = Some (''cust_'' @ hexEncode bytes)"
    using assms(1) by (simp add: NewClientID_def)
  let ?es = "create_customer_entries actor name s (''cust_'' @ hexEncode bytes) (dr_customer_id d) (dr_key_id d) (gk_Prefix key)"
  have w: "list_all (\<lambda>e. ae_ActorType e = '''') ?es"
    by (simp add: create_customer_entries_def user_entry_def)
  have "\<exists>cust k db'. pg_CreateCustomer (dr_now d) \<lparr>nc_ID = dr_customer_id d, nc_Slug = s, nc_Name = name,
        nc_ClientID = ''cust_'' @ hexEncode bytes\<rparr> \<lparr>nk_ID = dr_key_id d, nk_CustomerID = dr_customer_id d,
        nk_Name = ''default'', nk_KeyPrefix = gk_Prefix key, nk_KeyHash = gk_Hash key, nk_CreatedBy = actor,
        nk_ExpiresAt = None\<rparr> ?es db = (Inr (cust, k), db')"
    by (rule pg_CreateCustomer_succeeds) (use assms user_entries_ok [OF w] in simp_all)
  then show ?thesis
    unfolding create_attempt_def c option.case key sum.case Let_def by (elim exE) simp
qed

lemma create_attempt_Inl: "create_attempt actor name s d db = (Inl e, db') \<Longrightarrow> db' = db"
  by (auto simp: create_attempt_def Let_def pg_CreateCustomer_def inTx_error
      split: option.splits sum.splits key_error.splits prod.splits)

lemma create_attempt_wf: "db_wf db \<Longrightarrow> db_wf (snd (create_attempt actor name s d db))"
  unfolding create_attempt_def Let_def
  by (auto split: option.splits sum.splits key_error.splits prod.splits)
    (metis pg_CreateCustomer_wf snd_conv)+

section \<open>The retry loop\<close>

text \<open>Slugs a loop with base slug \<open>b\<close> may store: the slug it starts with and, for a derived one,
  the base with a suffix of at most \<open>n\<close>.\<close>

definition slug_candidates :: "bool \<Rightarrow> string \<Rightarrow> string \<Rightarrow> nat \<Rightarrow> string set" where
  "slug_candidates derived b s n =
    insert s (if derived then {b @ ''-'' @ Itoa (int i) | i. 2 \<le> i \<and> i \<le> n} else {})"

lemma create_loop_Inr:
  assumes "create_loop left attempt actor name derived b s dr db = (Inr c, db')" "1 \<le> attempt"
  shows "\<exists>i \<ge> attempt. i < attempt + left \<and> create_attempt actor name (cust_Slug (cc_Customer c)) (dr i) db
       = (Inr c, db') \<and>
     cust_Slug (cc_Customer c) \<in> slug_candidates derived b s (attempt + left - 1)"
  using assms
proof (induction left arbitrary: attempt s db)
  case 0
  then show ?case by simp
next
  case (Suc left)
  show ?case
  proof (cases "create_attempt actor name s (dr attempt) db")
    case (Pair r db1)
    show ?thesis
    proof (cases r)
      case (Inr c1)
      then have "c1 = c" "db1 = db'" using Suc.prems(1) Pair by auto
      then have a: "create_attempt actor name s (dr attempt) db = (Inr c, db')" using Pair Inr by simp
      then have "cust_Slug (cc_Customer c) = s" by (rule create_attempt_Inr)
      then show ?thesis using a by (intro exI [of _ attempt]) (auto simp: slug_candidates_def)
    next
      case (Inl e)
      with Pair have db1: "db1 = db" by (simp add: create_attempt_Inl)
      obtain s' where l: "create_loop left (Suc attempt) actor name derived b s' dr db = (Inr c, db')"
        and s': "s' = s \<or> derived \<and> s' = b @ ''-'' @ Itoa (int attempt + 1)"
        using Suc.prems(1) Pair Inl db1 by (auto split: if_splits)
      from Suc.IH [OF l] obtain i where i: "i \<ge> Suc attempt" "i < Suc attempt + left"
        "create_attempt actor name (cust_Slug (cc_Customer c)) (dr i) db = (Inr c, db')"
        "cust_Slug (cc_Customer c) \<in> slug_candidates derived b s' (Suc attempt + left - 1)" by auto
      have "left \<noteq> 0" using l by (cases left) auto
      then have "s' \<in> slug_candidates derived b s (attempt + Suc left - 1)"
        using s' Suc.prems(2) by (auto simp: slug_candidates_def add.commute intro!: exI [of _ "Suc attempt"])
      then have "slug_candidates derived b s' (Suc attempt + left - 1)
          \<subseteq> slug_candidates derived b s (attempt + Suc left - 1)"
        by (auto simp: slug_candidates_def)
      with i show ?thesis by (intro exI [of _ i]) auto
    qed
  qed
qed

lemma create_loop_Inl: "create_loop left attempt actor name derived b s dr db = (Inl e, db') \<Longrightarrow> db' = db"
proof (induction left arbitrary: attempt s db)
  case 0
  then show ?case by simp
next
  case (Suc left)
  then show ?case
    by (auto split: prod.splits sum.splits if_splits dest: create_attempt_Inl)
qed

lemma create_loop_wf: "db_wf db \<Longrightarrow> db_wf (snd (create_loop left attempt actor name derived b s dr db))"
proof (induction left arbitrary: attempt s db)
  case 0
  then show ?case by simp
next
  case (Suc left)
  have "db_wf (snd (create_attempt actor name s (dr attempt) db))"
    using Suc.prems by (rule create_attempt_wf)
  then show ?case using Suc.IH by (auto split: prod.splits sum.splits)
qed

text \<open>A successful creation, whatever the slug argument was.\<close>

lemma CreateCustomer_Inr:
  assumes "CreateCustomer actor name slug dr db = (Inr c, db')"
  shows "\<exists>i. 1 \<le> i \<and> i \<le> 10 \<and>
      create_attempt actor (TrimSpace name) (cust_Slug (cc_Customer c)) (dr i) db = (Inr c, db') \<and>
      cust_Slug (cc_Customer c) \<in>
        (case slug of None \<Rightarrow> slug_candidates True (DeriveSlug (TrimSpace name)) (DeriveSlug (TrimSpace name)) 10
         | Some s \<Rightarrow> {s}) \<and>
      (\<forall>s. slug = Some s \<longrightarrow> ValidSlug s) \<and> name_ok (TrimSpace name)"
proof (cases slug)
  case None
  then have "create_loop maxAttempts 1 actor (TrimSpace name) True (DeriveSlug (TrimSpace name))
      (DeriveSlug (TrimSpace name)) dr db = (Inr c, db')" and n: "name_ok (TrimSpace name)"
    using assms by (auto simp: CreateCustomer_def Let_def split: if_splits)
  from create_loop_Inr [OF this(1)] n None show ?thesis by (auto simp: maxAttempts_def)
next
  case (Some s)
  then have "create_loop maxAttempts 1 actor (TrimSpace name) False s s dr db = (Inr c, db')"
    and v: "ValidSlug s" "name_ok (TrimSpace name)"
    using assms by (auto simp: CreateCustomer_def Let_def split: if_splits)
  from create_loop_Inr [OF this(1)] v Some show ?thesis
    by (auto simp: maxAttempts_def slug_candidates_def)
qed

lemma CreateCustomer_wf [inv_intros]: "db_wf db \<Longrightarrow> db_wf (snd (CreateCustomer actor name slug dr db))"
  by (auto simp: CreateCustomer_def Let_def create_loop_wf split: option.splits)

lemma CreateCustomer_Inl: "CreateCustomer actor name slug dr db = (Inl e, db') \<Longrightarrow> db' = db"
  by (auto simp: CreateCustomer_def Let_def split: option.splits if_splits dest: create_loop_Inl)

section \<open>Stored slugs\<close>

lemma Itoa_digits: "0 \<le> n \<Longrightarrow> c \<in> set (Itoa n) \<Longrightarrow> alnum c"
  using digits_nat_set [of "nat n"]
  by (auto simp: Itoa_def alnum_def less_eq_char_def dest!: subsetD)

lemma digits_nat_two: "n < 100 \<Longrightarrow> length (digits_nat n) \<le> 2"
  by (auto simp: digits_nat.simps [of n] digits_nat.simps [of "n div 10"])

lemma Itoa_two: "i \<le> 10 \<Longrightarrow> length (Itoa (int i)) \<le> 2"
  using digits_nat_two [of i] by (simp add: Itoa_def)

lemma Itoa_nonempty [simp]: "Itoa n \<noteq> []"
  by (simp add: Itoa_def)

lemma suffixed_slug_valid:
  assumes "ValidSlug b" "length b \<le> 61" "i \<le> 10"
  shows "ValidSlug (b @ ''-'' @ Itoa (int i))"
proof -
  have "alnum (last (Itoa (int i)))" by (rule Itoa_digits [of "int i"]) simp_all
  moreover have "list_all slug_char (Itoa (int i))"
    using Itoa_digits [of "int i"] by (auto simp: list_all_iff slug_char_def)
  moreover have "b \<noteq> []" using assms(1) by (auto simp: ValidSlug_def)
  ultimately show ?thesis
    using assms Itoa_two [OF assms(3)] by (simp add: ValidSlug_def slug_char_def)
qed

section \<open>Properties\<close>

text \<open>C6: creating a customer either changes nothing and reports the error, or stores exactly one
  new active customer with a fresh ID, slug and client ID together with one key that belongs to it;
  the secret handed back is the one the stored hash was made from, and both rows are in the audit
  log. The schema's constraints hold afterwards in either case.\<close>

theorem CreateCustomer_atomic:
  assumes "db_wf db" "\<forall>i buf. dr_key (dr i) = Some buf \<longrightarrow> length buf = 36"
    and "CreateCustomer actor name slug dr db = (res, db')"
  shows "db_wf db' \<and> (case res of
      Inl e \<Rightarrow> db' = db
    | Inr c \<Rightarrow>
        customers db' = customers db @ [cc_Customer c] \<and> api_keys db' = api_keys db @ [cc_Key c] \<and>
        cust_Status (cc_Customer c) = CustomerActive \<and> cust_Name (cc_Customer c) = TrimSpace name \<and>
        cust_ID (cc_Customer c) \<notin> set (map cust_ID (customers db)) \<and>
        cust_Slug (cc_Customer c) \<notin> set (map cust_Slug (customers db)) \<and>
        cust_ClientID (cc_Customer c) \<notin> set (map cust_ClientID (customers db)) \<and>
        ak_CustomerID (cc_Key c) = cust_ID (cc_Customer c) \<and> ak_RevokedAt (cc_Key c) = None \<and>
        ak_KeyHash (cc_Key c) = HashAPIKey (cc_Secret c) \<and>
        ParseKeyPrefix (cc_Secret c) = Some (ak_KeyPrefix (cc_Key c)) \<and>
        map ae_Action (drop (length (audit_log db)) (audit_log db')) = [''customer.create'', ''apikey.create''])"
proof -
  have wf: "db_wf db'" using CreateCustomer_wf [OF assms(1), of actor name slug dr] assms(3) by simp
  show ?thesis
  proof (cases res)
    case (Inl e)
    then show ?thesis using assms(3) wf CreateCustomer_Inl by simp
  next
    case (Inr c)
    from CreateCustomer_Inr [OF assms(3) [unfolded Inr]] obtain i where
      "create_attempt actor (TrimSpace name) (cust_Slug (cc_Customer c)) (dr i) db = (Inr c, db')" by blast
    note a = create_attempt_Inr [OF this]
    have "distinct (map cust_ID (customers db'))" "distinct (map cust_ClientID (customers db'))"
      using db_wfD(1) [OF wf] by (simp_all add: customers_wf_def)
    with a assms(2) wf show ?thesis unfolding Inr by auto
  qed
qed

definition sample_draws :: "nat \<Rightarrow> draws" where
  "sample_draws i = \<lparr>dr_client = Some (replicate 5 CHR ''a''), dr_key = Some (replicate 36 CHR ''a''),
     dr_customer_id = 1, dr_key_id = 2, dr_now = 0\<rparr>"

lemma sample_create: "\<exists>c db'. CreateCustomer None ''Acme'' (Some ''acme'') sample_draws (db_init 0) = (Inr c, db')"
proof -
  have "\<exists>c db'. create_attempt None ''Acme'' ''acme'' (sample_draws 1) (db_init 0) = (Inr c, db')"
    by (rule create_attempt_succeeds) (simp_all add: sample_draws_def db_init_def id_list_defs ref_ok_def)
  then obtain c db' where "create_attempt None ''Acme'' ''acme'' (sample_draws 1) (db_init 0) = (Inr c, db')"
    by blast
  moreover have "TrimSpace ''Acme'' = ''Acme''" "ValidSlug ''acme''" by code_simp+
  ultimately show ?thesis
    by (simp add: CreateCustomer_def name_ok_def maxAttempts_def eval_nat_numeral)
qed

theorem CreateCustomer_atomic_witness:
  "\<exists>c db'. CreateCustomer None ''Acme'' (Some ''acme'') sample_draws (db_init 0) = (Inr c, db') \<and>
     db_wf db' \<and> ParseKeyPrefix (cc_Secret c) = Some (ak_KeyPrefix (cc_Key c))"
proof -
  obtain c db' where "CreateCustomer None ''Acme'' (Some ''acme'') sample_draws (db_init 0) = (Inr c, db')"
    using sample_create by blast
  with CreateCustomer_atomic [OF db_init_wf _ this] show ?thesis by (auto simp: sample_draws_def)
qed

text \<open>C15: a new customer's slug is a valid one: the requested slug, or the one derived from the name
  with a suffix if it was taken, as long as the derived slug leaves room for the suffix.\<close>

theorem CreateCustomer_slug_valid:
  assumes "CreateCustomer actor name slug dr db = (Inr c, db')"
    and "slug = None \<longrightarrow> length (DeriveSlug (TrimSpace name)) \<le> 61"
  shows "ValidSlug (cust_Slug (cc_Customer c))"
proof (cases slug)
  case None
  let ?b = "DeriveSlug (TrimSpace name)"
  have b: "ValidSlug ?b" using DeriveSlug_shape slug_shape_Valid by blast
  from CreateCustomer_Inr [OF assms(1)] None
  have "cust_Slug (cc_Customer c) = ?b \<or> (\<exists>i. i \<le> 10 \<and> cust_Slug (cc_Customer c) = ?b @ ''-'' @ Itoa (int i))"
    by (auto simp: slug_candidates_def)
  then show ?thesis using b suffixed_slug_valid assms(2) None by auto
next
  case (Some s)
  then show ?thesis using CreateCustomer_Inr [OF assms(1)] by auto
qed

theorem CreateCustomer_slug_valid_witness:
  "\<exists>c db'. CreateCustomer None ''Acme'' (Some ''acme'') sample_draws (db_init 0) = (Inr c, db') \<and>
     ValidSlug (cust_Slug (cc_Customer c))"
proof -
  obtain c db' where c: "CreateCustomer None ''Acme'' (Some ''acme'') sample_draws (db_init 0) = (Inr c, db')"
    using sample_create by blast
  from CreateCustomer_slug_valid [OF c] c show ?thesis by auto
qed


end
