(* ===== verification/IngestAuth.thy ===== *)
theory IngestAuth
  imports Tenants "HOL-Library.AList"
begin

text \<open>
  The ingest auth service, \<open>internal/ingestauth/service.go\<close>: the gRPC method \<open>ValidateAPIKey\<close>
  the gateway calls, and the batching of \<open>last_used_at\<close>. The service reaches the store through two
  methods; the locale \<open>ingest_store\<close> is that interface, and it is interpreted on the operations
  of \<open>StoreTenants\<close>.
\<close>

section \<open>The service\<close>

definition outcomeOK :: string where
  "outcomeOK = ''ok''"

definition outcomeMalformed :: string where
  "outcomeMalformed = ''malformed''"

definition outcomeInvalid :: string where
  "outcomeInvalid = ''invalid''"

definition outcomeExpired :: string where
  "outcomeExpired = ''expired''"

definition outcomeCustomerInactive :: string where
  "outcomeCustomerInactive = ''customer_inactive''"

definition outcomeError :: string where
  "outcomeError = ''error''"

definition cacheTTLSeconds :: int where
  "cacheTTLSeconds = 30"

text \<open>The request counters and the pending usages, a map kept as an association list.\<close>

record auth_service =
  as_requests :: "string \<Rightarrow> nat"
  as_pending :: "(uuid \<times> time) list"

definition new_auth_service :: auth_service where
  "new_auth_service = \<lparr>as_requests = (\<lambda>_. 0), as_pending = []\<rparr>"

record ValidateAPIKeyResponse =
  vr_Valid :: bool
  vr_CustomerId :: string
  vr_ClientId :: string
  vr_CacheTtlSeconds :: int
  vr_RateLimitItemsPerSec :: "32 word"

definition invalid_response :: ValidateAPIKeyResponse where
  "invalid_response = \<lparr>vr_Valid = False, vr_CustomerId = '''', vr_ClientId = '''',
     vr_CacheTtlSeconds = 0, vr_RateLimitItemsPerSec = 0\<rparr>"

definition count_request :: "string \<Rightarrow> auth_service \<Rightarrow> auth_service" where
  "count_request outcome s = s\<lparr>as_requests := (as_requests s)(outcome := as_requests s outcome + 1)\<rparr>"

definition recordUsage :: "uuid \<Rightarrow> time \<Rightarrow> auth_service \<Rightarrow> auth_service" where
  "recordUsage keyID ts s =
    (case map_of (as_pending s) keyID of
       Some prev \<Rightarrow> (if prev < ts then s\<lparr>as_pending := AList.update keyID ts (as_pending s)\<rparr> else s)
     | None \<Rightarrow> s\<lparr>as_pending := AList.update keyID ts (as_pending s)\<rparr>)"

definition match_key :: "string \<Rightarrow> AuthKey list \<Rightarrow> AuthKey option" where
  "match_key apiKey keys = find (\<lambda>k. HashAPIKey apiKey = auk_KeyHash k) keys"

definition key_expired :: "AuthKey \<Rightarrow> time \<Rightarrow> bool" where
  "key_expired k now \<longleftrightarrow> (case auk_ExpiresAt k of None \<Rightarrow> False | Some t \<Rightarrow> \<not> now < t)"

text \<open>The handler. The two clock readings are \<open>now\<close> (expiry) and \<open>used\<close> (usage).\<close>

definition ValidateAPIKey ::
    "(string \<Rightarrow> store_error + AuthKey list) \<Rightarrow> time \<Rightarrow> time \<Rightarrow> string \<Rightarrow> auth_service \<Rightarrow>
     (string + ValidateAPIKeyResponse) \<times> auth_service" where
  "ValidateAPIKey active_keys now used apiKey s =
    (case ParseKeyPrefix apiKey of
       None \<Rightarrow> (Inr invalid_response, count_request outcomeMalformed s)
     | Some pfx \<Rightarrow>
         (case active_keys pfx of
            Inl e \<Rightarrow> (Inl ''key lookup failed'', count_request outcomeError s)
          | Inr keys \<Rightarrow>
              (case match_key apiKey keys of
                 None \<Rightarrow> (Inr invalid_response, count_request outcomeInvalid s)
               | Some m \<Rightarrow>
                   (if key_expired m now
                    then (Inr invalid_response, count_request outcomeExpired s)
                    else if auk_CustomerStatus m \<noteq> CustomerActive
                    then (Inr invalid_response, count_request outcomeCustomerInactive s)
                    else (Inr \<lparr>vr_Valid = True, vr_CustomerId = uuid_String (auk_CustomerID m),
                            vr_ClientId = auk_ClientID m, vr_CacheTtlSeconds = cacheTTLSeconds,
                            vr_RateLimitItemsPerSec = word_of_int (auk_RateLimitItemsPerSec m)\<rparr>,
                          count_request outcomeOK (recordUsage (auk_KeyID m) used s))))))"

text \<open>\<open>Flush\<close> empties the pending map whatever the store answers; \<open>ok\<close> says whether the batch
  update succeeds, and a batch that fails is only logged.\<close>

definition Flush ::
    "((uuid \<times> time) list \<Rightarrow> 'db \<Rightarrow> 'db) \<Rightarrow> bool \<Rightarrow> auth_service \<Rightarrow> 'db \<Rightarrow> auth_service \<times> 'db" where
  "Flush touch ok s db =
    (let batch = as_pending s; s' = s\<lparr>as_pending := []\<rparr>
     in if batch = [] then (s', db) else if ok then (s', touch batch db) else (s', db))"

text \<open>The events the service reacts to: requests, the ticker, and the end of its context, which
  flushes once more and stops \<open>Run\<close>. A tick carries whether its batch update succeeds.\<close>

datatype ia_event =
    Request string time time
  | Tick bool
  | CtxDone bool

fun Run ::
    "(string \<Rightarrow> 'db \<Rightarrow> AuthKey list) \<Rightarrow> ((uuid \<times> time) list \<Rightarrow> 'db \<Rightarrow> 'db) \<Rightarrow> ia_event list \<Rightarrow>
     auth_service \<Rightarrow> 'db \<Rightarrow> auth_service \<times> 'db" where
  "Run keys touch [] s db = (s, db)"
| "Run keys touch (Request k now used # evs) s db =
     Run keys touch evs (snd (ValidateAPIKey (\<lambda>p. Inr (keys p db)) now used k s)) db"
| "Run keys touch (Tick ok # evs) s db = (case Flush touch ok s db of (s', db') \<Rightarrow> Run keys touch evs s' db')"
| "Run keys touch (CtxDone ok # evs) s db = Flush touch ok s db"

section \<open>Verdicts\<close>

lemma ValidateAPIKey_valid:
  assumes "ValidateAPIKey keys now used k s = (Inr r, s')" "vr_Valid r"
  obtains p ks m where "ParseKeyPrefix k = Some p" "keys p = Inr ks" "match_key k ks = Some m"
    "\<not> key_expired m now" "auk_CustomerStatus m = CustomerActive"
    "vr_CustomerId r = uuid_String (auk_CustomerID m)" "vr_ClientId r = auk_ClientID m"
    "vr_CacheTtlSeconds r = cacheTTLSeconds"
    "vr_RateLimitItemsPerSec r = word_of_int (auk_RateLimitItemsPerSec m)"
    "s' = count_request outcomeOK (recordUsage (auk_KeyID m) used s)"
  using assms
  by (auto simp: ValidateAPIKey_def invalid_response_def split: option.splits sum.splits if_splits)

lemma match_key_SomeD: "match_key k ks = Some m \<Longrightarrow> m \<in> set ks \<and> auk_KeyHash m = HashAPIKey k"
  by (auto simp: match_key_def dest!: find_SomeD)

lemma match_key_unique:
  assumes "m \<in> set ks" "auk_KeyHash m = HashAPIKey k"
    "\<forall>x \<in> set ks. auk_KeyHash x = HashAPIKey k \<longrightarrow> x = m"
  shows "match_key k ks = Some m"
proof (cases "match_key k ks")
  case None
  then show ?thesis using assms(1,2) by (auto simp: match_key_def find_None_set)
next
  case (Some x)
  then show ?thesis using match_key_SomeD [OF Some] assms(3) by simp
qed

section \<open>The interface to the store\<close>

definition row_last_used :: "uuid \<Rightarrow> db \<Rightarrow> time option" where
  "row_last_used i db = Option.bind (find (\<lambda>k. ak_ID k = i) (api_keys db)) ak_LastUsedAt"

definition has_key :: "uuid \<Rightarrow> db \<Rightarrow> bool" where
  "has_key i db \<longleftrightarrow> i \<in> set (map ak_ID (api_keys db))"

text \<open>A run in which every batch update succeeds and that ends with the final flush.\<close>

definition clean_run :: "ia_event list \<Rightarrow> bool" where
  "clean_run evs \<longleftrightarrow> CtxDone True \<in> set evs \<and>
     (\<forall>e \<in> set evs. case e of Tick ok \<Rightarrow> ok | CtxDone ok \<Rightarrow> ok | Request _ _ _ \<Rightarrow> True)"

locale ingest_store =
  fixes active_keys :: "string \<Rightarrow> 'db \<Rightarrow> AuthKey list"
    and touch :: "(uuid \<times> time) list \<Rightarrow> 'db \<Rightarrow> 'db"
    and last_used :: "uuid \<Rightarrow> 'db \<Rightarrow> time option"
    and stored :: "uuid \<Rightarrow> 'db \<Rightarrow> bool"
  assumes touch_keys: "active_keys p (touch us db) = active_keys p db"
    and touch_stored: "stored i (touch us db) = stored i db"
    and active_stored: "a \<in> set (active_keys p db) \<Longrightarrow> stored (auk_KeyID a) db"
    and touch_used: "(i, ts) \<in> set us \<Longrightarrow> stored i db \<Longrightarrow> \<exists>t. last_used i (touch us db) = Some t \<and> ts \<le> t"
    and touch_mono: "last_used i db = Some t \<Longrightarrow> \<exists>t'. last_used i (touch us db) = Some t' \<and> t \<le> t'"
begin

text \<open>No verdict depends on whether usages have been flushed.\<close>

lemma verdict_after_flush:
  "ValidateAPIKey (\<lambda>p. Inr (active_keys p (snd (Flush touch ok s db)))) now used k s'
   = ValidateAPIKey (\<lambda>p. Inr (active_keys p db)) now used k s'"
proof -
  have "active_keys p (snd (Flush touch ok s db)) = active_keys p db" for p
    by (simp add: Flush_def Let_def touch_keys)
  then show ?thesis by simp
qed

text \<open>A usage is accounted for when it is in the pending map or already in the database.\<close>

definition accounted :: "uuid \<Rightarrow> time \<Rightarrow> auth_service \<Rightarrow> 'db \<Rightarrow> bool" where
  "accounted i ts s db \<longleftrightarrow> stored i db \<and>
    ((\<exists>t. map_of (as_pending s) i = Some t \<and> ts \<le> t) \<or> (\<exists>t. last_used i db = Some t \<and> ts \<le> t))"

lemma recordUsage_accounted: "stored i db \<Longrightarrow> accounted i ts (count_request o' (recordUsage i ts s)) db"
  by (auto simp: accounted_def recordUsage_def count_request_def update_conv' not_less
      split: option.splits)

lemma recordUsage_keeps: "accounted i ts s db \<Longrightarrow> accounted i ts (recordUsage j ts' s) db"
  by (auto simp: accounted_def recordUsage_def update_conv' split: option.splits)

lemma count_keeps: "accounted i ts (count_request o' s) db = accounted i ts s db"
  by (simp add: accounted_def count_request_def)

lemma Validate_keeps:
  "accounted i ts s db \<Longrightarrow> accounted i ts (snd (ValidateAPIKey keys now used k s)) db"
  by (auto simp: ValidateAPIKey_def count_keeps recordUsage_keeps split: option.splits sum.splits)

lemma Flush_accounted:
  assumes "accounted i ts s db"
  shows "accounted i ts (fst (Flush touch True s db)) (snd (Flush touch True s db)) \<and>
    (\<exists>t. last_used i (snd (Flush touch True s db)) = Some t \<and> ts \<le> t)"
proof -
  from assms have st: "stored i db" by (simp add: accounted_def)
  have "\<exists>t. last_used i (snd (Flush touch True s db)) = Some t \<and> ts \<le> t"
  proof (cases "as_pending s = []")
    case True
    then show ?thesis using assms by (auto simp: accounted_def Flush_def Let_def)
  next
    case False
    consider t where "map_of (as_pending s) i = Some t" "ts \<le> t" | t where "last_used i db = Some t" "ts \<le> t"
      using assms by (auto simp: accounted_def)
    then show ?thesis
    proof cases
      case (1 t)
      then have "(i, t) \<in> set (as_pending s)" by (simp add: map_of_SomeD)
      from touch_used [OF this st] 1 False show ?thesis by (auto simp: Flush_def Let_def)
    next
      case (2 t)
      from touch_mono [OF this(1)] 2 False show ?thesis by (force simp: Flush_def Let_def)
    qed
  qed
  then show ?thesis using st by (auto simp: accounted_def Flush_def Let_def touch_stored)
qed

lemma Run_accounted:
  "accounted i ts s db \<Longrightarrow> clean_run evs \<Longrightarrow>
   \<exists>t. last_used i (snd (Run active_keys touch evs s db)) = Some t \<and> ts \<le> t"
proof (induction evs arbitrary: s db)
  case Nil
  then show ?case by (simp add: clean_run_def)
next
  case (Cons e evs)
  show ?case
  proof (cases e)
    case (Request k now used)
    with Cons.prems have "clean_run evs" by (auto simp: clean_run_def)
    with Cons.IH [OF Validate_keeps [OF Cons.prems(1)]] show ?thesis by (simp add: Request)
  next
    case (Tick b)
    with Cons.prems have b: "b = True" and c: "clean_run evs" by (auto simp: clean_run_def)
    obtain s1 db1 where f: "Flush touch True s db = (s1, db1)" by fastforce
    with Flush_accounted [OF Cons.prems(1)] have "accounted i ts s1 db1" by simp
    from Cons.IH [OF this c] show ?thesis by (simp add: Tick b f)
  next
    case (CtxDone b)
    with Cons.prems have b: "b = True" by (auto simp: clean_run_def)
    with Flush_accounted [OF Cons.prems(1)] show ?thesis by (simp add: CtxDone)
  qed
qed

text \<open>A request that is answered with a valid response is recorded by the time a clean run ends.\<close>

lemma usage_recorded:
  assumes v: "ValidateAPIKey (\<lambda>p. Inr (active_keys p db)) now used k s = (Inr r, s')" "vr_Valid r"
    and c: "clean_run evs"
  shows "\<exists>m p t. m \<in> set (active_keys p db) \<and> auk_KeyHash m = HashAPIKey k \<and>
    last_used (auk_KeyID m) (snd (Run active_keys touch (Request k now used # evs) s db)) = Some t \<and> used \<le> t"
proof -
  obtain p m where m: "match_key k (active_keys p db) = Some m"
    and s': "s' = count_request outcomeOK (recordUsage (auk_KeyID m) used s)"
    by (rule ValidateAPIKey_valid [OF v]) auto
  from match_key_SomeD [OF m] have in_m: "m \<in> set (active_keys p db)" "auk_KeyHash m = HashAPIKey k" by auto
  have "accounted (auk_KeyID m) used s' db"
    unfolding s' by (rule recordUsage_accounted [OF active_stored [OF in_m(1)]])
  from Run_accounted [OF this c] in_m v(1) show ?thesis by auto
qed

end

section \<open>The store provides the interface\<close>

lemma row_last_used_touch:
  "row_last_used i (touch_key j ts db) =
    (if i = j \<and> has_key i db then greatest_time (row_last_used i db) ts else row_last_used i db)"
proof (cases "find (\<lambda>k. ak_ID k = i) (api_keys db)")
  case None
  then have "\<not> has_key i db" by (auto simp: has_key_def find_None_set)
  then show ?thesis using None by (simp add: row_last_used_def touch_key_def find_upd_where_key)
next
  case (Some k)
  then have "ak_ID k = i" "has_key i db" by (auto dest!: find_SomeD simp: has_key_def)
  then show ?thesis using Some by (auto simp: row_last_used_def touch_key_def find_upd_where_key)
qed

lemma TouchAPIKeys_simps [simp]:
  "pg_TouchAPIKeys [] db = db"
  "pg_TouchAPIKeys ((j, ts) # us) db = pg_TouchAPIKeys us (touch_key j ts db)"
  by (simp_all add: pg_TouchAPIKeys_def)

lemma has_key_touch [simp]: "has_key i (touch_key j ts db) = has_key i db"
  by (simp add: has_key_def touch_key_def)

lemma ActiveKeys_touch [simp]: "pg_ActiveKeysByPrefix p (touch_key j ts db) = pg_ActiveKeysByPrefix p db"
  unfolding pg_ActiveKeysByPrefix_def touch_key_def upd_where_def
  by (simp add: comp_def auth_key_of_def if_distrib cong: if_cong)

lemma TouchAPIKeys_keeps:
  "pg_ActiveKeysByPrefix p (pg_TouchAPIKeys us db) = pg_ActiveKeysByPrefix p db"
  "has_key i (pg_TouchAPIKeys us db) = has_key i db"
  by (induction us arbitrary: db) auto

lemma greatest_time_ge: "\<exists>t'. greatest_time t ts = Some t' \<and> ts \<le> t'"
  "t = Some u \<Longrightarrow> \<exists>t'. greatest_time t ts = Some t' \<and> u \<le> t'"
  by (auto simp: greatest_time_def coalesce_def)

lemma TouchAPIKeys_mono:
  "row_last_used i db = Some t \<Longrightarrow> \<exists>t'. row_last_used i (pg_TouchAPIKeys us db) = Some t' \<and> t \<le> t'"
proof (induction us arbitrary: db t)
  case Nil
  then show ?case by simp
next
  case (Cons u us)
  obtain j ts where u: "u = (j, ts)" by fastforce
  obtain t1 where t1: "row_last_used i (touch_key j ts db) = Some t1" "t \<le> t1"
    using Cons.prems greatest_time_ge(2) [of "row_last_used i db" t ts]
    by (cases "i = j \<and> has_key i db") (auto simp: row_last_used_touch)
  from Cons.IH [OF t1(1)] t1(2) show ?case by (force simp: u)
qed

lemma TouchAPIKeys_used:
  "(i, ts) \<in> set us \<Longrightarrow> has_key i db \<Longrightarrow> \<exists>t. row_last_used i (pg_TouchAPIKeys us db) = Some t \<and> ts \<le> t"
proof (induction us arbitrary: db)
  case Nil
  then show ?case by simp
next
  case (Cons u us)
  obtain j v where u: "u = (j, v)" by fastforce
  show ?case
  proof (cases "(i, ts) \<in> set us")
    case True
    with Cons.IH [OF True, of "touch_key j v db"] Cons.prems(2) show ?thesis by (simp add: u)
  next
    case False
    then have ij: "i = j" "ts = v" using Cons.prems(1) u by auto
    then obtain t where "row_last_used i (touch_key j v db) = Some t" "ts \<le> t"
      using Cons.prems(2) greatest_time_ge(1) [of "row_last_used i db" ts]
      by (auto simp: row_last_used_touch)
    from TouchAPIKeys_mono [OF this(1)] this(2) show ?thesis by (force simp: u)
  qed
qed

interpretation pg_ingest: ingest_store pg_ActiveKeysByPrefix pg_TouchAPIKeys row_last_used has_key
proof (standard, goal_cases)
  case (1 p us db)
  then show ?case by (rule TouchAPIKeys_keeps)
next
  case (2 i us db)
  then show ?case by (rule TouchAPIKeys_keeps)
next
  case (3 a p db)
  then show ?case by (auto simp: in_ActiveKeysByPrefix has_key_def auth_key_of_def)
next
  case (4 i ts us db)
  then show ?case by (rule TouchAPIKeys_used)
next
  case (5 i db t us)
  then show ?case by (rule TouchAPIKeys_mono)
qed

section \<open>Who is let in\<close>

text \<open>The service as deployed, on the database.\<close>

abbreviation validate_on :: "db \<Rightarrow> time \<Rightarrow> time \<Rightarrow> string \<Rightarrow> auth_service \<Rightarrow>
    (string + ValidateAPIKeyResponse) \<times> auth_service" where
  "validate_on db \<equiv> ValidateAPIKey (\<lambda>p. Inr (pg_ActiveKeysByPrefix p db))"

lemma validate_sound:
  assumes "validate_on db now used k s = (Inr r, s')" "vr_Valid r"
  obtains row c p where "row \<in> set (api_keys db)" "c \<in> set (customers db)"
    "ParseKeyPrefix k = Some p" "ak_KeyPrefix row = p" "ak_KeyHash row = HashAPIKey k"
    "ak_RevokedAt row = None" "\<forall>t. ak_ExpiresAt row = Some t \<longrightarrow> now < t"
    "cust_ID c = ak_CustomerID row" "cust_Status c = CustomerActive"
    "vr_CustomerId r = uuid_String (cust_ID c)" "vr_ClientId r = cust_ClientID c"
    "vr_RateLimitItemsPerSec r = word_of_int (coalesce (cust_RateLimitItemsPerSec c) 0)"
    "vr_CacheTtlSeconds r = cacheTTLSeconds"
proof (rule ValidateAPIKey_valid [OF assms])
  fix p ks m
  assume h: "ParseKeyPrefix k = Some p" "(Inr (pg_ActiveKeysByPrefix p db) :: store_error + AuthKey list) = Inr ks"
    "match_key k ks = Some m" "\<not> key_expired m now" "auk_CustomerStatus m = CustomerActive"
    "vr_CustomerId r = uuid_String (auk_CustomerID m)" "vr_ClientId r = auk_ClientID m"
    "vr_CacheTtlSeconds r = cacheTTLSeconds"
    "vr_RateLimitItemsPerSec r = word_of_int (auk_RateLimitItemsPerSec m)"
  from h(2) match_key_SomeD [OF h(3)] have m: "m \<in> set (pg_ActiveKeysByPrefix p db)"
    "auk_KeyHash m = HashAPIKey k" by auto
  from m(1) obtain row c where rc: "row \<in> set (api_keys db)" "c \<in> set (customers db)"
    "ak_KeyPrefix row = p" "ak_RevokedAt row = None" "cust_ID c = ak_CustomerID row"
    "m = auth_key_of row c" by (auto simp: in_ActiveKeysByPrefix)
  note fields = auth_key_of_def AuthKey.simps
  have "ak_KeyHash row = HashAPIKey k" "cust_Status c = CustomerActive"
    "vr_CustomerId r = uuid_String (cust_ID c)" "vr_ClientId r = cust_ClientID c"
    "vr_RateLimitItemsPerSec r = word_of_int (coalesce (cust_RateLimitItemsPerSec c) 0)"
    using m(2) h(5,6,7,9) rc(5) by (simp_all add: rc(6) fields)
  moreover have "\<forall>t. ak_ExpiresAt row = Some t \<longrightarrow> now < t"
    using h(4) by (simp add: rc(6) fields key_expired_def split: option.splits)
  ultimately show thesis using that rc(1-5) h(1,8) by blast
qed

lemma validate_complete:
  assumes "row \<in> set (api_keys db)" "c \<in> set (customers db)" "cust_ID c = ak_CustomerID row"
    and "ParseKeyPrefix k = Some (ak_KeyPrefix row)" "ak_KeyHash row = HashAPIKey k"
    and "ak_RevokedAt row = None" "\<forall>t. ak_ExpiresAt row = Some t \<longrightarrow> now < t"
    and "cust_Status c = CustomerActive" "db_wf db"
    and uniq: "\<forall>x \<in> set (api_keys db). ak_KeyPrefix x = ak_KeyPrefix row \<and>
      ak_KeyHash x = ak_KeyHash row \<and> ak_RevokedAt x = None \<longrightarrow> x = row"
  shows "\<exists>r. fst (validate_on db now used k s) = Inr r \<and> vr_Valid r \<and> vr_ClientId r = cust_ClientID c"
proof -
  let ?m = "auth_key_of row c"
  have one: "x = ?m" if x: "x \<in> set (pg_ActiveKeysByPrefix (ak_KeyPrefix row) db)"
    "auk_KeyHash x = HashAPIKey k" for x
  proof -
    from x obtain y d where y: "y \<in> set (api_keys db)" "d \<in> set (customers db)"
      "ak_KeyPrefix y = ak_KeyPrefix row" "ak_RevokedAt y = None" "cust_ID d = ak_CustomerID y"
      "x = auth_key_of y d" by (auto simp: in_ActiveKeysByPrefix)
    then have "y = row" using uniq x(2) assms(5) by (auto simp: auth_key_of_def)
    moreover from this have "d = c"
      using y assms(2,3) distinct_map_inj [of cust_ID "customers db" d c] db_wfD(1) [OF assms(9)]
      by (simp add: customers_wf_def)
    ultimately show ?thesis using y by simp
  qed
  have "?m \<in> set (pg_ActiveKeysByPrefix (ak_KeyPrefix row) db)"
    using assms by (auto simp: in_ActiveKeysByPrefix)
  moreover have "auk_KeyHash ?m = HashAPIKey k" by (simp add: auth_key_of_def assms(5))
  ultimately have m: "match_key k (pg_ActiveKeysByPrefix (ak_KeyPrefix row) db) = Some ?m"
    using one by (intro match_key_unique) blast+
  have "\<not> key_expired ?m now" "auk_CustomerStatus ?m = CustomerActive" "auk_ClientID ?m = cust_ClientID c"
    using assms(7,8) by (simp_all add: key_expired_def auth_key_of_def split: option.splits)
  then show ?thesis by (simp add: ValidateAPIKey_def assms(4) m)
qed

lemma validate_answers: "\<exists>r s'. validate_on db now used k s = (Inr r, s')"
  unfolding ValidateAPIKey_def by (simp split: option.split)

section \<open>A concrete database\<close>

text \<open>One active customer with one API key, for the examples below. \<open>sample_secret\<close> is the secret of
  the key.\<close>

definition sample_secret :: string where
  "sample_secret = ''otm_00000000_x''"

definition sample_customer :: Customer where
  "sample_customer = \<lparr>cust_ID = 1, cust_Slug = ''acme'', cust_Name = ''Acme'',
     cust_ClientID = ''cust_01'', cust_Status = CustomerActive,
     cust_RateLimitItemsPerSec = Some 100, cust_RetentionDays = None, cust_CreatedAt = 0,
     cust_UpdatedAt = 0\<rparr>"

definition sample_key :: APIKey where
  "sample_key = \<lparr>ak_ID = 2, ak_CustomerID = 1, ak_Name = ''default'', ak_KeyPrefix = ''otm_00000000'',
     ak_KeyHash = HashAPIKey sample_secret, ak_CreatedBy = None, ak_CreatedAt = 0, ak_ExpiresAt = None,
     ak_RevokedAt = None, ak_LastUsedAt = None\<rparr>"

definition sample_db :: db where
  "sample_db = (db_init 0)\<lparr>customers := [sample_customer], api_keys := [sample_key]\<rparr>"

lemma sample_prefix: "ParseKeyPrefix sample_secret = Some ''otm_00000000''"
  unfolding sample_secret_def ParseKeyPrefix_iff three_part_def
  by (intro exI [of _ "''00000000''"] exI [of _ "''x''"]) (simp add: is_hex_def)

lemma sample_db_wf: "db_wf sample_db"
  by (simp add: db_wf_def sample_db_def db_init_def table_wf_defs id_list_defs ref_ok_def
      sample_customer_def sample_key_def status_ok_def rate_ok_def retention_ok_def int4_ok_def)

lemma sample_db_simps [simp]:
  "customers sample_db = [sample_customer]" "api_keys sample_db = [sample_key]"
  by (simp_all add: sample_db_def)

lemma sample_fields [simp]:
  "cust_ID sample_customer = 1" "cust_Status sample_customer = CustomerActive"
  "cust_ClientID sample_customer = ''cust_01''" "ak_ID sample_key = 2" "ak_CustomerID sample_key = 1"
  "ak_KeyPrefix sample_key = ''otm_00000000''" "ak_KeyHash sample_key = HashAPIKey sample_secret"
  "ak_RevokedAt sample_key = None" "ak_ExpiresAt sample_key = None"
  by (simp_all add: sample_customer_def sample_key_def)

lemma sample_valid:
  "\<exists>r s'. validate_on sample_db now used sample_secret s = (Inr r, s') \<and> vr_Valid r \<and> vr_ClientId r = ''cust_01''"
proof -
  have "\<exists>r. fst (validate_on sample_db now used sample_secret s) = Inr r \<and> vr_Valid r \<and>
      vr_ClientId r = cust_ClientID sample_customer"
    by (rule validate_complete [where row = sample_key])
      (simp_all add: sample_prefix sample_db_wf)
  then show ?thesis by (metis prod.collapse sample_fields(3))
qed

section \<open>Properties\<close>

text \<open>C3: a key is answered as valid only if it is the secret of a stored key that is neither
  revoked nor expired and whose customer is active; the response carries that customer's identity
  and rate limit. The converse holds whenever no other active key has the same prefix and hash.\<close>

theorem ValidateAPIKey_correct:
  assumes "db_wf db"
  shows "(validate_on db now used k s = (Inr r, s') \<and> vr_Valid r \<longrightarrow>
      (\<exists>row \<in> set (api_keys db). \<exists>c \<in> set (customers db).
         ParseKeyPrefix k = Some (ak_KeyPrefix row) \<and> ak_KeyHash row = HashAPIKey k \<and>
         ak_RevokedAt row = None \<and> (\<forall>t. ak_ExpiresAt row = Some t \<longrightarrow> now < t) \<and>
         cust_ID c = ak_CustomerID row \<and> cust_Status c = CustomerActive \<and>
         vr_CustomerId r = uuid_String (cust_ID c) \<and> vr_ClientId r = cust_ClientID c \<and>
         int (unat (vr_RateLimitItemsPerSec r)) = coalesce (cust_RateLimitItemsPerSec c) 0))
    \<and> (\<forall>row \<in> set (api_keys db). \<forall>c \<in> set (customers db).
         cust_ID c = ak_CustomerID row \<and> ParseKeyPrefix k = Some (ak_KeyPrefix row) \<and>
         ak_KeyHash row = HashAPIKey k \<and> ak_RevokedAt row = None \<and>
         (\<forall>t. ak_ExpiresAt row = Some t \<longrightarrow> now < t) \<and> cust_Status c = CustomerActive \<and>
         (\<forall>x \<in> set (api_keys db). ak_KeyPrefix x = ak_KeyPrefix row \<and> ak_KeyHash x = ak_KeyHash row \<and>
            ak_RevokedAt x = None \<longrightarrow> x = row) \<longrightarrow>
         (\<exists>r. fst (validate_on db now used k s) = Inr r \<and> vr_Valid r \<and> vr_ClientId r = cust_ClientID c))"
proof (intro conjI impI ballI)
  assume "validate_on db now used k s = (Inr r, s') \<and> vr_Valid r"
  then have v: "validate_on db now used k s = (Inr r, s')" "vr_Valid r" by auto
  show "\<exists>row \<in> set (api_keys db). \<exists>c \<in> set (customers db).
         ParseKeyPrefix k = Some (ak_KeyPrefix row) \<and> ak_KeyHash row = HashAPIKey k \<and>
         ak_RevokedAt row = None \<and> (\<forall>t. ak_ExpiresAt row = Some t \<longrightarrow> now < t) \<and>
         cust_ID c = ak_CustomerID row \<and> cust_Status c = CustomerActive \<and>
         vr_CustomerId r = uuid_String (cust_ID c) \<and> vr_ClientId r = cust_ClientID c \<and>
         int (unat (vr_RateLimitItemsPerSec r)) = coalesce (cust_RateLimitItemsPerSec c) 0"
  proof (rule validate_sound [OF v])
    fix row c p
    assume h: "row \<in> set (api_keys db)" "c \<in> set (customers db)" "ParseKeyPrefix k = Some p"
      "ak_KeyPrefix row = p" "ak_KeyHash row = HashAPIKey k" "ak_RevokedAt row = None"
      "\<forall>t. ak_ExpiresAt row = Some t \<longrightarrow> now < t" "cust_ID c = ak_CustomerID row"
      "cust_Status c = CustomerActive" "vr_CustomerId r = uuid_String (cust_ID c)"
      "vr_ClientId r = cust_ClientID c"
      "vr_RateLimitItemsPerSec r = word_of_int (coalesce (cust_RateLimitItemsPerSec c) 0)"
    have "rate_ok (cust_RateLimitItemsPerSec c)"
      using h(2) db_wfD(1) [OF assms] by (auto simp: customers_wf_def list_all_iff)
    then have "int (unat (vr_RateLimitItemsPerSec r)) = coalesce (cust_RateLimitItemsPerSec c) 0"
      unfolding h(12)
      by (auto simp: rate_ok_def int4_ok_def coalesce_def unat_eq_nat_uint uint_word_of_int
          split: option.splits)
    with h show ?thesis by (intro bexI [of _ row] bexI [of _ c]) auto
  qed
next
  fix row c
  assume h: "row \<in> set (api_keys db)" "c \<in> set (customers db)"
    "cust_ID c = ak_CustomerID row \<and> ParseKeyPrefix k = Some (ak_KeyPrefix row) \<and>
         ak_KeyHash row = HashAPIKey k \<and> ak_RevokedAt row = None \<and>
         (\<forall>t. ak_ExpiresAt row = Some t \<longrightarrow> now < t) \<and> cust_Status c = CustomerActive \<and>
         (\<forall>x \<in> set (api_keys db). ak_KeyPrefix x = ak_KeyPrefix row \<and> ak_KeyHash x = ak_KeyHash row \<and>
            ak_RevokedAt x = None \<longrightarrow> x = row)"
  then show "\<exists>r. fst (validate_on db now used k s) = Inr r \<and> vr_Valid r \<and> vr_ClientId r = cust_ClientID c"
    using validate_complete [OF h(1,2), of k now used s] assms by blast
qed

theorem ValidateAPIKey_correct_witness:
  "\<exists>r. fst (validate_on sample_db 5 5 sample_secret new_auth_service) = Inr r \<and> vr_Valid r \<and>
     vr_ClientId r = ''cust_01''"
  using ValidateAPIKey_correct [OF sample_db_wf, of 5 5 sample_secret new_auth_service]
  by (simp add: sample_prefix)



text \<open>After a customer has been deleted no key is answered with that customer's identity.\<close>

theorem deleted_customer_locked_out:
  assumes "DeleteCustomer now actor i db = (Inr (), db')"
    and "validate_on db' t used k s = (Inr r, s')" "vr_Valid r"
  shows "vr_CustomerId r \<noteq> uuid_String i"
proof
  assume eq: "vr_CustomerId r = uuid_String i"
  have sd: "pg_SoftDeleteCustomer now i
      [user_entry actor ''customer.delete'' ''customer'' (uuid_String i) (Some i) None] db = (Inr (), db')"
    using assms(1) by (simp add: DeleteCustomer_def)
  obtain row and c :: Customer where rc: "row \<in> set (api_keys db')" "ak_RevokedAt row = None"
    "cust_ID c = ak_CustomerID row" "vr_CustomerId r = uuid_String (cust_ID c)"
    by (rule validate_sound [OF assms(2,3)])
  then have "ak_CustomerID row = i" using eq by (simp add: uuid_String_inj)
  then show False using SoftDeleteCustomer_revoked [OF sd rc(1)] rc(2) by simp
qed

theorem deleted_customer_locked_out_witness:
  "\<exists>db' r s'. DeleteCustomer 7 None 9 (sample_db\<lparr>customers := [sample_customer, sample_customer\<lparr>cust_ID := 9\<rparr>]\<rparr>)
      = (Inr (), db') \<and> validate_on db' 8 8 sample_secret new_auth_service = (Inr r, s') \<and>
      vr_Valid r \<and> vr_CustomerId r \<noteq> uuid_String 9"
proof -
  let ?db = "sample_db\<lparr>customers := [sample_customer, sample_customer\<lparr>cust_ID := 9\<rparr>]\<rparr>"
  obtain db' where db': "DeleteCustomer 7 None 9 ?db = (Inr (), db')"
    and k: "api_keys db' = [sample_key]"
    and c: "customers db' = [sample_customer, sample_customer\<lparr>cust_ID := 9, cust_Status := CustomerDeleted,
      cust_UpdatedAt := 7\<rparr>]"
    by (simp add: DeleteCustomer_def pg_SoftDeleteCustomer_def inTx_def user_entry_def actor_types_def
        Let_def status_defs)
  have keys: "pg_ActiveKeysByPrefix ''otm_00000000'' db' = [auth_key_of sample_key sample_customer]"
    using k c by (simp add: pg_ActiveKeysByPrefix_def)
  obtain r s' where v: "validate_on db' 8 8 sample_secret new_auth_service = (Inr r, s')" "vr_Valid r"
    by (simp add: ValidateAPIKey_def sample_prefix keys match_key_def auth_key_of_def key_expired_def)
  from deleted_customer_locked_out [OF db' v] db' v show ?thesis by blast
qed



end
