(* ===== verification/KeyCache.thy ===== *)
theory KeyCache
  imports GoBase "HOL-Library.AList"
begin

text \<open>
  The LRU cache of validation results, \<open>collector/extension/tenantauth/cache.go\<close>. The code keeps
  a doubly linked list of elements and a map from keys to elements. Here an element is an address
  into a store of \<open>lruItem\<close>s (the pointer \<open>*list.Element\<close>), the list is the list of addresses and
  the map an association list, so that \<open>len(c.items)\<close> is its length. The abstraction \<open>kc_abs\<close> is
  the list of keys and entries, most recently used first; \<open>get\<close> and \<open>put\<close> refine the two
  functions \<open>lru_get\<close> and \<open>lru_put\<close> on it.
\<close>

section \<open>The cache\<close>

record authData =
  ad_tenantID :: string
  ad_clientID :: string
  ad_customerID :: string
  ad_rateLimitItemsPerSec :: int

record cacheEntry =
  ce_valid :: bool
  ce_data :: "authData option"
  ce_freshUntil :: time
  ce_staleUntil :: time

record lruItem =
  li_key :: string
  li_entry :: cacheEntry

record keyCache =
  kc_maxEntries :: int
  kc_ll :: "nat list"
  kc_items :: "(string \<times> nat) list"
  kc_heap :: "nat \<Rightarrow> lruItem option"
  kc_next :: nat

definition newKeyCache :: "int \<Rightarrow> keyCache" where
  "newKeyCache maxEntries = \<lparr>kc_maxEntries = maxEntries, kc_ll = [], kc_items = [],
     kc_heap = (\<lambda>_. None), kc_next = 0\<rparr>"

definition move_to_front :: "nat \<Rightarrow> nat list \<Rightarrow> nat list" where
  "move_to_front el ll = (if el \<in> set ll then el # remove1 el ll else ll)"

definition kc_get :: "string \<Rightarrow> keyCache \<Rightarrow> cacheEntry option \<times> keyCache" where
  "kc_get hash c =
    (case map_of (kc_items c) hash of
       None \<Rightarrow> (None, c)
     | Some el \<Rightarrow> (map_option li_entry (kc_heap c el), c\<lparr>kc_ll := move_to_front el (kc_ll c)\<rparr>))"

text \<open>The eviction loop: while the map is larger than the bound, drop the element at the back.\<close>

function evict :: "keyCache \<Rightarrow> keyCache" where
  "evict c =
    (if int (length (kc_items c)) > kc_maxEntries c \<and> kc_ll c \<noteq> [] then
       (let oldest = last (kc_ll c)
        in evict (c\<lparr>kc_ll := butlast (kc_ll c),
                    kc_items := (case kc_heap c oldest of
                        None \<Rightarrow> kc_items c
                      | Some it \<Rightarrow> AList.delete (li_key it) (kc_items c))\<rparr>))
     else c)"
  by pat_completeness auto
termination
  by (relation "measure (\<lambda>c. length (kc_ll c))") auto

declare evict.simps [simp del]

definition kc_put :: "string \<Rightarrow> cacheEntry \<Rightarrow> keyCache \<Rightarrow> keyCache" where
  "kc_put hash e c =
    (case map_of (kc_items c) hash of
       Some el \<Rightarrow> c\<lparr>kc_heap := (kc_heap c)(el := map_option (\<lambda>it. it\<lparr>li_entry := e\<rparr>) (kc_heap c el)),
                    kc_ll := move_to_front el (kc_ll c)\<rparr>
     | None \<Rightarrow>
         (let el = kc_next c
          in evict (c\<lparr>kc_heap := (kc_heap c)(el := Some \<lparr>li_key = hash, li_entry = e\<rparr>),
                      kc_ll := el # kc_ll c,
                      kc_items := AList.update hash el (kc_items c),
                      kc_next := Suc el\<rparr>)))"

definition kc_len :: "keyCache \<Rightarrow> nat" where
  "kc_len c = length (kc_items c)"

section \<open>The abstract cache\<close>

definition item_at :: "keyCache \<Rightarrow> nat \<Rightarrow> string \<times> cacheEntry" where
  "item_at c el = (case kc_heap c el of
      Some it \<Rightarrow> (li_key it, li_entry it)
    | None \<Rightarrow> ('''', \<lparr>ce_valid = False, ce_data = None, ce_freshUntil = 0, ce_staleUntil = 0\<rparr>))"

definition kc_abs :: "keyCache \<Rightarrow> (string \<times> cacheEntry) list" where
  "kc_abs c = map (item_at c) (kc_ll c)"

definition lru_touch :: "string \<Rightarrow> (string \<times> 'e) list \<Rightarrow> (string \<times> 'e) list" where
  "lru_touch k xs = (case map_of xs k of
      None \<Rightarrow> xs
    | Some e \<Rightarrow> (k, e) # filter (\<lambda>x. fst x \<noteq> k) xs)"

definition lru_get :: "string \<Rightarrow> (string \<times> 'e) list \<Rightarrow> 'e option \<times> (string \<times> 'e) list" where
  "lru_get k xs = (map_of xs k, lru_touch k xs)"

definition lru_put :: "nat \<Rightarrow> string \<Rightarrow> 'e \<Rightarrow> (string \<times> 'e) list \<Rightarrow> (string \<times> 'e) list" where
  "lru_put n k e xs = take n ((k, e) # filter (\<lambda>x. fst x \<noteq> k) xs)"

section \<open>The invariant\<close>

text \<open>The map and the list hold the same elements, each under the key stored in it.\<close>

definition kc_linked :: "keyCache \<Rightarrow> bool" where
  "kc_linked c \<longleftrightarrow>
    distinct (kc_ll c) \<and> distinct (map fst (kc_items c)) \<and>
    set (map snd (kc_items c)) = set (kc_ll c) \<and> distinct (map snd (kc_items c)) \<and>
    (\<forall>x \<in> set (kc_items c). map_option li_key (kc_heap c (snd x)) = Some (fst x)) \<and>
    (\<forall>el \<in> set (kc_ll c). el < kc_next c)"

definition kc_wf :: "keyCache \<Rightarrow> bool" where
  "kc_wf c \<longleftrightarrow> kc_linked c \<and> 0 \<le> kc_maxEntries c \<and> int (length (kc_items c)) \<le> kc_maxEntries c"

lemma newKeyCache_wf: "0 \<le> n \<Longrightarrow> kc_wf (newKeyCache n)"
  by (simp add: kc_wf_def kc_linked_def newKeyCache_def)

lemma linked_length: "kc_linked c \<Longrightarrow> length (kc_ll c) = length (kc_items c)"
  using distinct_card [of "kc_ll c"] distinct_card [of "map snd (kc_items c)"]
  by (simp add: kc_linked_def)

lemma linked_heap:
  "kc_linked c \<Longrightarrow> (k, el) \<in> set (kc_items c) \<Longrightarrow> map_option li_key (kc_heap c el) = Some k"
  unfolding kc_linked_def by (elim conjE) (drule (1) bspec, simp)

lemma linked_item:
  assumes "kc_linked c" "el \<in> set (kc_ll c)"
  shows "\<exists>it. kc_heap c el = Some it \<and> (li_key it, el) \<in> set (kc_items c)"
proof -
  from assms have "el \<in> snd ` set (kc_items c)" by (simp add: kc_linked_def)
  then obtain k where "(k, el) \<in> set (kc_items c)" by auto
  with linked_heap [OF assms(1) this] show ?thesis by auto
qed

lemma linked_map_of: "kc_linked c \<Longrightarrow> map_of (kc_items c) k = Some el \<longleftrightarrow> (k, el) \<in> set (kc_items c)"
  by (simp add: kc_linked_def)

lemma linked_keys:
  assumes "kc_linked c"
  shows "fst (item_at c el) = k \<and> el \<in> set (kc_ll c) \<longleftrightarrow> (k, el) \<in> set (kc_items c)"
proof
  assume h: "fst (item_at c el) = k \<and> el \<in> set (kc_ll c)"
  with linked_item [OF assms] show "(k, el) \<in> set (kc_items c)" by (force simp: item_at_def)
next
  assume h: "(k, el) \<in> set (kc_items c)"
  then have "map_option li_key (kc_heap c el) = Some k" "el \<in> snd ` set (kc_items c)"
    using linked_heap [OF assms] by force+
  then show "fst (item_at c el) = k \<and> el \<in> set (kc_ll c)"
    using assms by (auto simp: item_at_def kc_linked_def)
qed

lemma abs_distinct:
  assumes "kc_linked c"
  shows "distinct (map fst (kc_abs c))"
proof -
  have "inj_on (\<lambda>el. fst (item_at c el)) (set (kc_ll c))"
  proof (rule inj_onI)
    fix a b
    assume "a \<in> set (kc_ll c)" "b \<in> set (kc_ll c)" "fst (item_at c a) = fst (item_at c b)"
    then have "(fst (item_at c a), a) \<in> set (kc_items c)" "(fst (item_at c a), b) \<in> set (kc_items c)"
      using linked_keys [OF assms] by metis+
    then show "a = b" using assms eq_key_imp_eq_value [of "kc_items c"] by (auto simp: kc_linked_def)
  qed
  then show ?thesis
    using assms by (simp add: kc_abs_def distinct_map comp_def kc_linked_def)
qed

lemma abs_lookup:
  assumes "kc_linked c"
  shows "map_of (kc_abs c) k = (case map_of (kc_items c) k of None \<Rightarrow> None | Some el \<Rightarrow> Some (snd (item_at c el)))"
proof (cases "map_of (kc_items c) k")
  case None
  then have "(k, el) \<notin> set (kc_items c)" for el by (auto simp: map_of_eq_None_iff image_iff)
  then have "k \<notin> fst ` set (kc_abs c)"
    using linked_keys [OF assms] by (auto simp: kc_abs_def image_iff)
  then have "map_of (kc_abs c) k = None" by (simp add: map_of_eq_None_iff)
  then show ?thesis using None by simp
next
  case (Some el)
  then have "(k, el) \<in> set (kc_items c)" using linked_map_of [OF assms] by simp
  then have "fst (item_at c el) = k" "el \<in> set (kc_ll c)" using linked_keys [OF assms] by auto
  then have "(k, snd (item_at c el)) \<in> set (kc_abs c)"
    by (auto simp: kc_abs_def image_iff intro: bexI [of _ el])
  then show ?thesis using Some abs_distinct [OF assms] by simp
qed

section \<open>Moving to the front\<close>

lemma item_at_frame [simp]: "item_at (c\<lparr>kc_ll := l\<rparr>) = item_at c"
  by (simp add: fun_eq_iff item_at_def)

lemma abs_move_to_front:
  assumes "kc_linked c" "(k, el) \<in> set (kc_items c)"
  shows "map (item_at c) (move_to_front el (kc_ll c)) = (k, snd (item_at c el)) # filter (\<lambda>x. fst x \<noteq> k) (kc_abs c)"
proof -
  from assms have el: "el \<in> set (kc_ll c)" "fst (item_at c el) = k" using linked_keys by blast+
  have "remove1 el (kc_ll c) = filter (\<lambda>x. el \<noteq> x) (kc_ll c)"
    using assms(1) by (simp add: kc_linked_def distinct_remove1_removeAll removeAll_filter_not_eq)
  moreover have "el \<noteq> x \<longleftrightarrow> fst (item_at c x) \<noteq> k" if "x \<in> set (kc_ll c)" for x
    using that assms linked_keys [OF assms(1)] linked_map_of [OF assms(1)] el
    by (metis option.inject)
  ultimately have "map (item_at c) (remove1 el (kc_ll c)) = filter (\<lambda>x. fst x \<noteq> k) (kc_abs c)"
    by (simp add: kc_abs_def filter_map comp_def cong: filter_cong)
  moreover have "item_at c el = (k, snd (item_at c el))" using el by (metis prod.collapse)
  ultimately show ?thesis using el by (simp add: move_to_front_def)
qed

lemma set_move_to_front [simp]: "set (move_to_front el ll) = set ll"
  by (auto simp: move_to_front_def dest: set_remove1_subset [THEN subsetD] simp del: in_set_remove1)
    (metis in_set_remove1)

lemma distinct_move_to_front [simp]: "distinct ll \<Longrightarrow> distinct (move_to_front el ll)"
  by (simp add: move_to_front_def)

lemma get_linked: "kc_linked c \<Longrightarrow> kc_linked (snd (kc_get h c))"
  by (auto simp: kc_get_def kc_linked_def split: option.splits)

lemma get_wf: "kc_wf c \<Longrightarrow> kc_wf (snd (kc_get h c))"
proof -
  assume "kc_wf c"
  moreover have "kc_items (snd (kc_get h c)) = kc_items c" "kc_maxEntries (snd (kc_get h c)) = kc_maxEntries c"
    by (auto simp: kc_get_def split: option.splits)
  ultimately show ?thesis by (simp add: kc_wf_def get_linked)
qed

lemma get_refines:
  assumes "kc_linked c"
  shows "(fst (kc_get h c), kc_abs (snd (kc_get h c))) = lru_get h (kc_abs c)"
proof (cases "map_of (kc_items c) h")
  case None
  then show ?thesis using abs_lookup [OF assms, of h] by (simp add: kc_get_def lru_get_def lru_touch_def)
next
  case (Some el)
  then have m: "(h, el) \<in> set (kc_items c)" using linked_map_of [OF assms] by simp
  then have "el \<in> set (kc_ll c)" using linked_keys [OF assms] by blast
  from linked_item [OF assms this] obtain it where it: "kc_heap c el = Some it" by blast
  then have "snd (item_at c el) = li_entry it" by (simp add: item_at_def)
  then show ?thesis
    using Some it abs_lookup [OF assms, of h] abs_move_to_front [OF assms m]
    by (simp add: kc_get_def lru_get_def lru_touch_def kc_abs_def)
qed

section \<open>Storing and evicting\<close>

lemma alist_delete_filter: "AList.delete k xs = filter (\<lambda>x. fst x \<noteq> k) xs"
  by (induction xs) auto

lemma alist_update_new: "k \<notin> fst ` set xs \<Longrightarrow> AList.update k v xs = xs @ [(k, v)]"
  by (induction xs) auto

lemma linked_drop_last:
  assumes "kc_linked c" "kc_ll c \<noteq> []" "kc_heap c (last (kc_ll c)) = Some it"
  shows "kc_linked (c\<lparr>kc_ll := butlast (kc_ll c), kc_items := AList.delete (li_key it) (kc_items c)\<rparr>)"
proof -
  let ?x = "last (kc_ll c)"
  let ?its = "filter (\<lambda>x. fst x \<noteq> li_key it) (kc_items c)"
  have del: "AList.delete (li_key it) (kc_items c) = ?its"
    by (rule alist_delete_filter)
  have ll: "kc_ll c = butlast (kc_ll c) @ [?x]" using assms(2) by simp
  have "distinct (butlast (kc_ll c) @ [?x])" using assms(1) ll by (simp add: kc_linked_def)
  then have d: "distinct (butlast (kc_ll c))" "?x \<notin> set (butlast (kc_ll c))" by auto
  have sl: "set (kc_ll c) = insert ?x (set (butlast (kc_ll c)))" by (subst ll) simp
  have x: "(li_key it, ?x) \<in> set (kc_items c)"
    using linked_item [OF assms(1), of ?x] assms(2,3) by auto
  have key: "fst y = li_key it \<longleftrightarrow> snd y = ?x" if y: "y \<in> set (kc_items c)" for y
  proof
    assume "fst y = li_key it"
    then show "snd y = ?x"
      using y x assms(1) eq_key_imp_eq_value [of "kc_items c" "li_key it"]
      by (metis kc_linked_def prod.collapse)
  next
    assume "snd y = ?x"
    then show "fst y = li_key it"
      using linked_heap [OF assms(1), of "fst y" "snd y"] y assms(3) by (cases y) simp
  qed
  have "set ?its = {y \<in> set (kc_items c). snd y \<noteq> ?x}" using key by auto
  moreover have "snd ` {y \<in> set (kc_items c). snd y \<noteq> ?x} = snd ` set (kc_items c) - {?x}" by auto
  ultimately have "set (map snd ?its) = set (kc_ll c) - {?x}"
    using assms(1) by (simp add: kc_linked_def)
  then show ?thesis
    using assms(1) d sl unfolding del kc_linked_def
    by (auto simp: distinct_map_filter dest: in_set_butlastD)
qed

lemma abs_drop_last:
  "kc_abs (c\<lparr>kc_ll := butlast (kc_ll c), kc_items := its\<rparr>) = butlast (kc_abs c)"
  by (simp add: kc_abs_def map_butlast item_at_def cong: map_cong)

lemma evict_refines:
  "kc_linked c \<Longrightarrow> 0 \<le> kc_maxEntries c \<Longrightarrow>
   kc_linked (evict c) \<and> kc_abs (evict c) = take (nat (kc_maxEntries c)) (kc_abs c) \<and>
   kc_maxEntries (evict c) = kc_maxEntries c \<and> int (length (kc_items (evict c))) \<le> kc_maxEntries c"
proof (induction c rule: evict.induct)
  case (1 c)
  have len: "length (kc_abs c) = length (kc_items c)"
    using linked_length [OF 1(2)] by (simp add: kc_abs_def)
  show ?case
  proof (cases "int (length (kc_items c)) > kc_maxEntries c \<and> kc_ll c \<noteq> []")
    case False
    have "int (length (kc_items c)) \<le> kc_maxEntries c"
      using False 1(3) linked_length [OF 1(2)] by (cases "kc_ll c") auto
    then show ?thesis using 1(2) False len by (simp add: evict.simps [of c])
  next
    case True
    then have "last (kc_ll c) \<in> set (kc_ll c)" by simp
    then obtain it where it: "kc_heap c (last (kc_ll c)) = Some it"
      using linked_item [OF 1(2)] by blast
    let ?c = "c\<lparr>kc_ll := butlast (kc_ll c), kc_items := AList.delete (li_key it) (kc_items c)\<rparr>"
    have ev: "evict c = evict ?c" using True it by (simp add: evict.simps [of c])
    have "kc_linked ?c" using True it by (intro linked_drop_last 1(2)) auto
    with 1(1) [OF True refl] it 1(3) have ih: "kc_linked (evict ?c)"
      "kc_abs (evict ?c) = take (nat (kc_maxEntries c)) (kc_abs ?c)"
      "kc_maxEntries (evict ?c) = kc_maxEntries c"
      "int (length (kc_items (evict ?c))) \<le> kc_maxEntries c" by simp_all
    have "nat (kc_maxEntries c) < length (kc_abs c)" using True len 1(3) by linarith
    then have "take (nat (kc_maxEntries c)) (butlast (kc_abs c)) = take (nat (kc_maxEntries c)) (kc_abs c)"
      by (simp add: take_butlast)
    then show ?thesis using ih by (simp add: ev abs_drop_last)
  qed
qed

lemma put_miss:
  fixes c e
  assumes "kc_linked c" "map_of (kc_items c) h = None"
  defines "c' \<equiv> c\<lparr>kc_heap := (kc_heap c)(kc_next c := Some \<lparr>li_key = h, li_entry = e\<rparr>),
      kc_ll := kc_next c # kc_ll c, kc_items := AList.update h (kc_next c) (kc_items c),
      kc_next := Suc (kc_next c)\<rparr>"
  shows "kc_linked c'" and "kc_abs c' = (h, e) # kc_abs c"
proof -
  have fresh: "kc_next c \<notin> set (kc_ll c)" using assms(1) by (auto simp: kc_linked_def)
  have upd: "AList.update h (kc_next c) (kc_items c) = kc_items c @ [(h, kc_next c)]"
    using assms(2) by (simp add: alist_update_new map_of_eq_None_iff)
  have hn: "h \<notin> fst ` set (kc_items c)" using assms(2) by (simp add: map_of_eq_None_iff)
  have sn: "snd ` set (kc_items c) = set (kc_ll c)" using assms(1) by (simp add: kc_linked_def)
  have "snd x \<noteq> kc_next c" if "x \<in> set (kc_items c)" for x
    using that sn fresh by (metis image_eqI)
  then show "kc_linked c'"
    using assms(1) fresh hn unfolding c'_def kc_linked_def upd
    by (auto simp: less_SucI)
  show "kc_abs c' = (h, e) # kc_abs c"
    using fresh by (auto simp: c'_def kc_abs_def item_at_def)
qed

lemma put_hit:
  fixes c e
  assumes "kc_linked c" "map_of (kc_items c) h = Some el"
  defines "c' \<equiv> c\<lparr>kc_heap := (kc_heap c)(el := map_option (\<lambda>it. it\<lparr>li_entry := e\<rparr>) (kc_heap c el)),
      kc_ll := move_to_front el (kc_ll c)\<rparr>"
  shows "kc_linked c'" and "kc_abs c' = (h, e) # filter (\<lambda>x. fst x \<noteq> h) (kc_abs c)"
proof -
  from assms have m: "(h, el) \<in> set (kc_items c)" using linked_map_of by blast
  then have el: "el \<in> set (kc_ll c)" "fst (item_at c el) = h" using linked_keys [OF assms(1)] by blast+
  from linked_item [OF assms(1) el(1)] obtain it where it: "kc_heap c el = Some it" by blast
  show "kc_linked c'"
    using assms(1) it unfolding c'_def kc_linked_def by auto
  have other: "item_at c' x = item_at c x" if "x \<noteq> el" for x using that by (simp add: c'_def item_at_def)
  have this_el: "item_at c' el = (h, e)" using it el by (simp add: c'_def item_at_def)
  have tl: "el \<notin> set (remove1 el (kc_ll c))" using assms(1) by (simp add: kc_linked_def)
  have "kc_ll c' = el # remove1 el (kc_ll c)" using el by (simp add: c'_def move_to_front_def)
  then have "kc_abs c' = item_at c' el # map (item_at c) (remove1 el (kc_ll c))"
    using tl other by (simp add: kc_abs_def) (metis)
  moreover have "item_at c el # map (item_at c) (remove1 el (kc_ll c))
      = (h, snd (item_at c el)) # filter (\<lambda>x. fst x \<noteq> h) (kc_abs c)"
    using abs_move_to_front [OF assms(1) m] el by (simp add: move_to_front_def)
  ultimately show "kc_abs c' = (h, e) # filter (\<lambda>x. fst x \<noteq> h) (kc_abs c)"
    using this_el by simp
qed

lemma put_refines:
  assumes "kc_wf c"
  shows "kc_wf (kc_put h e c)" "kc_abs (kc_put h e c) = lru_put (nat (kc_maxEntries c)) h e (kc_abs c)"
    "kc_maxEntries (kc_put h e c) = kc_maxEntries c"
proof -
  from assms have l: "kc_linked c" and mx: "0 \<le> kc_maxEntries c" "int (length (kc_items c)) \<le> kc_maxEntries c"
    by (simp_all add: kc_wf_def)
  have "kc_wf (kc_put h e c) \<and> kc_abs (kc_put h e c) = lru_put (nat (kc_maxEntries c)) h e (kc_abs c) \<and>
      kc_maxEntries (kc_put h e c) = kc_maxEntries c"
  proof (cases "map_of (kc_items c) h")
    case None
    have "h \<notin> fst ` set (kc_abs c)"
      using abs_lookup [OF l, of h] None by (simp add: map_of_eq_None_iff)
    then have "filter (\<lambda>x. fst x \<noteq> h) (kc_abs c) = kc_abs c" by (auto simp: filter_id_conv)
    then show ?thesis
      using evict_refines [OF put_miss(1) [OF l None, of e]] put_miss(2) [OF l None, of e] None mx
      by (simp add: kc_put_def Let_def kc_wf_def lru_put_def)
  next
    case (Some el)
    have "length (kc_abs (kc_put h e c)) = length (kc_items c)"
      using Some linked_length [OF put_hit(1) [OF l Some, of e]] by (simp add: kc_put_def kc_abs_def)
    then have len: "length (kc_abs (kc_put h e c)) \<le> nat (kc_maxEntries c)" using mx by linarith
    have "kc_abs (kc_put h e c) = (h, e) # filter (\<lambda>x. fst x \<noteq> h) (kc_abs c)"
      using Some put_hit(2) [OF l Some, of e] by (simp add: kc_put_def)
    with len have "kc_abs (kc_put h e c) = lru_put (nat (kc_maxEntries c)) h e (kc_abs c)"
      unfolding lru_put_def by (metis take_all)
    then show ?thesis
      using Some put_hit(1) [OF l Some, of e] mx by (simp add: kc_put_def kc_wf_def)
  qed
  then show "kc_wf (kc_put h e c)" "kc_abs (kc_put h e c) = lru_put (nat (kc_maxEntries c)) h e (kc_abs c)"
    "kc_maxEntries (kc_put h e c) = kc_maxEntries c" by simp_all
qed

section \<open>The interface of a validation cache\<close>

text \<open>What the authenticator relies on: a lookup returns what is stored and forgets nothing, and
  after a store every entry found is the new one or was there before.\<close>

locale validation_cache =
  fixes lookup :: "'c \<Rightarrow> string \<Rightarrow> cacheEntry option"
    and inv :: "'c \<Rightarrow> bool"
    and get :: "string \<Rightarrow> 'c \<Rightarrow> cacheEntry option \<times> 'c"
    and put :: "string \<Rightarrow> cacheEntry \<Rightarrow> 'c \<Rightarrow> 'c"
  assumes get_result: "inv c \<Longrightarrow> fst (get h c) = lookup c h"
    and get_inv: "inv c \<Longrightarrow> inv (snd (get h c))"
    and get_keeps: "inv c \<Longrightarrow> lookup (snd (get h c)) k = lookup c k"
    and put_inv: "inv c \<Longrightarrow> inv (put h e c)"
    and put_only: "inv c \<Longrightarrow> lookup (put h e c) k = Some x \<Longrightarrow> (k = h \<and> x = e) \<or> (k \<noteq> h \<and> lookup c k = Some x)"

text \<open>An LRU cache in addition keeps what it has just stored and evicts from the end of a recency
  list.\<close>

locale lru_cache = validation_cache +
  fixes recency :: "'a \<Rightarrow> (string \<times> cacheEntry) list" and bound :: "'a \<Rightarrow> nat"
  assumes lookup_recency: "inv c \<Longrightarrow> lookup c k = map_of (recency c) k"
    and recency_distinct: "inv c \<Longrightarrow> distinct (map fst (recency c))"
    and recency_bound: "inv c \<Longrightarrow> length (recency c) \<le> bound c"
    and get_recency: "inv c \<Longrightarrow> recency (snd (get h c)) = lru_touch h (recency c)"
    and put_recency: "inv c \<Longrightarrow> recency (put h e c) = lru_put (bound c) h e (recency c)"
    and put_bound: "inv c \<Longrightarrow> bound (put h e c) = bound c"
begin

lemma put_then_get: "inv c \<Longrightarrow> 0 < bound c \<Longrightarrow> fst (get h (put h e c)) = Some e"
  by (cases "bound c") (simp_all add: get_result put_inv lookup_recency put_recency lru_put_def)

text \<open>Only the least recently used key can leave, and only when the cache is full.\<close>

lemma put_evicts_last:
  assumes "inv c" "lookup c k = Some x" "lookup (put h e c) k = None"
  shows "k = fst (last (recency c)) \<and> length (recency c) = bound c \<and> h \<notin> fst ` set (recency c)"
proof -
  let ?r = "recency c"
  let ?f = "filter (\<lambda>x. fst x \<noteq> h) ?r"
  have mem: "(k, x) \<in> set ?r" using assms(1,2) by (simp add: lookup_recency map_of_SomeD)
  have out: "k \<notin> fst ` set (take (bound c) ((h, e) # ?f))"
    using assms(1,3) put_inv [OF assms(1), of h e]
    by (simp add: lookup_recency put_recency lru_put_def map_of_eq_None_iff)
  have b: "bound c > 0" using mem recency_bound [OF assms(1)] by (cases ?r) auto
  then have "k \<noteq> h" using out by (cases "bound c") auto
  with mem have mf: "(k, x) \<in> set ?f" by simp
  have long: "\<not> length ?f \<le> bound c - 1"
    using out b mf by (cases "bound c") (force simp: image_iff)+
  then have eq: "length ?f = length ?r" and full: "length ?r = bound c"
    using recency_bound [OF assms(1)] length_filter_le [of "\<lambda>x. fst x \<noteq> h" ?r] by linarith+
  have no_h: "fst x \<noteq> h" if "x \<in> set ?r" for x
    using that eq length_filter_less [of x ?r "\<lambda>x. fst x \<noteq> h"] by auto
  then have f: "?f = ?r" by (simp add: filter_id_conv)
  have "h \<notin> fst ` set ?r" using no_h by auto
  moreover have "k = fst (last ?r)"
  proof -
    have ne: "?r \<noteq> []" using mem by auto
    have "take (bound c - 1) ?r = butlast ?r" using full by (simp add: butlast_conv_take)
    then have "k \<notin> fst ` set (butlast ?r)" using out b f by (cases "bound c") auto
    moreover have "?r = butlast ?r @ [last ?r]" using ne by simp
    ultimately have "(k, x) = last ?r" using mem by (metis Un_iff empty_iff fst_conv image_eqI insert_iff
        list.set(1) list.set(2) set_append)
    then show ?thesis by (metis fst_conv)
  qed
  ultimately show ?thesis using full by simp
qed

end

definition kc_lookup :: "keyCache \<Rightarrow> string \<Rightarrow> cacheEntry option" where
  "kc_lookup c k = map_of (kc_abs c) k"

definition kc_bound :: "keyCache \<Rightarrow> nat" where
  "kc_bound c = nat (kc_maxEntries c)"

lemma map_of_filter_other: "map_of (filter (\<lambda>x. fst x \<noteq> h) xs) k = (if k = h then None else map_of xs k)"
  by (induction xs) auto

lemma map_of_take: "distinct (map fst xs) \<Longrightarrow> map_of (take n xs) k = Some x \<Longrightarrow> map_of xs k = Some x"
  using map_of_SomeD [of "take n xs" k x] in_set_takeD [of "(k, x)" n xs] by simp

interpretation key_cache: lru_cache kc_lookup kc_wf kc_get kc_put kc_abs kc_bound
proof (standard, goal_cases)
  case (1 c h)
  then show ?case
    using get_refines [of c h] by (simp add: kc_wf_def kc_lookup_def lru_get_def)
next
  case (2 c h)
  then show ?case by (rule get_wf)
next
  case (3 c h k)
  then have "kc_abs (snd (kc_get h c)) = lru_touch h (kc_abs c)"
    using get_refines [of c h] by (simp add: kc_wf_def lru_get_def)
  then show ?case
    by (auto simp: kc_lookup_def lru_touch_def map_of_filter_other split: option.splits)
next
  case (4 c h e)
  then show ?case by (rule put_refines)
next
  case (5 c h e k x)
  let ?xs = "(h, e) # filter (\<lambda>x. fst x \<noteq> h) (kc_abs c)"
  have "distinct (map fst (kc_abs c))" using 5(1) by (simp add: abs_distinct kc_wf_def)
  then have "distinct (map fst ?xs)" by (auto simp: distinct_map_filter)
  moreover have "map_of (take (nat (kc_maxEntries c)) ?xs) k = Some x"
    using 5 put_refines(2) [OF 5(1)] by (simp add: kc_lookup_def lru_put_def)
  ultimately have "map_of ?xs k = Some x" by (rule map_of_take)
  then show ?case by (auto simp: kc_lookup_def map_of_filter_other split: if_splits)
next
  case (6 c k)
  then show ?case by (simp add: kc_lookup_def)
next
  case (7 c)
  then show ?case by (simp add: abs_distinct kc_wf_def)
next
  case (8 c)
  then show ?case using linked_length [of c] by (simp add: kc_wf_def kc_bound_def kc_abs_def nat_le_iff le_nat_iff)
next
  case (9 c h)
  then show ?case using get_refines [of c h] by (simp add: kc_wf_def lru_get_def)
next
  case (10 c h e)
  then show ?case using put_refines(2) by (simp add: kc_bound_def)
next
  case (11 c h e)
  then show ?case using put_refines(3) by (simp add: kc_bound_def)
qed

section \<open>Properties\<close>

text \<open>C7: the cache refines an LRU list of bounded length. On a well-formed cache \<open>get\<close> returns
  what the list holds for the key and moves it to the front, \<open>put\<close> puts the entry at the front,
  drops an older entry of the same key and keeps the first \<open>maxEntries\<close> ones; both keep the cache
  well formed, so the map never grows beyond \<open>maxEntries\<close>.\<close>

theorem keyCache_refines_lru:
  assumes "kc_wf c"
  shows "(fst (kc_get h c), kc_abs (snd (kc_get h c))) = lru_get h (kc_abs c)
    \<and> kc_abs (kc_put h e c) = lru_put (nat (kc_maxEntries c)) h e (kc_abs c)
    \<and> kc_wf (snd (kc_get h c)) \<and> kc_wf (kc_put h e c) \<and> int (kc_len (kc_put h e c)) \<le> kc_maxEntries c"
  using assms get_refines [of c h] get_wf [of c h] put_refines [OF assms, of h e]
  by (auto simp: kc_wf_def kc_len_def)

definition sample_entry :: "time \<Rightarrow> cacheEntry" where
  "sample_entry t = \<lparr>ce_valid = True, ce_data = None, ce_freshUntil = t, ce_staleUntil = t\<rparr>"

theorem keyCache_refines_lru_witness:
  "kc_wf (kc_put ''b'' (sample_entry 2) (kc_put ''a'' (sample_entry 1) (newKeyCache 1)))
   \<and> kc_abs (kc_put ''b'' (sample_entry 2) (kc_put ''a'' (sample_entry 1) (newKeyCache 1)))
     = [(''b'', sample_entry 2)]"
proof -
  have 0: "kc_wf (newKeyCache 1)" by (simp add: newKeyCache_wf)
  have m: "kc_maxEntries (newKeyCache 1) = 1" "kc_abs (newKeyCache 1) = []"
    by (simp_all add: newKeyCache_def kc_abs_def)
  have 1: "kc_wf (kc_put ''a'' (sample_entry 1) (newKeyCache 1))"
    "kc_abs (kc_put ''a'' (sample_entry 1) (newKeyCache 1)) = [(''a'', sample_entry 1)]"
    using keyCache_refines_lru [OF 0, of "''a''" "sample_entry 1"] m
    by (simp_all add: lru_put_def)
  have "kc_maxEntries (kc_put ''a'' (sample_entry 1) (newKeyCache 1)) = 1"
    using put_refines(3) [OF 0] m by simp
  then show ?thesis
    using keyCache_refines_lru [OF 1(1), of "''b''" "sample_entry 2"] 1(2)
    by (simp add: lru_put_def)
qed

text \<open>C13: storing an entry loses at most one other key, and only the least recently used one of a
  full cache; what was stored is found by the next lookup.\<close>

theorem keyCache_evicts_lru_only:
  assumes "kc_wf c" "0 < kc_maxEntries c"
  shows "fst (kc_get h (kc_put h e c)) = Some e \<and>
    (kc_lookup c k \<noteq> None \<and> kc_lookup (kc_put h e c) k = None \<longrightarrow>
       k = fst (last (kc_abs c)) \<and> length (kc_abs c) = kc_bound c \<and> h \<notin> fst ` set (kc_abs c))"
  using assms key_cache.put_then_get [of c h e] key_cache.put_evicts_last [of c k _ h e]
  by (auto simp: kc_bound_def)

theorem keyCache_evicts_lru_only_witness:
  "fst (kc_get ''a'' (kc_put ''a'' (sample_entry 1) (newKeyCache 1))) = Some (sample_entry 1)"
  using keyCache_evicts_lru_only [of "newKeyCache 1" "''a''" "sample_entry 1"]
  by (simp add: newKeyCache_wf) (simp add: newKeyCache_def)

end
