(* ===== verification/TenantAuth.thy ===== *)
theory TenantAuth
  imports IngestAuth KeyCache
begin

text \<open>
  The gateway's server authenticator, \<open>collector/extension/tenantauth\<close>. \<open>Authenticate\<close> takes the
  cache operations and the remote procedure call as arguments. It is the composition of two parts,
  what happens before the call to the control plane (\<open>auth_begin\<close>) and after it (\<open>auth_finish\<close>),
  because concurrent requests interleave at the call: the cache is locked per operation only. The
  step relation \<open>gw_step\<close> has every such interleaving.
\<close>

section \<open>Configuration and identity\<close>

record CacheConfig =
  cfg_TTL :: duration
  cfg_NegativeTTL :: duration
  cfg_MaxEntries :: int
  cfg_StaleIfError :: duration

definition defaultCacheConfig :: CacheConfig where
  "defaultCacheConfig = \<lparr>cfg_TTL = 30 * second, cfg_NegativeTTL = 5 * second,
     cfg_MaxEntries = 50000, cfg_StaleIfError = 15 * minute\<rparr>"

text \<open>\<open>Config.Validate\<close>: the messages of the errors it joins; none when the configuration is
  accepted.\<close>

definition Config_Validate :: "string \<Rightarrow> CacheConfig \<Rightarrow> string list" where
  "Config_Validate endpoint cfg =
    (if endpoint = '''' then [''endpoint must be set to the control-plane AuthService gRPC address''] else [])
    @ (if cfg_TTL cfg \<le> 0 then [''cache.ttl must be positive''] else [])
    @ (if cfg_NegativeTTL cfg \<le> 0 then [''cache.negative_ttl must be positive''] else [])
    @ (if cfg_MaxEntries cfg \<le> 0 then [''cache.max_entries must be positive''] else [])
    @ (if cfg_StaleIfError cfg < 0 then [''cache.stale_if_error must not be negative''] else [])"

text \<open>The attribute values of \<open>client.AuthData\<close>, an interface whose \<open>GetAttribute\<close> returns
  \<open>any\<close>; the interface value itself is its \<open>GetAttribute\<close>.\<close>

datatype attr_val =
    VStr string | VInt64 int | VInt int | VInt32 int | VUint32 int | VUint64 int | VNil

definition AttrTenantID :: string where
  "AttrTenantID = ''tenant.id''"

definition AttrClientID :: string where
  "AttrClientID = ''client.id''"

definition AttrCustomerID :: string where
  "AttrCustomerID = ''customer.id''"

definition AttrRateLimitItemsPerSec :: string where
  "AttrRateLimitItemsPerSec = ''rate_limit_items_per_sec''"

lemmas attr_name_defs =
  AttrTenantID_def AttrClientID_def AttrCustomerID_def AttrRateLimitItemsPerSec_def

definition GetAttribute :: "authData \<Rightarrow> string \<Rightarrow> attr_val" where
  "GetAttribute a name =
    (if name = AttrTenantID then VStr (ad_tenantID a)
     else if name = AttrClientID then VStr (ad_clientID a)
     else if name = AttrCustomerID then VStr (ad_customerID a)
     else if name = AttrRateLimitItemsPerSec then VInt64 (ad_rateLimitItemsPerSec a)
     else VNil)"

definition GetAttributeNames :: "string list" where
  "GetAttributeNames = [AttrTenantID, AttrClientID, AttrCustomerID, AttrRateLimitItemsPerSec]"

text \<open>The \<open>client.Info\<close> a context carries.\<close>

record client_info =
  ci_Addr :: string
  ci_Auth :: "(string \<Rightarrow> attr_val) option"

definition contextWithAuth :: "client_info \<Rightarrow> authData \<Rightarrow> client_info" where
  "contextWithAuth ctx data = ctx\<lparr>ci_Auth := Some (GetAttribute data)\<rparr>"

section \<open>The key of a request\<close>

fun scan_bearer :: "string list \<Rightarrow> string \<Rightarrow> string" where
  "scan_bearer [] bearer = bearer"
| "scan_bearer (v # vs) bearer =
    (case Cut (CHR '' '') (TrimSpace v) of
       Some (scheme, rest) \<Rightarrow>
         (if EqualFold scheme ''Bearer'' then
            (let k = TrimSpace rest
             in scan_bearer vs (if k \<noteq> '''' \<and> bearer = '''' then k else bearer))
          else scan_bearer vs bearer)
     | None \<Rightarrow> scan_bearer vs bearer)"

fun scan_api_key :: "string list \<Rightarrow> string \<Rightarrow> string" where
  "scan_api_key [] apiKey = apiKey"
| "scan_api_key (v # vs) apiKey =
    (let k = TrimSpace v
     in scan_api_key vs (if k \<noteq> '''' \<and> apiKey = '''' then k else apiKey))"

text \<open>The loop over the header map, in the order in which the map is traversed.\<close>

fun scan_sources :: "(string \<times> string list) list \<Rightarrow> string \<times> string \<Rightarrow> string \<times> string" where
  "scan_sources [] st = st"
| "scan_sources ((name, values) # rest) (bearer, apiKey) =
    scan_sources rest
      (if ToLower name = ''authorization'' then (scan_bearer values bearer, apiKey)
       else if ToLower name = ''x-api-key'' then (bearer, scan_api_key values apiKey)
       else (bearer, apiKey))"

definition extractKey :: "(string \<times> string list) list \<Rightarrow> string" where
  "extractKey sources =
    (case scan_sources sources ('''', '''') of
       (bearer, apiKey) \<Rightarrow> if bearer \<noteq> '''' then bearer else apiKey)"

section \<open>Authentication\<close>

datatype auth_error = errNoKey | errInvalidKey | errUnavailable string

datatype auth_outcome =
    outcome_ok | outcome_invalid_key | outcome_no_key
  | outcome_upstream_error_stale | outcome_upstream_error_reject

record 'c authenticator =
  au_cfg :: CacheConfig
  au_cache :: 'c
  au_requests :: "auth_outcome \<times> string \<Rightarrow> nat"

definition newAuthenticator :: "CacheConfig \<Rightarrow> keyCache authenticator" where
  "newAuthenticator cfg = \<lparr>au_cfg = cfg, au_cache = newKeyCache (cfg_MaxEntries cfg),
     au_requests = (\<lambda>_. 0)\<rparr>"

definition count :: "auth_outcome \<Rightarrow> string \<Rightarrow> 'c authenticator \<Rightarrow> 'c authenticator" where
  "count oc tenant a =
    a\<lparr>au_requests := (au_requests a)((oc, tenant) := au_requests a (oc, tenant) + 1)\<rparr>"

definition hash_key :: "string \<Rightarrow> string" where
  "hash_key key = hexEncode (Sum256 key)"

text \<open>The part before the call: a verdict, or the key and its hash to ask the control plane for.\<close>

datatype auth_progress =
    Verdict "auth_error + authData"
  | NeedRPC string string

definition entry_data :: "cacheEntry \<Rightarrow> authData" where
  "entry_data e = (case ce_data e of Some d \<Rightarrow> d
     | None \<Rightarrow> \<lparr>ad_tenantID = '''', ad_clientID = '''', ad_customerID = '''', ad_rateLimitItemsPerSec = 0\<rparr>)"

definition auth_begin ::
    "(string \<Rightarrow> 'c \<Rightarrow> cacheEntry option \<times> 'c) \<Rightarrow> time \<Rightarrow> (string \<times> string list) list \<Rightarrow>
     'c authenticator \<Rightarrow> auth_progress \<times> 'c authenticator" where
  "auth_begin get now sources a =
    (let key = extractKey sources
     in if key = '''' then (Verdict (Inl errNoKey), count outcome_no_key '''' a)
        else (let hash = hash_key key
              in case get hash (au_cache a) of
                   (r, c) \<Rightarrow>
                     (let a' = a\<lparr>au_cache := c\<rparr>
                      in case r of
                           Some e \<Rightarrow>
                             (if now < ce_freshUntil e then
                                (if \<not> ce_valid e
                                 then (Verdict (Inl errInvalidKey), count outcome_invalid_key '''' a')
                                 else (Verdict (Inr (entry_data e)),
                                       count outcome_ok (ad_tenantID (entry_data e)) a'))
                              else (NeedRPC key hash, a'))
                         | None \<Rightarrow> (NeedRPC key hash, a'))))"

definition response_data :: "ValidateAPIKeyResponse \<Rightarrow> authData" where
  "response_data resp = \<lparr>ad_tenantID = vr_ClientId resp, ad_clientID = vr_ClientId resp,
     ad_customerID = vr_CustomerId resp,
     ad_rateLimitItemsPerSec = int (unat (vr_RateLimitItemsPerSec resp))\<rparr>"

definition effective_ttl :: "CacheConfig \<Rightarrow> ValidateAPIKeyResponse \<Rightarrow> duration" where
  "effective_ttl cfg resp =
    (let s = vr_CacheTtlSeconds resp
     in if s > 0 \<and> s * second < cfg_TTL cfg then s * second else cfg_TTL cfg)"

definition negative_entry :: "CacheConfig \<Rightarrow> time \<Rightarrow> cacheEntry" where
  "negative_entry cfg now = \<lparr>ce_valid = False, ce_data = None,
     ce_freshUntil = now + cfg_NegativeTTL cfg, ce_staleUntil = zero_time\<rparr>"

definition positive_entry :: "CacheConfig \<Rightarrow> time \<Rightarrow> ValidateAPIKeyResponse \<Rightarrow> cacheEntry" where
  "positive_entry cfg now resp = \<lparr>ce_valid = True, ce_data = Some (response_data resp),
     ce_freshUntil = now + effective_ttl cfg resp, ce_staleUntil = now + cfg_StaleIfError cfg\<rparr>"

text \<open>The part after the call; the reply is an error or a response.\<close>

definition auth_finish ::
    "(string \<Rightarrow> 'c \<Rightarrow> cacheEntry option \<times> 'c) \<Rightarrow> (string \<Rightarrow> cacheEntry \<Rightarrow> 'c \<Rightarrow> 'c) \<Rightarrow> time \<Rightarrow> string \<Rightarrow>
     (string + ValidateAPIKeyResponse) \<Rightarrow> 'c authenticator \<Rightarrow> (auth_error + authData) \<times> 'c authenticator" where
  "auth_finish get put now hash reply a =
    (case reply of
       Inl err \<Rightarrow>
         (case get hash (au_cache a) of
            (r, c) \<Rightarrow>
              (let a' = a\<lparr>au_cache := c\<rparr>
               in case r of
                    Some e \<Rightarrow>
                      (if ce_valid e \<and> now < ce_staleUntil e
                       then (Inr (entry_data e),
                             count outcome_upstream_error_stale (ad_tenantID (entry_data e)) a')
                       else (Inl (errUnavailable err), count outcome_upstream_error_reject '''' a'))
                  | None \<Rightarrow> (Inl (errUnavailable err), count outcome_upstream_error_reject '''' a')))
     | Inr resp \<Rightarrow>
         (if \<not> vr_Valid resp then
            (Inl errInvalidKey, count outcome_invalid_key ''''
               (a\<lparr>au_cache := put hash (negative_entry (au_cfg a) now) (au_cache a)\<rparr>))
          else
            (Inr (response_data resp), count outcome_ok (vr_ClientId resp)
               (a\<lparr>au_cache := put hash (positive_entry (au_cfg a) now resp) (au_cache a)\<rparr>))))"

definition Authenticate ::
    "(string \<Rightarrow> 'c \<Rightarrow> cacheEntry option \<times> 'c) \<Rightarrow> (string \<Rightarrow> cacheEntry \<Rightarrow> 'c \<Rightarrow> 'c) \<Rightarrow>
     (string \<Rightarrow> string + ValidateAPIKeyResponse) \<Rightarrow> time \<Rightarrow> (string \<times> string list) list \<Rightarrow> client_info \<Rightarrow>
     'c authenticator \<Rightarrow> (client_info \<times> auth_error option) \<times> 'c authenticator" where
  "Authenticate get put rpc now sources ctx a =
    (let (r, a') =
       (case auth_begin get now sources a of
          (Verdict v, a1) \<Rightarrow> (v, a1)
        | (NeedRPC key hash, a1) \<Rightarrow> auth_finish get put now hash (rpc key) a1)
     in case r of
          Inl e \<Rightarrow> ((ctx, Some e), a')
        | Inr d \<Rightarrow> ((contextWithAuth ctx d, None), a'))"

section \<open>Interleaved requests\<close>

text \<open>
  The state of the extension with the requests that wait for the control plane (key, hash and the
  time read before the call), and two histories: the replies received, with the time of the request
  they answer, and the identities handed out.
\<close>

record 'c gateway =
  gw_auth :: "'c authenticator"
  gw_waiting :: "(string \<times> string \<times> time) list"
  gw_replies :: "(string \<times> (string + ValidateAPIKeyResponse) \<times> time) list"
  gw_accepted :: "(string \<times> authData \<times> time) list"

definition gw_init :: "'c authenticator \<Rightarrow> 'c gateway" where
  "gw_init a = \<lparr>gw_auth = a, gw_waiting = [], gw_replies = [], gw_accepted = []\<rparr>"

inductive gw_step ::
    "(string \<Rightarrow> 'c \<Rightarrow> cacheEntry option \<times> 'c) \<Rightarrow> (string \<Rightarrow> cacheEntry \<Rightarrow> 'c \<Rightarrow> 'c) \<Rightarrow>
     'c gateway \<Rightarrow> 'c gateway \<Rightarrow> bool" for get put where
  arrive_rejected:
    "auth_begin get now sources (gw_auth g) = (Verdict (Inl e), a) \<Longrightarrow>
     gw_step get put g (g\<lparr>gw_auth := a\<rparr>)"
| arrive_accepted:
    "auth_begin get now sources (gw_auth g) = (Verdict (Inr d), a) \<Longrightarrow>
     gw_step get put g
       (g\<lparr>gw_auth := a, gw_accepted := (extractKey sources, d, now) # gw_accepted g\<rparr>)"
| arrive_waits:
    "auth_begin get now sources (gw_auth g) = (NeedRPC key hash, a) \<Longrightarrow>
     gw_step get put g (g\<lparr>gw_auth := a, gw_waiting := (key, hash, now) # gw_waiting g\<rparr>)"
| reply_rejected:
    "(key, hash, now) \<in> set (gw_waiting g) \<Longrightarrow>
     auth_finish get put now hash reply (gw_auth g) = (Inl e, a) \<Longrightarrow>
     gw_step get put g (g\<lparr>gw_auth := a, gw_waiting := remove1 (key, hash, now) (gw_waiting g),
       gw_replies := (key, reply, now) # gw_replies g\<rparr>)"
| reply_accepted:
    "(key, hash, now) \<in> set (gw_waiting g) \<Longrightarrow>
     auth_finish get put now hash reply (gw_auth g) = (Inr d, a) \<Longrightarrow>
     gw_step get put g (g\<lparr>gw_auth := a, gw_waiting := remove1 (key, hash, now) (gw_waiting g),
       gw_replies := (key, reply, now) # gw_replies g, gw_accepted := (key, d, now) # gw_accepted g\<rparr>)"

inductive_cases gw_stepE: "gw_step get put g g'"

text \<open>A positive reply in the history that covers an identity at a time: for the same hash, with
  the identity's data, and recent enough for the cached entry to be fresh or usable as stale.\<close>

definition covers :: "CacheConfig \<Rightarrow> string \<Rightarrow> authData \<Rightarrow> time \<Rightarrow> string \<times> (string + ValidateAPIKeyResponse) \<times> time \<Rightarrow> bool" where
  "covers cfg hash d t rep = (case rep of (k, reply, t0) \<Rightarrow>
     hash_key k = hash \<and>
     (case reply of Inl _ \<Rightarrow> False
      | Inr r \<Rightarrow> vr_Valid r \<and> d = response_data r \<and>
          (t = t0 \<or> t < t0 + effective_ttl cfg r \<or> t < t0 + cfg_StaleIfError cfg)))"

context validation_cache
begin

text \<open>Every usable entry of the cache stems from a positive reply for its hash.\<close>

definition backed :: "CacheConfig \<Rightarrow> (string \<times> (string + ValidateAPIKeyResponse) \<times> time) list \<Rightarrow> 'c \<Rightarrow> bool" where
  "backed cfg reps c \<longleftrightarrow> (\<forall>h e. lookup c h = Some e \<and> ce_valid e \<longrightarrow>
     (\<exists>k r t0. (k, Inr r, t0) \<in> set reps \<and> hash_key k = h \<and> vr_Valid r \<and>
        e = positive_entry cfg t0 r))"

definition gw_inv :: "'c gateway \<Rightarrow> bool" where
  "gw_inv g \<longleftrightarrow> inv (au_cache (gw_auth g)) \<and>
     backed (au_cfg (gw_auth g)) (gw_replies g) (au_cache (gw_auth g)) \<and>
     (\<forall>(k, h, t) \<in> set (gw_waiting g). h = hash_key k) \<and>
     (\<forall>(k, d, t) \<in> set (gw_accepted g). \<exists>rep \<in> set (gw_replies g).
        covers (au_cfg (gw_auth g)) (hash_key k) d t rep)"

lemma backed_mono: "backed cfg reps c \<Longrightarrow> set reps \<subseteq> set reps' \<Longrightarrow> backed cfg reps' c"
  unfolding backed_def by (meson subsetD)

lemma backed_get: "inv c \<Longrightarrow> backed cfg reps c \<Longrightarrow> backed cfg reps (snd (get h c))"
  by (simp add: backed_def get_keeps)

lemma backed_put_negative:
  "inv c \<Longrightarrow> backed cfg reps c \<Longrightarrow> backed cfg reps (put h (negative_entry cfg now) c)"
  unfolding backed_def by (metis cacheEntry.select_convs(1) negative_entry_def put_only)

lemma backed_put_positive:
  assumes "inv c" "backed cfg reps c" "(k, Inr r, now) \<in> set reps" "hash_key k = h" "vr_Valid r"
  shows "backed cfg reps (put h (positive_entry cfg now r) c)"
  using assms unfolding backed_def by (metis put_only)

text \<open>The two parts, as what they do to the cache and which identities they let through.\<close>

lemma auth_begin_frame:
  assumes "auth_begin get now sources a = (p, a')"
  shows "au_cfg a' = au_cfg a"
    "au_cache a' = (if extractKey sources = '''' then au_cache a
       else snd (get (hash_key (extractKey sources)) (au_cache a)))"
  using assms by (auto simp: auth_begin_def Let_def count_def split: if_splits option.splits prod.splits)

lemma auth_begin_accepts:
  assumes "auth_begin get now sources a = (Verdict (Inr d), a')" "inv (au_cache a)"
  obtains e where "lookup (au_cache a) (hash_key (extractKey sources)) = Some e" "ce_valid e"
    "d = entry_data e" "now < ce_freshUntil e"
  using assms get_result [OF assms(2), of "hash_key (extractKey sources)"]
  by (auto simp: auth_begin_def Let_def split: if_splits option.splits prod.splits)

lemma auth_begin_waits:
  "auth_begin get now sources a = (NeedRPC key hash, a') \<Longrightarrow> hash = hash_key key"
  by (auto simp: auth_begin_def Let_def split: if_splits option.splits prod.splits)

lemma auth_finish_cfg: "auth_finish get put now h reply a = (r, a') \<Longrightarrow> au_cfg a' = au_cfg a"
  by (auto simp: auth_finish_def Let_def count_def split: if_splits option.splits prod.splits sum.splits)

lemma auth_finish_cache:
  assumes "auth_finish get put now h reply a = (r, a')" "inv (au_cache a)"
    "backed (au_cfg a) reps (au_cache a)" "(k, reply, now) \<in> set reps" "hash_key k = h"
  shows "inv (au_cache a') \<and> backed (au_cfg a) reps (au_cache a')"
proof (cases reply)
  case (Inl err)
  then have "au_cache a' = snd (get h (au_cache a))"
    using assms(1) by (auto simp: auth_finish_def Let_def count_def split: if_splits option.splits prod.splits)
  then show ?thesis using assms(2,3) by (simp add: get_inv backed_get)
next
  case (Inr resp)
  then have c: "au_cache a' = put h (if vr_Valid resp then positive_entry (au_cfg a) now resp
      else negative_entry (au_cfg a) now) (au_cache a)"
    using assms(1) by (auto simp: auth_finish_def count_def split: if_splits)
  show ?thesis
    using assms Inr by (auto simp: c put_inv backed_put_negative intro!: backed_put_positive)
qed

lemma auth_finish_accepts:
  assumes "auth_finish get put now h reply a = (Inr d, a')" "inv (au_cache a)"
  shows "(\<exists>r. reply = Inr r \<and> vr_Valid r \<and> d = response_data r) \<or>
    (\<exists>e. lookup (au_cache a) h = Some e \<and> ce_valid e \<and> d = entry_data e \<and> now < ce_staleUntil e)"
  using assms get_result [OF assms(2), of h]
  by (auto simp: auth_finish_def Let_def split: if_splits option.splits prod.splits sum.splits)

lemma backed_covers:
  assumes "backed cfg reps c" "lookup c (hash_key k) = Some e" "ce_valid e"
    "now < ce_freshUntil e \<or> now < ce_staleUntil e"
  shows "\<exists>rep \<in> set reps. covers cfg (hash_key k) (entry_data e) now rep"
proof -
  from assms(1-3) obtain k' r t0 where "(k', Inr r, t0) \<in> set reps" "hash_key k' = hash_key k"
    "vr_Valid r" "e = positive_entry cfg t0 r" unfolding backed_def by blast
  then show ?thesis
    using assms(4) by (intro bexI [of _ "(k', Inr r, t0)"]) (auto simp: covers_def positive_entry_def entry_data_def)
qed

lemma gw_step_inv:
  assumes "gw_step get put g g'" "gw_inv g"
  shows "gw_inv g' \<and> au_cfg (gw_auth g') = au_cfg (gw_auth g)"
  using assms
proof cases
  case (arrive_rejected now sources e a)
  with auth_begin_frame [OF arrive_rejected(2)] assms(2) show ?thesis
    by (auto simp: gw_inv_def get_inv backed_get)
next
  case (arrive_accepted now sources d a)
  from assms(2) have i: "inv (au_cache (gw_auth g))" "backed (au_cfg (gw_auth g)) (gw_replies g) (au_cache (gw_auth g))"
    by (auto simp: gw_inv_def)
  obtain e where e: "lookup (au_cache (gw_auth g)) (hash_key (extractKey sources)) = Some e" "ce_valid e"
    "d = entry_data e" "now < ce_freshUntil e"
    using auth_begin_accepts [OF arrive_accepted(2) i(1)] .
  have "\<exists>rep \<in> set (gw_replies g). covers (au_cfg (gw_auth g)) (hash_key (extractKey sources)) d now rep"
    using backed_covers [OF i(2) e(1,2)] e by blast
  with auth_begin_frame [OF arrive_accepted(2)] assms(2) arrive_accepted(1) show ?thesis
    by (auto simp: gw_inv_def get_inv backed_get)
next
  case (arrive_waits now sources key hash a)
  with auth_begin_frame [OF arrive_waits(2)] auth_begin_waits [OF arrive_waits(2)] assms(2) show ?thesis
    by (auto simp: gw_inv_def get_inv backed_get)
next
  case (reply_rejected key hash now reply e a)
  let ?reps = "(key, reply, now) # gw_replies g"
  from assms(2) reply_rejected(2) have i: "inv (au_cache (gw_auth g))"
    "backed (au_cfg (gw_auth g)) ?reps (au_cache (gw_auth g))" "hash_key key = hash"
    by (auto simp: gw_inv_def intro: backed_mono)
  have "inv (au_cache a) \<and> backed (au_cfg (gw_auth g)) ?reps (au_cache a)"
    by (rule auth_finish_cache [OF reply_rejected(3) i(1,2) _ i(3)]) simp
  with auth_finish_cfg [OF reply_rejected(3)] assms(2) reply_rejected(1) show ?thesis
    by (auto simp: gw_inv_def dest!: set_remove1_subset [THEN subsetD])
next
  case (reply_accepted key hash now reply d a)
  let ?reps = "(key, reply, now) # gw_replies g"
  from assms(2) reply_accepted(2) have i: "inv (au_cache (gw_auth g))"
    "backed (au_cfg (gw_auth g)) ?reps (au_cache (gw_auth g))" "hash_key key = hash"
    by (auto simp: gw_inv_def intro: backed_mono)
  have c: "inv (au_cache a) \<and> backed (au_cfg (gw_auth g)) ?reps (au_cache a)"
    by (rule auth_finish_cache [OF reply_accepted(3) i(1,2) _ i(3)]) simp
  have "\<exists>rep \<in> set ?reps. covers (au_cfg (gw_auth g)) (hash_key key) d now rep"
    using auth_finish_accepts [OF reply_accepted(3) i(1)]
  proof
    assume "\<exists>r. reply = Inr r \<and> vr_Valid r \<and> d = response_data r"
    then show ?thesis by (intro bexI [of _ "(key, reply, now)"]) (auto simp: covers_def)
  next
    assume "\<exists>e. lookup (au_cache (gw_auth g)) hash = Some e \<and> ce_valid e \<and> d = entry_data e \<and> now < ce_staleUntil e"
    then show ?thesis using backed_covers [OF i(2), of key] i(3) by blast
  qed
  with c auth_finish_cfg [OF reply_accepted(3)] assms(2) reply_accepted(1) show ?thesis
    by (auto simp: gw_inv_def dest!: set_remove1_subset [THEN subsetD])
qed

lemma gw_reach_inv:
  assumes "(gw_step get put)\<^sup>*\<^sup>* (gw_init a) g" "inv (au_cache a)" "\<And>h. lookup (au_cache a) h = None"
  shows "gw_inv g \<and> au_cfg (gw_auth g) = au_cfg a"
  using assms(1)
proof (induction rule: rtranclp_induct)
  case base
  then show ?case using assms(2,3) by (simp add: gw_inv_def gw_init_def backed_def)
next
  case (step g g')
  then show ?case using gw_step_inv by auto
qed

end

section \<open>The extension with its own cache\<close>

lemma newAuthenticator_empty:
  "0 \<le> cfg_MaxEntries cfg \<Longrightarrow> kc_wf (au_cache (newAuthenticator cfg))"
  "kc_lookup (au_cache (newAuthenticator cfg)) h = None"
  by (simp_all add: newAuthenticator_def newKeyCache_wf)
    (simp add: kc_lookup_def newKeyCache_def kc_abs_def)

lemma gw_reached:
  assumes "(gw_step kc_get kc_put)\<^sup>*\<^sup>* (gw_init (newAuthenticator cfg)) g" "0 \<le> cfg_MaxEntries cfg"
    "(k, d, t) \<in> set (gw_accepted g)"
  shows "\<exists>rep \<in> set (gw_replies g). covers cfg (hash_key k) d t rep"
proof -
  have "key_cache.gw_inv g \<and> au_cfg (gw_auth g) = cfg"
    using key_cache.gw_reach_inv [OF assms(1) newAuthenticator_empty(1) [OF assms(2)] newAuthenticator_empty(2)]
    by (simp add: newAuthenticator_def)
  then show ?thesis using assms(3) by (auto simp: key_cache.gw_inv_def)
qed

section \<open>Properties\<close>

text \<open>C5: over every interleaving of requests and control-plane replies, an identity is handed out
  only for a key whose hash the control plane has confirmed: some earlier reply was positive for a
  key with the same hash, the identity is the one of that reply, and the request is the one the
  reply answers or falls into the reply's lifetime or its stale-on-error window.\<close>

theorem gateway_accepts_confirmed:
  assumes "(gw_step kc_get kc_put)\<^sup>*\<^sup>* (gw_init (newAuthenticator cfg)) g" "0 \<le> cfg_MaxEntries cfg"
    "(k, d, t) \<in> set (gw_accepted g)"
  shows "\<exists>k' r t0. (k', Inr r, t0) \<in> set (gw_replies g) \<and> Sum256 k' = Sum256 k \<and> vr_Valid r \<and>
    d = response_data r \<and> (t = t0 \<or> t < t0 + max (cfg_TTL cfg) (cfg_StaleIfError cfg))"
proof -
  from gw_reached [OF assms] obtain rep where rep: "rep \<in> set (gw_replies g)" "covers cfg (hash_key k) d t rep"
    by blast
  then obtain k' r t0 where rep': "rep = (k', Inr r, t0)"
    by (cases rep; cases "fst (snd rep)") (auto simp: covers_def)
  then have r: "(k', Inr r, t0) \<in> set (gw_replies g)"
    "hash_key k' = hash_key k" "vr_Valid r" "d = response_data r"
    "t = t0 \<or> t < t0 + effective_ttl cfg r \<or> t < t0 + cfg_StaleIfError cfg"
    using rep by (simp_all add: covers_def)
  have "effective_ttl cfg r \<le> cfg_TTL cfg" by (simp add: effective_ttl_def Let_def)
  then have "t = t0 \<or> t < t0 + max (cfg_TTL cfg) (cfg_StaleIfError cfg)" using r(5) by auto
  moreover have "Sum256 k' = Sum256 k" using r(2) by (simp add: hash_key_def hexEncode_inj)
  ultimately show ?thesis using r by blast
qed

definition sample_sources :: "(string \<times> string list) list" where
  "sample_sources = [(''Authorization'', [''Bearer otm_00000000_x''])]"

definition sample_response :: ValidateAPIKeyResponse where
  "sample_response = \<lparr>vr_Valid = True, vr_CustomerId = ''1'', vr_ClientId = ''cust_01'',
     vr_CacheTtlSeconds = 60, vr_RateLimitItemsPerSec = 100\<rparr>"

lemma sample_extract: "extractKey sample_sources = ''otm_00000000_x''"
  by code_simp

lemma sample_gateway_run:
  assumes "vr_Valid resp"
  shows "\<exists>g. (gw_step kc_get kc_put)\<^sup>*\<^sup>* (gw_init (newAuthenticator defaultCacheConfig)) g \<and>
     (''otm_00000000_x'', response_data resp, 5) \<in> set (gw_accepted g) \<and>
     gw_replies g = [(''otm_00000000_x'', Inr resp, 5)]"
proof -
  let ?g0 = "gw_init (newAuthenticator defaultCacheConfig)"
  obtain a where b: "auth_begin kc_get 5 sample_sources (gw_auth ?g0) =
      (NeedRPC ''otm_00000000_x'' (hash_key ''otm_00000000_x''), a)"
    by (simp add: auth_begin_def sample_extract Let_def gw_init_def newAuthenticator_def newKeyCache_def kc_get_def)
  let ?g1 = "?g0\<lparr>gw_auth := a, gw_waiting := (''otm_00000000_x'', hash_key ''otm_00000000_x'', 5) # gw_waiting ?g0\<rparr>"
  have 1: "gw_step kc_get kc_put ?g0 ?g1" by (rule gw_step.arrive_waits [OF b])
  obtain a' where f: "auth_finish kc_get kc_put 5 (hash_key ''otm_00000000_x'') (Inr resp) (gw_auth ?g1)
      = (Inr (response_data resp), a')"
    using assms by (simp add: auth_finish_def)
  have m: "(''otm_00000000_x'', hash_key ''otm_00000000_x'', 5) \<in> set (gw_waiting ?g1)" by simp
  let ?g2 = "?g1\<lparr>gw_auth := a', gw_waiting := remove1 (''otm_00000000_x'', hash_key ''otm_00000000_x'', 5) (gw_waiting ?g1),
    gw_replies := (''otm_00000000_x'', Inr resp, 5) # gw_replies ?g1,
    gw_accepted := (''otm_00000000_x'', response_data resp, 5) # gw_accepted ?g1\<rparr>"
  have 2: "gw_step kc_get kc_put ?g1 ?g2" by (rule gw_step.reply_accepted [OF m f])
  have "(gw_step kc_get kc_put)\<^sup>*\<^sup>* ?g0 ?g2"
    by (rule rtranclp.rtrancl_into_rtrancl [OF r_into_rtranclp]) (fact 1, fact 2)
  then show ?thesis by (intro exI [of _ ?g2]) (simp add: gw_init_def)
qed

theorem gateway_accepts_confirmed_witness:
  "\<exists>g :: keyCache gateway. (''otm_00000000_x'', response_data sample_response, 5) \<in> set (gw_accepted g) \<and>
    (\<exists>k' r t0. (k', Inr r, t0) \<in> set (gw_replies g) \<and> Sum256 k' = Sum256 ''otm_00000000_x'' \<and> vr_Valid r \<and>
    response_data sample_response = response_data r \<and> (5 = t0 \<or> 5 < t0 + max (30 * second) (15 * minute)))"
proof -
  obtain g where g: "(gw_step kc_get kc_put)\<^sup>*\<^sup>* (gw_init (newAuthenticator defaultCacheConfig)) g"
    "(''otm_00000000_x'', response_data sample_response, 5) \<in> set (gw_accepted g)"
    using sample_gateway_run [of sample_response] by (auto simp: sample_response_def)
  have "0 \<le> cfg_MaxEntries defaultCacheConfig" by (simp add: defaultCacheConfig_def)
  from gateway_accepts_confirmed [OF g(1) this g(2)] g(2) show ?thesis
    unfolding defaultCacheConfig_def CacheConfig.select_convs by blast
qed

end
