(* ===== verification/TenantStamp.thy ===== *)
theory TenantStamp
  imports TenantAuth
begin

text \<open>
  The processor that stamps the authenticated identity on every resource,
  \<open>collector/processor/tenantstamp/processor.go\<close>. The attribute map of a resource is
  \<open>pcommon.Map\<close> of the collector's pdata package, which is not part of this repository: its
  operations are arguments, and the properties assume the documented laws \<open>attr_map_laws\<close>. A batch
  of one signal is the list of its resources, each with its attribute map and the telemetry below
  it, of an arbitrary type.
\<close>

record identity =
  id_tenantID :: string
  id_clientID :: string
  id_customerID :: string

record stamper =
  st_dropped :: "string \<Rightarrow> nat"
  st_lastWarnNanos :: int

definition new_stamper :: stamper where
  "new_stamper = \<lparr>st_dropped = (\<lambda>_. 0), st_lastWarnNanos = 0\<rparr>"

definition dropWarnInterval :: duration where
  "dropWarnInterval = 10 * second"

text \<open>A failed type assertion gives the zero value.\<close>

definition attrString :: "(string \<Rightarrow> attr_val) \<Rightarrow> string \<Rightarrow> string" where
  "attrString auth name = (case auth name of VStr s \<Rightarrow> s | _ \<Rightarrow> '''')"

text \<open>\<open>drop\<close> counts the batch and, at most every ten seconds, logs a warning: the second result.\<close>

definition drop_batch :: "time \<Rightarrow> string \<Rightarrow> stamper \<Rightarrow> stamper \<times> bool" where
  "drop_batch now signal s =
    (let s' = s\<lparr>st_dropped := (st_dropped s)(signal := st_dropped s signal + 1)\<rparr>
     in if now - st_lastWarnNanos s \<ge> dropWarnInterval
        then (s'\<lparr>st_lastWarnNanos := now\<rparr>, True)
        else (s', False))"

definition identityFromContext :: "time \<Rightarrow> client_info \<Rightarrow> string \<Rightarrow> stamper \<Rightarrow> identity option \<times> stamper" where
  "identityFromContext now ctx signal s =
    (case ci_Auth ctx of
       None \<Rightarrow> (None, fst (drop_batch now signal s))
     | Some auth \<Rightarrow>
         (let i = \<lparr>id_tenantID = attrString auth AttrTenantID, id_clientID = attrString auth AttrClientID,
                   id_customerID = attrString auth AttrCustomerID\<rparr>
          in if id_tenantID i = '''' then (None, fst (drop_batch now signal s)) else (Some i, s)))"

definition stamp ::
    "(string \<Rightarrow> 'm \<Rightarrow> 'm) \<Rightarrow> (string \<Rightarrow> string \<Rightarrow> 'm \<Rightarrow> 'm) \<Rightarrow> identity \<Rightarrow> 'm \<Rightarrow> 'm" where
  "stamp remove putStr i attrs =
    (let attrs = remove AttrTenantID attrs;
         attrs = remove AttrClientID attrs;
         attrs = remove AttrCustomerID attrs;
         attrs = putStr AttrTenantID (id_tenantID i) attrs;
         attrs = (if id_clientID i \<noteq> '''' then putStr AttrClientID (id_clientID i) attrs else attrs)
     in if id_customerID i \<noteq> '''' then putStr AttrCustomerID (id_customerID i) attrs else attrs)"

text \<open>The three process functions; \<open>ErrSkipProcessingData\<close> makes the pipeline discard the batch.\<close>

datatype process_error = ErrSkipProcessingData

definition stamp_batch ::
    "(string \<Rightarrow> 'm \<Rightarrow> 'm) \<Rightarrow> (string \<Rightarrow> string \<Rightarrow> 'm \<Rightarrow> 'm) \<Rightarrow> string \<Rightarrow> time \<Rightarrow> client_info \<Rightarrow>
     ('m \<times> 'p) list \<Rightarrow> stamper \<Rightarrow> (process_error + ('m \<times> 'p) list) \<times> stamper" where
  "stamp_batch remove putStr signal now ctx batch s =
    (case identityFromContext now ctx signal s of
       (None, s') \<Rightarrow> (Inl ErrSkipProcessingData, s')
     | (Some i, s') \<Rightarrow> (Inr (map (\<lambda>(attrs, p). (stamp remove putStr i attrs, p)) batch), s'))"

definition stamp_processTraces where
  "stamp_processTraces remove putStr = stamp_batch remove putStr ''traces''"

definition stamp_processLogs where
  "stamp_processLogs remove putStr = stamp_batch remove putStr ''logs''"

definition stamp_processMetrics where
  "stamp_processMetrics remove putStr = stamp_batch remove putStr ''metrics''"

section \<open>Laws of the attribute map\<close>

text \<open>The documented behaviour of \<open>pcommon.Map\<close>: \<open>Remove\<close> removes the entry of a key, \<open>PutStr\<close>
  inserts or overwrites it, and neither touches another key.\<close>

definition attr_map_laws ::
    "('m \<Rightarrow> string \<Rightarrow> attr_val option) \<Rightarrow> (string \<Rightarrow> 'm \<Rightarrow> 'm) \<Rightarrow> (string \<Rightarrow> string \<Rightarrow> 'm \<Rightarrow> 'm) \<Rightarrow> bool" where
  "attr_map_laws get remove putStr \<longleftrightarrow>
    (\<forall>m k j. get (remove k m) j = (if j = k then None else get m j)) \<and>
    (\<forall>m k v j. get (putStr k v m) j = (if j = k then Some (VStr v) else get m j))"

lemma attr_names_distinct:
  "AttrTenantID \<noteq> AttrClientID" "AttrTenantID \<noteq> AttrCustomerID" "AttrClientID \<noteq> AttrCustomerID"
  "AttrRateLimitItemsPerSec \<noteq> AttrTenantID" "AttrRateLimitItemsPerSec \<noteq> AttrClientID"
  "AttrRateLimitItemsPerSec \<noteq> AttrCustomerID"
  by (simp_all add: attr_name_defs)

text \<open>What a stamped attribute map holds: the identity under the three names and the client's own
  attributes elsewhere.\<close>

definition nonempty :: "string \<Rightarrow> attr_val option" where
  "nonempty s = (if s = '''' then None else Some (VStr s))"

lemma stamp_get:
  assumes "attr_map_laws get remove putStr" "id_tenantID i \<noteq> ''''"
  shows "get (stamp remove putStr i m) k =
    (if k = AttrTenantID then Some (VStr (id_tenantID i))
     else if k = AttrClientID then nonempty (id_clientID i)
     else if k = AttrCustomerID then nonempty (id_customerID i)
     else get m k)"
proof -
  have r: "get (remove k m) j = (if j = k then None else get m j)"
    and p: "get (putStr k v m) j = (if j = k then Some (VStr v) else get m j)" for m k v j
    using assms(1) unfolding attr_map_laws_def by blast+
  show ?thesis
    using attr_names_distinct by (auto simp: stamp_def Let_def r p nonempty_def)
qed

lemma stamp_batch_Inr:
  assumes "stamp_batch remove putStr sig now ctx batch s = (Inr out, s')"
  obtains auth i where "ci_Auth ctx = Some auth" "s' = s"
    "i = \<lparr>id_tenantID = attrString auth AttrTenantID, id_clientID = attrString auth AttrClientID,
      id_customerID = attrString auth AttrCustomerID\<rparr>" "id_tenantID i \<noteq> ''''"
    "out = map (\<lambda>(attrs, p). (stamp remove putStr i attrs, p)) batch"
  using assms
  by (auto simp: stamp_batch_def identityFromContext_def Let_def split: option.splits if_splits)

lemma attrString_authData:
  "attrString (GetAttribute d) AttrTenantID = ad_tenantID d"
  "attrString (GetAttribute d) AttrClientID = ad_clientID d"
  "attrString (GetAttribute d) AttrCustomerID = ad_customerID d"
  using attr_names_distinct by (simp_all add: attrString_def GetAttribute_def)

text \<open>The identity of an authenticated context.\<close>

lemma identity_of_context:
  "ad_tenantID d \<noteq> '''' \<Longrightarrow>
   identityFromContext now (contextWithAuth ctx d) sig s =
     (Some \<lparr>id_tenantID = ad_tenantID d, id_clientID = ad_clientID d, id_customerID = ad_customerID d\<rparr>, s)"
  by (simp add: identityFromContext_def contextWithAuth_def attrString_authData)

section \<open>Properties\<close>

text \<open>C8: a client cannot choose its identity. Every resource of a batch that passes carries the
  tenant, client and customer of the authenticated context, whatever the client sent under these
  names; all other attributes and the telemetry are untouched; no resource is lost or added.\<close>

theorem stamped_identity_is_authenticated:
  assumes "attr_map_laws get remove putStr"
    and "process = stamp_processTraces remove putStr \<or> process = stamp_processLogs remove putStr \<or>
      process = stamp_processMetrics remove putStr"
    and "process now ctx batch s = (Inr out, s')"
  shows "\<exists>auth. ci_Auth ctx = Some auth \<and> attrString auth AttrTenantID \<noteq> '''' \<and> s' = s \<and>
    map snd out = map snd batch \<and>
    (\<forall>j < length batch.
       get (fst (out ! j)) AttrTenantID = Some (VStr (attrString auth AttrTenantID)) \<and>
       get (fst (out ! j)) AttrClientID = nonempty (attrString auth AttrClientID) \<and>
       get (fst (out ! j)) AttrCustomerID = nonempty (attrString auth AttrCustomerID) \<and>
       (\<forall>k. k \<notin> {AttrTenantID, AttrClientID, AttrCustomerID} \<longrightarrow>
          get (fst (out ! j)) k = get (fst (batch ! j)) k))"
proof -
  obtain sig where "stamp_batch remove putStr sig now ctx batch s = (Inr out, s')"
    using assms(2,3) unfolding stamp_processTraces_def stamp_processLogs_def stamp_processMetrics_def by auto
  then obtain auth i where a: "ci_Auth ctx = Some auth" "s' = s"
    "i = \<lparr>id_tenantID = attrString auth AttrTenantID, id_clientID = attrString auth AttrClientID,
      id_customerID = attrString auth AttrCustomerID\<rparr>" "id_tenantID i \<noteq> ''''"
    "out = map (\<lambda>(attrs, p). (stamp remove putStr i attrs, p)) batch"
    by (rule stamp_batch_Inr)
  have "fst (out ! j) = stamp remove putStr i (fst (batch ! j))" if "j < length batch" for j
    using that by (simp add: a(5) case_prod_beta)
  then show ?thesis
    using a(1-4) attr_names_distinct
    by (intro exI [of _ auth]) (auto simp: stamp_get [OF assms(1)] a(5) case_prod_beta)
qed

text \<open>An association list meets the laws of the attribute map.\<close>

definition list_remove :: "string \<Rightarrow> (string \<times> attr_val) list \<Rightarrow> (string \<times> attr_val) list" where
  "list_remove k m = filter (\<lambda>x. fst x \<noteq> k) m"

definition list_putStr :: "string \<Rightarrow> string \<Rightarrow> (string \<times> attr_val) list \<Rightarrow> (string \<times> attr_val) list" where
  "list_putStr k v m = (k, VStr v) # list_remove k m"

lemma list_attr_map: "attr_map_laws map_of list_remove list_putStr"
  unfolding attr_map_laws_def list_remove_def list_putStr_def
  by (auto simp: map_of_filter_other map_of_eq_None_iff)

definition sample_auth :: authData where
  "sample_auth = \<lparr>ad_tenantID = ''cust_01'', ad_clientID = ''cust_01'', ad_customerID = ''1'',
     ad_rateLimitItemsPerSec = 10\<rparr>"

definition sample_ctx :: client_info where
  "sample_ctx = contextWithAuth \<lparr>ci_Addr = '''', ci_Auth = None\<rparr> sample_auth"

theorem stamped_identity_is_authenticated_witness:
  "\<exists>out s'. stamp_processLogs list_remove list_putStr 0 sample_ctx
      [([(AttrTenantID, VStr ''forged''), (''host'', VStr ''h'')], ())] new_stamper = (Inr out, s') \<and>
    map_of (fst (out ! 0)) AttrTenantID = Some (VStr ''cust_01'') \<and>
    map_of (fst (out ! 0)) ''host'' = Some (VStr ''h'')"
proof -
  let ?b = "[([(AttrTenantID, VStr ''forged''), (''host'', VStr ''h'')], ())]"
  obtain out s' where p: "stamp_processLogs list_remove list_putStr 0 sample_ctx ?b new_stamper = (Inr out, s')"
    by (simp add: stamp_processLogs_def stamp_batch_def sample_ctx_def sample_auth_def identity_of_context)
  have proc: "stamp_processLogs list_remove list_putStr = stamp_processTraces list_remove list_putStr \<or>
      stamp_processLogs list_remove list_putStr = stamp_processLogs list_remove list_putStr \<or>
      stamp_processLogs list_remove list_putStr = stamp_processMetrics list_remove list_putStr" by blast
  have h: "''host'' \<notin> {AttrTenantID, AttrClientID, AttrCustomerID}" by (simp add: attr_name_defs)
  from stamped_identity_is_authenticated [OF list_attr_map proc p] h
  obtain auth where a: "ci_Auth sample_ctx = Some auth"
    "map_of (fst (out ! 0)) AttrTenantID = Some (VStr (attrString auth AttrTenantID))"
    "map_of (fst (out ! 0)) ''host'' = map_of (fst (?b ! 0)) ''host''"
    by (metis length_greater_0_conv list.distinct(1))
  then have "auth = GetAttribute sample_auth" by (simp add: sample_ctx_def contextWithAuth_def)
  then show ?thesis
    using p a(2,3) by (simp add: attrString_authData) (simp add: sample_auth_def attr_name_defs)
qed


end
