(* ===== verification/TenantQuota.thy ===== *)
theory TenantQuota
  imports TenantAuth Complex_Main
begin

text \<open>
  The per-tenant ingest quota, \<open>collector/processor/tenantquota\<close>: the token-bucket registry
  (\<open>bucket.go\<close>), the admission decision (\<open>processor.go\<close>) and the sharing of one registry between
  the three signals (\<open>factory.go\<close>). The \<open>float64\<close> quantities (tokens, capacity, rate, burst) are
  rational numbers here, so the rounding of the floating-point operations is left out; everything
  else is as in the code, the saturation of \<open>Time.Sub\<close> included. The clock reading of a call,
  which the code takes before it locks the registry, is an argument.
\<close>

section \<open>The registry\<close>

definition idleTimeout :: duration where
  "idleTimeout = 10 * minute"

definition gcInterval :: duration where
  "gcInterval = 10 * minute"

record bucket =
  bk_tokens :: rat
  bk_capacity :: rat
  bk_rate :: rat
  bk_lastSeen :: time

record registry =
  rg_burstSeconds :: rat
  rg_buckets :: "(string \<times> bucket) list"
  rg_lastGC :: time

definition newRegistry :: "rat \<Rightarrow> registry" where
  "newRegistry burst = \<lparr>rg_burstSeconds = burst, rg_buckets = [], rg_lastGC = zero_time\<rparr>"

definition Seconds :: "duration \<Rightarrow> rat" where
  "Seconds d = of_int d / of_int second"

definition retryHint :: "rat \<Rightarrow> rat \<Rightarrow> duration" where
  "retryHint deficit rate =
    (let d = \<lfloor>deficit / rate * of_int second\<rfloor>;
         d = (if d < 100 * millisecond then 100 * millisecond else d)
     in if d > 30 * second then 30 * second else d)"

definition maybeGC :: "time \<Rightarrow> registry \<Rightarrow> registry" where
  "maybeGC now r =
    (if time_Sub now (rg_lastGC r) < gcInterval then r
     else r\<lparr>rg_lastGC := now,
            rg_buckets := filter (\<lambda>x. \<not> time_Sub now (bk_lastSeen (snd x)) \<ge> idleTimeout) (rg_buckets r)\<rparr>)"

definition refill :: "time \<Rightarrow> rat \<Rightarrow> rat \<Rightarrow> bucket \<Rightarrow> bucket" where
  "refill now rate capacity b =
    (let dt = Seconds (time_Sub now (bk_lastSeen b));
         tokens = (if dt > 0 then bk_tokens b + dt * bk_rate b else bk_tokens b)
     in \<lparr>bk_tokens = (if tokens > capacity then capacity else tokens), bk_capacity = capacity,
         bk_rate = rate, bk_lastSeen = now\<rparr>)"

definition reg_take :: "string \<Rightarrow> int \<Rightarrow> int \<Rightarrow> time \<Rightarrow> registry \<Rightarrow> (bool \<times> duration) \<times> registry" where
  "reg_take tenant limit n now r =
    (let rate = of_int limit;
         capacity = rate * rg_burstSeconds r;
         r = maybeGC now r;
         b = (case map_of (rg_buckets r) tenant of
                Some b \<Rightarrow> b
              | None \<Rightarrow> \<lparr>bk_tokens = capacity, bk_capacity = capacity, bk_rate = rate, bk_lastSeen = now\<rparr>);
         b = refill now rate capacity b;
         need = of_int n
     in if need \<le> bk_tokens b
        then ((True, 0), r\<lparr>rg_buckets := AList.update tenant (b\<lparr>bk_tokens := bk_tokens b - need\<rparr>) (rg_buckets r)\<rparr>)
        else ((False, retryHint (need - bk_tokens b) rate), r\<lparr>rg_buckets := AList.update tenant b (rg_buckets r)\<rparr>))"

definition reg_size :: "registry \<Rightarrow> nat" where
  "reg_size r = length (rg_buckets r)"

section \<open>Admission\<close>

record quota =
  q_registry :: registry
  q_decisions :: "string \<times> string \<Rightarrow> nat"
  q_rejectedItems :: "string \<times> string \<Rightarrow> int"

definition newQuota :: "rat \<Rightarrow> quota" where
  "newQuota burst = \<lparr>q_registry = newRegistry burst, q_decisions = (\<lambda>_. 0), q_rejectedItems = (\<lambda>_. 0)\<rparr>"

text \<open>\<open>fmt.Sscanf(v, "%d", &n)\<close>: leading blanks are skipped (a newline is an error), then an
  optional sign and at least one digit; the rest is ignored, and a value outside int64 is an
  error.\<close>

fun scan_skip :: "nat \<Rightarrow> string \<Rightarrow> string option" where
  "scan_skip 0 s = Some s"
| "scan_skip (Suc fuel) s =
    (if take 1 s = [CHR 0x0A] \<or> take 2 s = [CHR 0x0D, CHR 0x0A] then None
     else case find (HasPrefix s) space_seqs of
            None \<Rightarrow> Some s
          | Some q \<Rightarrow> scan_skip fuel (drop (length q) s))"

definition digit_value :: "char \<Rightarrow> int" where
  "digit_value c = of_char c - 48"

definition is_digit :: "char \<Rightarrow> bool" where
  "is_digit c \<longleftrightarrow> c \<in> set ''0123456789''"

definition Sscanf_d :: "string \<Rightarrow> int option" where
  "Sscanf_d v =
    (case scan_skip (length v) v of
       None \<Rightarrow> None
     | Some s \<Rightarrow>
         (let neg = (take 1 s = ''-'');
              s' = (if take 1 s = ''-'' \<or> take 1 s = ''+'' then drop 1 s else s);
              ds = takeWhile is_digit s';
              m = foldl (\<lambda>a c. 10 * a + digit_value c) 0 ds;
              i = (if neg then - m else m)
          in if ds = [] \<or> \<not> (- (2 ^ 63) \<le> i \<and> i < 2 ^ 63) then None else Some i))"

definition limitFromAuth :: "(string \<Rightarrow> attr_val) \<Rightarrow> int" where
  "limitFromAuth auth =
    (case auth AttrRateLimitItemsPerSec of
       VInt64 v \<Rightarrow> v
     | VInt v \<Rightarrow> v
     | VInt32 v \<Rightarrow> v
     | VUint32 v \<Rightarrow> v
     | VUint64 v \<Rightarrow> (if v > 2 ^ 62 then 2 ^ 62 else v)
     | VStr s \<Rightarrow> (case Sscanf_d s of Some n \<Rightarrow> n | None \<Rightarrow> 0)
     | VNil \<Rightarrow> 0)"

text \<open>The gRPC status of a rejection: the tenant, the limit, the batch size, the signal and the
  retry delay of its \<open>RetryInfo\<close>.\<close>

datatype admit_error = ResourceExhausted string int int string duration

definition admit :: "client_info \<Rightarrow> string \<Rightarrow> int \<Rightarrow> time \<Rightarrow> quota \<Rightarrow> admit_error option \<times> quota" where
  "admit ctx signal n now q =
    (case ci_Auth ctx of
       None \<Rightarrow> (None, q)
     | Some auth \<Rightarrow>
         (let tenant = (case auth AttrTenantID of VStr s \<Rightarrow> s | _ \<Rightarrow> '''');
              limit = limitFromAuth auth
          in if tenant = '''' \<or> limit \<le> 0 \<or> n = 0 then (None, q)
             else (case reg_take tenant limit n now (q_registry q) of
                 ((allowed, retryAfter), r) \<Rightarrow>
                   (if allowed then
                      (None, q\<lparr>q_registry := r,
                         q_decisions := (q_decisions q)((tenant, ''allowed'') := q_decisions q (tenant, ''allowed'') + 1)\<rparr>)
                    else
                      (Some (ResourceExhausted tenant limit n signal retryAfter),
                       q\<lparr>q_registry := r,
                         q_decisions := (q_decisions q)((tenant, ''rejected'') := q_decisions q (tenant, ''rejected'') + 1),
                         q_rejectedItems := (q_rejectedItems q)((tenant, signal) := q_rejectedItems q (tenant, signal) + n)\<rparr>)))))"

text \<open>A batch passes unchanged or is rejected as a whole; \<open>count_items\<close> is the item count of the
  signal (\<open>LogRecordCount\<close>, \<open>SpanCount\<close>, \<open>DataPointCount\<close>).\<close>

definition quota_process ::
    "string \<Rightarrow> ('b \<Rightarrow> int) \<Rightarrow> client_info \<Rightarrow> 'b \<Rightarrow> time \<Rightarrow> quota \<Rightarrow> (admit_error + 'b) \<times> quota" where
  "quota_process signal count_items ctx batch now q =
    (case admit ctx signal (count_items batch) now q of
       (Some e, q') \<Rightarrow> (Inl e, q')
     | (None, q') \<Rightarrow> (Inr batch, q'))"

definition quota_processLogs where
  "quota_processLogs logRecordCount = quota_process ''logs'' logRecordCount"

definition quota_processTraces where
  "quota_processTraces spanCount = quota_process ''traces'' spanCount"

definition quota_processMetrics where
  "quota_processMetrics dataPointCount = quota_process ''metrics'' dataPointCount"

text \<open>\<open>Config.Validate\<close>.\<close>

definition quota_Config_Validate :: "rat \<Rightarrow> string option" where
  "quota_Config_Validate burst = (if burst \<le> 0 then Some ''burst_seconds must be positive'' else None)"

definition defaultBurstSeconds :: rat where
  "defaultBurstSeconds = 2"

section \<open>One registry for the three signals\<close>

text \<open>The quota objects live at addresses; \<open>sharedQuotas\<close> maps a component ID to one.\<close>

record sharedQuotas =
  sq_quotas :: "(string \<times> nat) list"
  sq_heap :: "quota list"

definition shared_get :: "string \<Rightarrow> rat \<Rightarrow> sharedQuotas \<Rightarrow> nat \<times> sharedQuotas" where
  "shared_get i burst s =
    (case map_of (sq_quotas s) i of
       Some a \<Rightarrow>
         (if a < length (sq_heap s) \<and> rg_burstSeconds (q_registry (sq_heap s ! a)) = burst then (a, s)
          else (length (sq_heap s), s\<lparr>sq_quotas := AList.update i (length (sq_heap s)) (sq_quotas s),
                 sq_heap := sq_heap s @ [newQuota burst]\<rparr>))
     | None \<Rightarrow>
         (length (sq_heap s), s\<lparr>sq_quotas := AList.update i (length (sq_heap s)) (sq_quotas s),
            sq_heap := sq_heap s @ [newQuota burst]\<rparr>))"

section \<open>Buckets stay within their capacity\<close>

definition bucket_wf :: "rat \<Rightarrow> bucket \<Rightarrow> bool" where
  "bucket_wf burst b \<longleftrightarrow> 0 \<le> bk_tokens b \<and> bk_tokens b \<le> bk_capacity b \<and>
     bk_capacity b = bk_rate b * burst \<and> 0 < bk_rate b"

definition registry_wf :: "registry \<Rightarrow> bool" where
  "registry_wf r \<longleftrightarrow> 0 < rg_burstSeconds r \<and> distinct (map fst (rg_buckets r)) \<and>
     (\<forall>x \<in> set (rg_buckets r). bucket_wf (rg_burstSeconds r) (snd x))"

lemma newRegistry_wf: "0 < burst \<Longrightarrow> registry_wf (newRegistry burst)"
  by (simp add: registry_wf_def newRegistry_def)

lemma maybeGC_simps [simp]:
  "rg_burstSeconds (maybeGC now r) = rg_burstSeconds r"
  by (simp add: maybeGC_def)

lemma maybeGC_subset: "set (rg_buckets (maybeGC now r)) \<subseteq> set (rg_buckets r)"
  by (auto simp: maybeGC_def)

lemma maybeGC_distinct: "distinct (map fst (rg_buckets r)) \<Longrightarrow> distinct (map fst (rg_buckets (maybeGC now r)))"
  by (simp add: maybeGC_def distinct_map_filter)

lemma maybeGC_wf: "registry_wf r \<Longrightarrow> registry_wf (maybeGC now r)"
  using maybeGC_subset [of now r] by (auto simp: registry_wf_def maybeGC_distinct)

lemma Seconds_mono: "d \<le> e \<Longrightarrow> Seconds d \<le> Seconds e"
  by (simp add: Seconds_def duration_defs divide_right_mono)

lemma Seconds_0 [simp]: "Seconds 0 = 0"
  by (simp add: Seconds_def)

lemma Seconds_add: "Seconds (d + e) = Seconds d + Seconds e"
  by (simp add: Seconds_def add_divide_distrib)

lemma refill_bounds:
  assumes "0 \<le> bk_tokens b" "0 \<le> bk_rate b" "0 \<le> capacity"
  shows "0 \<le> bk_tokens (refill now rate capacity b)" "bk_tokens (refill now rate capacity b) \<le> capacity"
  using assms by (auto simp: refill_def Let_def)

lemma set_update_subset: "set (AList.update k v xs) \<subseteq> insert (k, v) (set xs)"
  by (induction xs) auto

text \<open>The bucket a call works on: the stored one after the sweep, or a full one.\<close>

definition bucket_for :: "string \<Rightarrow> int \<Rightarrow> time \<Rightarrow> registry \<Rightarrow> bucket" where
  "bucket_for tenant limit now r =
    refill now (of_int limit) (of_int limit * rg_burstSeconds r)
      (case map_of (rg_buckets (maybeGC now r)) tenant of
         Some b \<Rightarrow> b
       | None \<Rightarrow> \<lparr>bk_tokens = of_int limit * rg_burstSeconds r, bk_capacity = of_int limit * rg_burstSeconds r,
                  bk_rate = of_int limit, bk_lastSeen = now\<rparr>)"

lemma reg_take_unfold:
  "reg_take tenant limit n now r =
    (let b = bucket_for tenant limit now r; r' = maybeGC now r
     in if of_int n \<le> bk_tokens b
        then ((True, 0), r'\<lparr>rg_buckets := AList.update tenant (b\<lparr>bk_tokens := bk_tokens b - of_int n\<rparr>) (rg_buckets r')\<rparr>)
        else ((False, retryHint (of_int n - bk_tokens b) (of_int limit)),
              r'\<lparr>rg_buckets := AList.update tenant b (rg_buckets r')\<rparr>))"
  by (simp add: reg_take_def bucket_for_def Let_def)

lemma bucket_for_wf:
  assumes "registry_wf r" "0 < limit"
  shows "bucket_wf (rg_burstSeconds r) (bucket_for tenant limit now r)"
proof -
  let ?cap = "of_int limit * rg_burstSeconds r"
  let ?b = "case map_of (rg_buckets (maybeGC now r)) tenant of Some b \<Rightarrow> b
     | None \<Rightarrow> \<lparr>bk_tokens = ?cap, bk_capacity = ?cap, bk_rate = of_int limit, bk_lastSeen = now\<rparr>"
  have cap: "0 \<le> ?cap" using assms by (simp add: registry_wf_def)
  have "0 \<le> bk_tokens ?b \<and> 0 \<le> bk_rate ?b"
  proof (cases "map_of (rg_buckets (maybeGC now r)) tenant")
    case None
    then show ?thesis using assms cap by simp
  next
    case (Some b)
    then have "(tenant, b) \<in> set (rg_buckets (maybeGC now r))" by (rule map_of_SomeD)
    then have "bucket_wf (rg_burstSeconds r) b"
      using maybeGC_wf [OF assms(1), of now] by (auto simp: registry_wf_def)
    then show ?thesis using Some by (simp add: bucket_wf_def)
  qed
  with refill_bounds [of ?b ?cap now "of_int limit"] cap assms(2) show ?thesis
    unfolding bucket_for_def bucket_wf_def by (simp add: refill_def Let_def)
qed

lemma reg_take_wf:
  assumes "registry_wf r" "0 < limit" "0 \<le> n"
  shows "registry_wf (snd (reg_take tenant limit n now r))"
proof -
  let ?r = "maybeGC now r"
  let ?b = "bucket_for tenant limit now r"
  have b: "bucket_wf (rg_burstSeconds r) ?b" using assms(1,2) by (rule bucket_for_wf)
  have "registry_wf (?r\<lparr>rg_buckets := AList.update tenant b' (rg_buckets ?r)\<rparr>)"
    if "bucket_wf (rg_burstSeconds r) b'" for b'
    using maybeGC_wf [OF assms(1), of now] that set_update_subset [of tenant b' "rg_buckets ?r"]
    by (auto simp: registry_wf_def distinct_update)
  moreover have "of_int n \<le> bk_tokens ?b \<Longrightarrow>
      bucket_wf (rg_burstSeconds r) (?b\<lparr>bk_tokens := bk_tokens ?b - of_int n\<rparr>)"
    using b assms(3) by (simp add: bucket_wf_def)
  ultimately show ?thesis using b by (auto simp: reg_take_unfold Let_def)
qed

text \<open>All or nothing.\<close>

lemma reg_take_bucket:
  "map_of (rg_buckets (snd (reg_take tenant limit n now r))) tenant =
    Some (let b = bucket_for tenant limit now r
          in if fst (fst (reg_take tenant limit n now r)) then b\<lparr>bk_tokens := bk_tokens b - of_int n\<rparr> else b)"
  by (simp add: reg_take_unfold Let_def update_conv')

lemma reg_take_allowed:
  "fst (fst (reg_take tenant limit n now r)) \<longleftrightarrow> of_int n \<le> bk_tokens (bucket_for tenant limit now r)"
  by (simp add: reg_take_unfold Let_def)

lemma retryHint_bounds: "100 * millisecond \<le> retryHint d r \<and> retryHint d r \<le> 30 * second"
  by (auto simp: retryHint_def Let_def duration_defs)

section \<open>The sustained rate\<close>

text \<open>A history of calls: tenant, limit, batch size and clock reading. \<open>admitted T\<close> is the number
  of items of tenant \<open>T\<close> it lets through.\<close>

type_synonym call = "string \<times> int \<times> int \<times> time"

fun admitted :: "string \<Rightarrow> call list \<Rightarrow> registry \<Rightarrow> int" where
  "admitted T [] r = 0"
| "admitted T ((tenant, limit, n, now) # cs) r =
    (case reg_take tenant limit n now r of
       ((ok, _), r') \<Rightarrow> (if ok \<and> tenant = T then n else 0) + admitted T cs r')"

text \<open>What tenant \<open>T\<close> with limit \<open>L\<close> could take at time \<open>t\<close>.\<close>

definition avail :: "string \<Rightarrow> int \<Rightarrow> time \<Rightarrow> registry \<Rightarrow> rat" where
  "avail T L t r =
    (case map_of (rg_buckets r) T of
       None \<Rightarrow> of_int L * rg_burstSeconds r
     | Some b \<Rightarrow> min (of_int L * rg_burstSeconds r) (bk_tokens b + of_int L * Seconds (t - bk_lastSeen b)))"

definition tenant_ok :: "string \<Rightarrow> int \<Rightarrow> time \<Rightarrow> registry \<Rightarrow> bool" where
  "tenant_ok T L t r \<longleftrightarrow> distinct (map fst (rg_buckets r)) \<and>
    (\<forall>b. map_of (rg_buckets r) T = Some b \<longrightarrow>
       0 \<le> bk_tokens b \<and> bk_rate b = of_int L \<and> bk_lastSeen b \<le> t)"

lemma swept_bucket:
  assumes "distinct (map fst xs)"
  shows "map_of (filter Q xs) T = Some b \<longleftrightarrow> map_of xs T = Some b \<and> Q (T, b)"
  using assms by (simp add: map_of_eq_Some_iff distinct_map_filter)

lemma sweep_cases:
  assumes "distinct (map fst xs)"
  shows "map_of (filter Q xs) T = map_of xs T \<or>
    (\<exists>b. map_of xs T = Some b \<and> \<not> Q (T, b) \<and> map_of (filter Q xs) T = None)"
proof (cases "map_of (filter Q xs) T")
  case (Some b)
  then show ?thesis by (simp add: swept_bucket [OF assms])
next
  case None
  then show ?thesis
    using swept_bucket [OF assms, of Q T] by (cases "map_of xs T") simp_all
qed

lemma time_Sub_le: "u \<le> t \<Longrightarrow> time_Sub t u \<le> t - u \<and> 0 \<le> time_Sub t u"
  by (auto simp: time_Sub_def)

lemma avail_later:
  "0 \<le> L \<Longrightarrow> t \<le> t' \<Longrightarrow> avail T L t' r \<le> avail T L t r + of_int L * Seconds (t' - t)"
proof (cases "map_of (rg_buckets r) T")
  case None
  assume "0 \<le> L" "t \<le> t'"
  then have "0 \<le> of_int L * Seconds (t' - t)" using Seconds_mono [of 0 "t' - t"] by simp
  then show ?thesis using None by (simp add: avail_def)
next
  case (Some b)
  assume L: "0 \<le> L" and t: "t \<le> t'"
  have "Seconds (t' - bk_lastSeen b) = Seconds (t - bk_lastSeen b) + Seconds (t' - t)"
    using Seconds_add [of "t - bk_lastSeen b" "t' - t"] by simp
  moreover have "0 \<le> of_int L * Seconds (t' - t)" using L t Seconds_mono [of 0 "t' - t"] by simp
  ultimately show ?thesis using Some by (simp add: avail_def distrib_left)
qed

text \<open>The sweep changes nothing that a tenant could take, provided a bucket fills up within the
  idle timeout.\<close>

lemma avail_GC:
  assumes "tenant_ok T L now r" "0 \<le> L" "rg_burstSeconds r \<le> 600"
  shows "avail T L now (maybeGC now r) = avail T L now r" "tenant_ok T L now (maybeGC now r)"
proof -
  let ?P = "\<lambda>x. \<not> time_Sub now (bk_lastSeen (snd x)) \<ge> idleTimeout"
  have d: "distinct (map fst (rg_buckets r))" using assms(1) by (simp add: tenant_ok_def)
  have full: "of_int L * rg_burstSeconds r \<le> bk_tokens b + of_int L * Seconds (now - bk_lastSeen b)"
    if b: "map_of (rg_buckets r) T = Some b" and idle: "time_Sub now (bk_lastSeen b) \<ge> idleTimeout" for b
  proof -
    have "idleTimeout \<le> now - bk_lastSeen b"
      using b idle time_Sub_le [of "bk_lastSeen b" now] assms(1) by (auto simp: tenant_ok_def)
    then have "600 \<le> Seconds (now - bk_lastSeen b)"
      using Seconds_mono [of idleTimeout] by (simp add: Seconds_def idleTimeout_def duration_defs)
    then have "of_int L * rg_burstSeconds r \<le> of_int L * Seconds (now - bk_lastSeen b)"
      using assms(2,3) by (intro mult_left_mono) auto
    then show ?thesis using b assms(1) by (auto simp: tenant_ok_def)
  qed
  have lookup: "map_of (rg_buckets (maybeGC now r)) T = map_of (rg_buckets r) T \<or>
      (\<exists>b. map_of (rg_buckets r) T = Some b \<and> time_Sub now (bk_lastSeen b) \<ge> idleTimeout \<and>
         map_of (rg_buckets (maybeGC now r)) T = None)"
    using sweep_cases [OF d, of ?P T] by (simp add: maybeGC_def)
  then show "avail T L now (maybeGC now r) = avail T L now r"
    unfolding avail_def maybeGC_simps using full by (auto simp: min_absorb1)
  show "tenant_ok T L now (maybeGC now r)"
    using lookup assms(1) maybeGC_distinct [OF d, of now] by (auto simp: tenant_ok_def)
qed

lemma avail_bucket_for:
  assumes "tenant_ok T L now r" "0 \<le> L"
  shows "bk_tokens (bucket_for T L now r) \<le> avail T L now (maybeGC now r)"
proof (cases "map_of (rg_buckets (maybeGC now r)) T")
  case None
  then show ?thesis by (simp add: bucket_for_def avail_def refill_def Let_def)
next
  case (Some b)
  then have "(T, b) \<in> set (rg_buckets r)" using maybeGC_subset map_of_SomeD by fastforce
  then have b: "map_of (rg_buckets r) T = Some b" using assms(1) by (simp add: tenant_ok_def)
  then have rb: "bk_rate b = of_int L" "bk_lastSeen b \<le> now" using assms(1) by (auto simp: tenant_ok_def)
  have "of_int L * Seconds (time_Sub now (bk_lastSeen b)) \<le> of_int L * Seconds (now - bk_lastSeen b)"
    using time_Sub_le [OF rb(2)] assms(2) by (intro mult_left_mono Seconds_mono) auto
  moreover have "0 \<le> of_int L * Seconds (now - bk_lastSeen b)"
    using rb(2) assms(2) Seconds_mono [of 0 "now - bk_lastSeen b"] by simp
  ultimately show ?thesis
    using Some rb by (auto simp: bucket_for_def avail_def refill_def Let_def mult.commute)
qed

lemma take_own:
  assumes "tenant_ok T L now r" "0 < L" "0 \<le> n" "0 < rg_burstSeconds r" "rg_burstSeconds r \<le> 600"
    and "reg_take T L n now r = ((ok, d), r')"
  shows "(if ok then of_int n else 0) + avail T L now r' \<le> avail T L now r" "tenant_ok T L now r'"
    "rg_burstSeconds r' = rg_burstSeconds r"
proof -
  let ?b = "bucket_for T L now r"
  have L: "0 \<le> L" using assms(2) by simp
  from avail_GC [OF assms(1) L assms(5)] have gc: "avail T L now (maybeGC now r) = avail T L now r"
    "tenant_ok T L now (maybeGC now r)" by auto
  have le: "bk_tokens ?b \<le> avail T L now r" using avail_bucket_for [OF assms(1) L] gc by simp
  have b: "map_of (rg_buckets r') T = Some (if ok then ?b\<lparr>bk_tokens := bk_tokens ?b - of_int n\<rparr> else ?b)"
    using reg_take_bucket [of T L n now r] assms(6) by (simp add: Let_def)
  have ok: "ok \<longleftrightarrow> of_int n \<le> bk_tokens ?b" using reg_take_allowed [of T L n now r] assms(6) by simp
  have seen: "bk_lastSeen ?b = now" "bk_rate ?b = of_int L" by (simp_all add: bucket_for_def refill_def Let_def)
  have nonneg: "0 \<le> bk_tokens ?b"
  proof (cases "map_of (rg_buckets (maybeGC now r)) T")
    case None
    then show ?thesis using assms(2,4) by (simp add: bucket_for_def refill_def Let_def)
  next
    case (Some b')
    then have "0 \<le> bk_tokens b'" "bk_rate b' = of_int L" using gc(2) by (auto simp: tenant_ok_def)
    then show ?thesis
      using Some refill_bounds(1) [of b' "of_int L * rg_burstSeconds r" now "of_int L"] assms(2,4)
      by (simp add: bucket_for_def)
  qed
  show "(if ok then of_int n else 0) + avail T L now r' \<le> avail T L now r"
    using b le seen by (auto simp: avail_def)
  have "distinct (map fst (rg_buckets r'))"
    using assms(6) gc(2) by (auto simp: reg_take_unfold Let_def tenant_ok_def distinct_update split: if_splits)
  then show "tenant_ok T L now r'"
    using b seen ok nonneg by (auto simp: tenant_ok_def)
  show "rg_burstSeconds r' = rg_burstSeconds r"
    using assms(6) by (auto simp: reg_take_unfold Let_def split: if_splits)
qed

lemma take_other:
  assumes "tenant_ok T L now r" "0 < L" "rg_burstSeconds r \<le> 600" "S \<noteq> T"
    and "reg_take S limit n now r = ((ok, d), r')"
  shows "avail T L now r' = avail T L now r" "tenant_ok T L now r'" "rg_burstSeconds r' = rg_burstSeconds r"
proof -
  from avail_GC [OF assms(1) _ assms(3)] assms(2) have gc: "avail T L now (maybeGC now r) = avail T L now r"
    "tenant_ok T L now (maybeGC now r)" by auto
  have m: "map_of (rg_buckets r') T = map_of (rg_buckets (maybeGC now r)) T"
    using assms(4,5) by (auto simp: reg_take_unfold Let_def update_conv' split: if_splits)
  have burst: "rg_burstSeconds r' = rg_burstSeconds r"
    using assms(5) by (auto simp: reg_take_unfold Let_def split: if_splits)
  then show "rg_burstSeconds r' = rg_burstSeconds r" .
  have "avail T L now r' = avail T L now (maybeGC now r)"
    unfolding avail_def m burst maybeGC_simps by (rule refl)
  then show "avail T L now r' = avail T L now r" using gc(1) by simp
  have "distinct (map fst (rg_buckets r'))"
    using assms(5) gc(2) by (auto simp: reg_take_unfold Let_def tenant_ok_def distinct_update split: if_splits)
  then show "tenant_ok T L now r'" using gc(2) m by (simp add: tenant_ok_def)
qed

lemma tenant_ok_later: "tenant_ok T L t r \<Longrightarrow> t \<le> t' \<Longrightarrow> tenant_ok T L t' r"
  by (fastforce simp: tenant_ok_def)

definition calls_ok :: "string \<Rightarrow> int \<Rightarrow> time \<Rightarrow> time \<Rightarrow> call list \<Rightarrow> bool" where
  "calls_ok T L t0 t1 cs \<longleftrightarrow> sorted (map (\<lambda>(_, _, _, now). now) cs) \<and>
    list_all (\<lambda>(tenant, limit, n, now). t0 \<le> now \<and> now \<le> t1 \<and> (tenant = T \<longrightarrow> limit = L \<and> 0 \<le> n)) cs"

lemma admitted_bound:
  assumes "calls_ok T L t0 t1 cs" "t0 \<le> t1" "tenant_ok T L t0 r" "0 < L"
    "0 < rg_burstSeconds r" "rg_burstSeconds r \<le> 600"
  shows "of_int (admitted T cs r) \<le> avail T L t0 r + of_int L * Seconds (t1 - t0)"
  using assms
proof (induction cs arbitrary: r t0)
  case Nil
  have "0 \<le> of_int L * Seconds (t1 - t0)" using Nil Seconds_mono [of 0 "t1 - t0"] by simp
  moreover have "0 \<le> avail T L t0 r"
  proof (cases "map_of (rg_buckets r) T")
    case (Some b)
    then show ?thesis using Nil(3-5) Seconds_mono [of 0 "t0 - bk_lastSeen b"] by (auto simp: avail_def tenant_ok_def)
  qed (use Nil in \<open>simp add: avail_def\<close>)
  ultimately show ?case by simp
next
  case (Cons c cs)
  obtain S limit n now where c: "c = (S, limit, n, now)" by (metis prod_cases4)
  obtain x r' where x: "reg_take S limit n now r = (x, r')" by fastforce
  obtain ok d where "x = (ok, d)" by fastforce
  with x have tk: "reg_take S limit n now r = ((ok, d), r')" by simp
  from Cons.prems(1) have now: "t0 \<le> now" "now \<le> t1" and rest: "calls_ok T L now t1 cs"
    by (auto simp: calls_ok_def c list_all_iff)
  have tn: "tenant_ok T L now r" using Cons.prems(3) now(1) by (rule tenant_ok_later)
  have step: "(if ok \<and> S = T then of_int n else 0) + avail T L now r' \<le> avail T L now r \<and> tenant_ok T L now r'
      \<and> rg_burstSeconds r' = rg_burstSeconds r"
  proof (cases "S = T")
    case True
    then have "limit = L" "0 \<le> n" using Cons.prems(1) by (auto simp: calls_ok_def c)
    with tk True have "reg_take T L n now r = ((ok, d), r')" by simp
    from take_own [OF tn Cons.prems(4) \<open>0 \<le> n\<close> Cons.prems(5,6) this] True show ?thesis by simp
  next
    case False
    then show ?thesis using take_other [OF tn Cons.prems(4,6) False tk] by simp
  qed
  then have "of_int (admitted T cs r') \<le> avail T L now r' + of_int L * Seconds (t1 - now)"
    using Cons.IH [OF rest now(2)] Cons.prems(4-6) by simp
  moreover have "avail T L now r \<le> avail T L t0 r + of_int L * Seconds (now - t0)"
    using Cons.prems(4) now by (intro avail_later) auto
  moreover have "of_int L * Seconds (t1 - t0) = of_int L * Seconds (now - t0) + of_int L * Seconds (t1 - now)"
    using Seconds_add [of "now - t0" "t1 - now"] by (simp add: distrib_left)
  moreover have "of_int (admitted T (c # cs) r) =
      (if ok \<and> S = T then of_int n else 0) + (of_int (admitted T cs r') :: rat)" by (simp add: c tk)
  ultimately show ?case
    using step by linarith
qed

lemma maybeGC_lookup:
  "registry_wf r \<Longrightarrow> map_of (rg_buckets (maybeGC now r)) k \<in> {None, map_of (rg_buckets r) k}"
  using sweep_cases [of "rg_buckets r" "\<lambda>x. \<not> time_Sub now (bk_lastSeen (snd x)) \<ge> idleTimeout" k]
  by (auto simp: maybeGC_def registry_wf_def)

section \<open>Properties\<close>



text \<open>C12: one call is all or nothing and touches one bucket. It is allowed exactly when the
  refilled bucket holds the whole batch, then takes exactly the batch from it and otherwise nothing;
  the other buckets are kept or dropped by the idle sweep, never changed; every bucket stays between
  empty and its capacity of limit times burst; a rejection asks the client to wait between 100 ms and
  30 s.\<close>

theorem take_all_or_nothing:
  assumes "registry_wf r" "0 < limit" "0 \<le> n" "reg_take tenant limit n now r = ((allowed, wait), r')"
  shows "registry_wf r'
    \<and> (allowed \<longleftrightarrow> of_int n \<le> bk_tokens (bucket_for tenant limit now r))
    \<and> map_option bk_tokens (map_of (rg_buckets r') tenant) =
        Some (bk_tokens (bucket_for tenant limit now r) - (if allowed then of_int n else 0))
    \<and> (\<forall>other. other \<noteq> tenant \<longrightarrow> map_of (rg_buckets r') other \<in> {None, map_of (rg_buckets r) other})
    \<and> (if allowed then wait = 0 else 100 * millisecond \<le> wait \<and> wait \<le> 30 * second)"
proof (intro conjI allI impI)
  show "registry_wf r'" using reg_take_wf [OF assms(1-3), of tenant now] assms(4) by simp
  show "allowed \<longleftrightarrow> of_int n \<le> bk_tokens (bucket_for tenant limit now r)"
    using reg_take_allowed [of tenant limit n now r] assms(4) by simp
  show "map_option bk_tokens (map_of (rg_buckets r') tenant) =
      Some (bk_tokens (bucket_for tenant limit now r) - (if allowed then of_int n else 0))"
    using reg_take_bucket [of tenant limit n now r] assms(4) by (simp add: Let_def)
  show "map_of (rg_buckets r') other \<in> {None, map_of (rg_buckets r) other}" if "other \<noteq> tenant" for other
    using assms(4) that maybeGC_lookup [OF assms(1), of now other]
    by (auto simp: reg_take_unfold Let_def update_conv' split: if_splits)
  show "if allowed then wait = 0 else 100 * millisecond \<le> wait \<and> wait \<le> 30 * second"
    using assms(4) retryHint_bounds by (auto simp: reg_take_unfold Let_def split: if_splits)
qed

theorem take_all_or_nothing_witness:
  "\<exists>wait r'. reg_take ''a'' 10 21 0 (newRegistry 2) = ((False, wait), r') \<and>
     map_option bk_tokens (map_of (rg_buckets r') ''a'') = Some 20 \<and> 100 * millisecond \<le> wait"
proof -
  have b: "bk_tokens (bucket_for ''a'' 10 0 (newRegistry 2)) = 20"
    by (simp add: bucket_for_def newRegistry_def maybeGC_def refill_def Let_def time_Sub_def)
  then obtain wait r' where r': "reg_take ''a'' 10 21 0 (newRegistry 2) = ((False, wait), r')"
    by (simp add: reg_take_unfold Let_def)
  have "registry_wf (newRegistry 2)" by (simp add: newRegistry_wf)
  from take_all_or_nothing [OF this _ _ r'] b r' show ?thesis by simp
qed


end
