(* ===== verification/StoreUsers.thy ===== *)
theory StoreUsers
  imports StoreTenants "HOL-Library.List_Lexorder" "HOL-Library.Char_ord"
begin

text \<open>
  Users, their identities and customer grants: \<open>internal/store/pg_users.go\<close> and the user part of
  \<open>internal/store/pg.go\<close>. Text is ordered by its bytes and lowered as ASCII, the behaviour of the C
  collation; the order in which an aggregate without \<open>ORDER BY\<close> collects its rows is the order of the
  table.
\<close>

section \<open>Operations\<close>

record UserWithIdentities = User +
  uwi_Identities :: "string list"
  uwi_CustomerIDs :: "uuid list"

record UserUpdate =
  uu_Role :: "string option"
  uu_Disabled :: "bool option"

definition sql_lower :: "string \<Rightarrow> string" where
  "sql_lower s = map lower_byte s"

text \<open>\<open>userWithIdentitiesQuery\<close>: one user with the aggregated columns.\<close>

definition with_identities :: "db \<Rightarrow> User \<Rightarrow> UserWithIdentities" where
  "with_identities db u = User.extend u (UserWithIdentities.fields
     (sort (map idn_Provider (filter (\<lambda>i. idn_UserID i = u_ID u) (user_identities db))))
     (map snd (filter (\<lambda>g. fst g = u_ID u) (user_customer_grants db))))"

definition pg_GetUser :: "uuid \<Rightarrow> db \<Rightarrow> store_error + User" where
  "pg_GetUser i db = (case find (\<lambda>u. u_ID u = i) (users db) of
      None \<Rightarrow> Inl ErrNotFound
    | Some u \<Rightarrow> Inr u)"

definition pg_GetUserByEmail :: "string \<Rightarrow> db \<Rightarrow> store_error + UserWithIdentities" where
  "pg_GetUserByEmail email db =
    (case find (\<lambda>u. sql_lower (u_Email u) = sql_lower email) (users db) of
       None \<Rightarrow> Inl ErrNotFound
     | Some u \<Rightarrow> Inr (with_identities db u))"

definition pg_GetUserWithIdentities :: "uuid \<Rightarrow> db \<Rightarrow> store_error + UserWithIdentities" where
  "pg_GetUserWithIdentities i db = (case find (\<lambda>u. u_ID u = i) (users db) of
      None \<Rightarrow> Inl ErrNotFound
    | Some u \<Rightarrow> Inr (with_identities db u))"

definition pg_ListUsers :: "db \<Rightarrow> UserWithIdentities list" where
  "pg_ListUsers db = map (with_identities db) (sort_key (\<lambda>u. (u_CreatedAt u, u_ID u)) (users db))"

definition pg_ListUserCustomerIDs :: "uuid \<Rightarrow> db \<Rightarrow> uuid list" where
  "pg_ListUserCustomerIDs userID db =
    map snd (filter (\<lambda>g. fst g = userID) (user_customer_grants db))"

text \<open>\<open>INSERT INTO users\<close>. A row that repeats the ID or has an unknown role is refused with the generic
  error; \<open>users_email_key\<close> is checked before \<open>users_external_id_key\<close>.\<close>

definition new_user_row ::
    "time \<Rightarrow> uuid \<Rightarrow> string \<Rightarrow> string option \<Rightarrow> string \<Rightarrow> string option \<Rightarrow> User" where
  "new_user_row now i email displayName role externalID = \<lparr>u_ID = i, u_Email = email,
     u_DisplayName = displayName, u_Role = role, u_ExternalID = externalID, u_DisabledAt = None,
     u_LastLoginAt = None, u_CreatedAt = now\<rparr>"

definition insert_user :: "store_error \<Rightarrow> User \<Rightarrow> db \<Rightarrow> store_error + db" where
  "insert_user err u db =
    (if \<not> role_ok (u_Role u) then Inl err
     else if u_ID u \<in> set (user_ids db) then Inl err
     else if u_Email u \<in> set (map u_Email (users db)) then Inl ErrEmailExists
     else if u_ExternalID u \<noteq> None \<and> u_ExternalID u \<in> set (map u_ExternalID (users db)) then Inl ErrConflict
     else Inr (db\<lparr>users := users db @ [u]\<rparr>))"

definition pg_CreateSCIMUser ::
    "time \<Rightarrow> uuid \<Rightarrow> string \<Rightarrow> string \<Rightarrow> string option \<Rightarrow> string option \<Rightarrow> Entry list \<Rightarrow> db \<Rightarrow>
     (store_error + UserWithIdentities) \<times> db" where
  "pg_CreateSCIMUser now i email role displayName externalID entries = inTx (\<lambda>db.
    let u = new_user_row now i email displayName role externalID
    in case insert_user (ErrDB ''insert scim user'') u db of
         Inl e \<Rightarrow> Inl e
       | Inr db1 \<Rightarrow> commit now entries (\<lambda>db2. with_identities db2 u) db1)"

definition pg_CreateInvitedUser ::
    "time \<Rightarrow> uuid \<Rightarrow> string \<Rightarrow> string \<Rightarrow> Entry list \<Rightarrow> db \<Rightarrow> (store_error + User) \<times> db" where
  "pg_CreateInvitedUser now i email role entries = inTx (\<lambda>db.
    let u = new_user_row now i email None role None
    in case insert_user (ErrDB ''insert invited user'') u db of
         Inl e \<Rightarrow> Inl e
       | Inr db1 \<Rightarrow> commit now entries (\<lambda>_. u) db1)"

text \<open>An UPDATE of one user; the row is read back after it.\<close>

definition upd_user :: "uuid \<Rightarrow> (User \<Rightarrow> User) \<Rightarrow> db \<Rightarrow> db" where
  "upd_user i f db = db\<lparr>users := upd_where (\<lambda>u. u_ID u = i) f (users db)\<rparr>"

definition pg_UpdateSCIMUser ::
    "time \<Rightarrow> uuid \<Rightarrow> string option \<Rightarrow> string option \<Rightarrow> Entry list \<Rightarrow> db \<Rightarrow>
     (store_error + UserWithIdentities) \<times> db" where
  "pg_UpdateSCIMUser now i displayName externalID entries = inTx (\<lambda>db.
    case find (\<lambda>u. u_ID u = i) (users db) of
      None \<Rightarrow> Inl ErrNotFound
    | Some u \<Rightarrow>
        (if externalID \<noteq> None \<and> list_ex (\<lambda>v. u_ID v \<noteq> i \<and> u_ExternalID v = externalID) (users db)
         then Inl (ErrDB ''update scim user'')
         else (let f = (\<lambda>u. u\<lparr>u_DisplayName := displayName, u_ExternalID := externalID\<rparr>)
               in commit now entries (\<lambda>db2. with_identities db2 (f u)) (upd_user i f db))))"

definition add_grant :: "uuid \<Rightarrow> uuid \<Rightarrow> (uuid \<times> uuid) list \<Rightarrow> (uuid \<times> uuid) list" where
  "add_grant userID cid gs = (if (userID, cid) \<in> set gs then gs else gs @ [(userID, cid)])"

fun insert_grants :: "uuid \<Rightarrow> uuid list \<Rightarrow> db \<Rightarrow> store_error + db" where
  "insert_grants userID [] db = Inr db"
| "insert_grants userID (cid # cids) db =
    (if cid \<notin> set (customer_ids db) then Inl ErrNotFound
     else insert_grants userID cids
       (db\<lparr>user_customer_grants := add_grant userID cid (user_customer_grants db)\<rparr>))"

definition pg_SetUserCustomerGrants ::
    "time \<Rightarrow> uuid \<Rightarrow> uuid list \<Rightarrow> Entry list \<Rightarrow> db \<Rightarrow> (store_error + unit) \<times> db" where
  "pg_SetUserCustomerGrants now userID customerIDs entries = inTx (\<lambda>db.
    if userID \<notin> set (user_ids db) then Inl ErrNotFound
    else (case insert_grants userID customerIDs
              (db\<lparr>user_customer_grants := filter (\<lambda>g. fst g \<noteq> userID) (user_customer_grants db)\<rparr>) of
            Inl e \<Rightarrow> Inl e
          | Inr db1 \<Rightarrow> commit now entries (\<lambda>_. ()) db1))"

text \<open>The first part of \<open>UpsertUserByIdentity\<close> finds the user of an identity, or attaches the identity to
  the user with the email or to a new one; \<open>newID\<close> is the ID the database generates for a new row.\<close>

definition identity_user :: "string \<Rightarrow> string \<Rightarrow> db \<Rightarrow> User option" where
  "identity_user provider subject db =
    find (\<lambda>u. list_ex (\<lambda>i. idn_UserID i = u_ID u \<and> idn_Provider i = provider \<and> idn_Subject i = subject)
      (user_identities db)) (users db)"

definition insert_identity :: "string \<Rightarrow> string \<Rightarrow> User \<Rightarrow> db \<Rightarrow> store_error + User \<times> db" where
  "insert_identity provider subject u db =
    (if list_ex (\<lambda>i. idn_Provider i = provider \<and> idn_Subject i = subject) (user_identities db)
     then Inl (ErrDB ''insert identity'')
     else Inr (u, db\<lparr>user_identities := user_identities db @
       [\<lparr>idn_UserID = u_ID u, idn_Provider = provider, idn_Subject = subject\<rparr>]\<rparr>))"

definition resolve_user ::
    "time \<Rightarrow> uuid \<Rightarrow> string \<Rightarrow> string \<Rightarrow> string \<Rightarrow> string option \<Rightarrow> string \<Rightarrow> db \<Rightarrow>
     store_error + User \<times> db" where
  "resolve_user now newID provider subject email displayName roleIfNew db =
    (case identity_user provider subject db of
       Some u \<Rightarrow> Inr (u, db)
     | None \<Rightarrow>
         (case find (\<lambda>u. u_Email u = email) (users db) of
            Some u \<Rightarrow> insert_identity provider subject u db
          | None \<Rightarrow>
              (let u = new_user_row now newID email displayName roleIfNew None
               in case insert_user (ErrDB ''insert user'') u db of
                    Inl e \<Rightarrow> Inl e
                  | Inr db1 \<Rightarrow> insert_identity provider subject u db1)))"

definition pg_UpsertUserByIdentity ::
    "time \<Rightarrow> uuid \<Rightarrow> string \<Rightarrow> string \<Rightarrow> string \<Rightarrow> string option \<Rightarrow> string \<Rightarrow> db \<Rightarrow>
     (store_error + User) \<times> db" where
  "pg_UpsertUserByIdentity now newID provider subject email displayName roleIfNew = inTx (\<lambda>db.
    case resolve_user now newID provider subject email displayName roleIfNew db of
      Inl e \<Rightarrow> Inl e
    | Inr (u, db1) \<Rightarrow>
        (let role = (if roleIfNew = ''admin'' then ''admin'' else u_Role u);
             f = (\<lambda>u. u\<lparr>u_Role := role, u_LastLoginAt := Some now\<rparr>)
         in Inr (f u, upd_user (u_ID u) f db1)))"

definition ensureEnabledAdminRemains :: "db \<Rightarrow> store_error + unit" where
  "ensureEnabledAdminRemains db =
    (if length (filter (\<lambda>u. u_Role u = ''admin'' \<and> u_DisabledAt u = None) (users db)) = 0
     then Inl ErrLastAdmin else Inr ())"

text \<open>\<open>position(s in data) > 0\<close>.\<close>

definition occurs_in :: "bytes \<Rightarrow> bytes \<Rightarrow> bool" where
  "occurs_in s data \<longleftrightarrow> list_ex (\<lambda>n. HasPrefix (drop n data) s) [0..<Suc (length data)]"

definition deleteSessionsByUser :: "uuid \<Rightarrow> db \<Rightarrow> db" where
  "deleteSessionsByUser i db =
    db\<lparr>sessions := filter (\<lambda>s. \<not> occurs_in (uuid_String i) (ses_Data s)) (sessions db)\<rparr>"

definition apply_disabled :: "time \<Rightarrow> uuid \<Rightarrow> bool option \<Rightarrow> db \<Rightarrow> db" where
  "apply_disabled now i d db = (case d of
      None \<Rightarrow> db
    | Some True \<Rightarrow> deleteSessionsByUser i
        (upd_user i (\<lambda>u. u\<lparr>u_DisabledAt := Some (coalesce (u_DisabledAt u) now)\<rparr>) db)
    | Some False \<Rightarrow> upd_user i (\<lambda>u. u\<lparr>u_DisabledAt := None\<rparr>) db)"

definition pg_UpdateUserAdmin ::
    "time \<Rightarrow> uuid \<Rightarrow> UserUpdate \<Rightarrow> Entry list \<Rightarrow> db \<Rightarrow> (store_error + UserWithIdentities) \<times> db" where
  "pg_UpdateUserAdmin now i upd entries = inTx (\<lambda>db.
    case pg_GetUser i db of
      Inl e \<Rightarrow> Inl ErrNotFound
    | Inr _ \<Rightarrow>
        (if \<not> (case uu_Role upd of None \<Rightarrow> True | Some r \<Rightarrow> role_ok r) then Inl (ErrDB ''update role'')
         else (let db1 = (case uu_Role upd of
                   None \<Rightarrow> db
                 | Some r \<Rightarrow> upd_user i (\<lambda>u. u\<lparr>u_Role := r\<rparr>) db);
                   db2 = apply_disabled now i (uu_Disabled upd) db1
               in case ensureEnabledAdminRemains db2 of
                    Inl e \<Rightarrow> Inl e
                  | Inr _ \<Rightarrow> (case commit now entries (pg_GetUserWithIdentities i) db2 of
                      Inl e \<Rightarrow> Inl e
                    | Inr (Inl e, _) \<Rightarrow> Inl e
                    | Inr (Inr u, db3) \<Rightarrow> Inr (u, db3)))))"

text \<open>A reference without \<open>ON DELETE\<close> to a user keeps the row from being deleted.\<close>

definition user_referenced :: "uuid \<Rightarrow> db \<Rightarrow> bool" where
  "user_referenced i db \<longleftrightarrow>
    list_ex (\<lambda>k. ak_CreatedBy k = Some i) (api_keys db) \<or>
    list_ex (\<lambda>v. pv_CreatedBy v = Some i) (pipeline_versions db) \<or>
    list_ex (\<lambda>t. bt_CreatedBy t = Some i) (bootstrap_tokens db) \<or>
    list_ex (\<lambda>w. wh_CreatedBy w = Some i) (webhooks db) \<or>
    list_ex (\<lambda>t. pat_CreatedBy t = Some i) (api_tokens db) \<or>
    (case billing_settings db of None \<Rightarrow> False | Some b \<Rightarrow> bs_UpdatedBy b = Some i)"

definition detach_created_by :: "uuid \<Rightarrow> db \<Rightarrow> db" where
  "detach_created_by i db = db\<lparr>
     api_keys := upd_where (\<lambda>k. ak_CreatedBy k = Some i) (\<lambda>k. k\<lparr>ak_CreatedBy := None\<rparr>) (api_keys db),
     pipeline_versions := upd_where (\<lambda>v. pv_CreatedBy v = Some i) (\<lambda>v. v\<lparr>pv_CreatedBy := None\<rparr>)
       (pipeline_versions db),
     bootstrap_tokens := upd_where (\<lambda>t. bt_CreatedBy t = Some i) (\<lambda>t. t\<lparr>bt_CreatedBy := None\<rparr>)
       (bootstrap_tokens db)\<rparr>"

definition delete_user_row :: "uuid \<Rightarrow> db \<Rightarrow> db" where
  "delete_user_row i db = db\<lparr>users := filter (\<lambda>u. u_ID u \<noteq> i) (users db),
     user_identities := filter (\<lambda>x. idn_UserID x \<noteq> i) (user_identities db),
     user_customer_grants := filter (\<lambda>g. fst g \<noteq> i) (user_customer_grants db)\<rparr>"

definition pg_DeleteUser :: "time \<Rightarrow> uuid \<Rightarrow> Entry list \<Rightarrow> db \<Rightarrow> (store_error + unit) \<times> db" where
  "pg_DeleteUser now i entries = inTx (\<lambda>db.
    let db1 = detach_created_by i db
    in if i \<notin> set (user_ids db1) then Inl ErrNotFound
       else if user_referenced i db1 then Inl (ErrDB ''delete user'')
       else (let db2 = delete_user_row i db1
             in case ensureEnabledAdminRemains db2 of
                  Inl e \<Rightarrow> Inl e
                | Inr _ \<Rightarrow> commit now entries (\<lambda>_. ()) (deleteSessionsByUser i db2)))"

section \<open>The constraints are kept\<close>

lemma insert_user_Inr:
  "insert_user e u db = Inr db' \<longleftrightarrow>
   role_ok (u_Role u) \<and> u_ID u \<notin> set (user_ids db) \<and> u_Email u \<notin> set (map u_Email (users db)) \<and>
   (u_ExternalID u \<noteq> None \<longrightarrow> u_ExternalID u \<notin> set (map u_ExternalID (users db))) \<and>
   db' = db\<lparr>users := users db @ [u]\<rparr>"
  by (auto simp: insert_user_def)

lemma insert_user_wf:
  assumes "insert_user e u db = Inr db'" "db_wf db"
  shows "db_wf db'"
proof -
  have "users_wf (users db @ [u])"
    using assms(1) db_wfD(2) [OF assms(2)] by (auto simp: insert_user_Inr users_wf_def id_list_defs)
  with assms(1) show ?thesis
    unfolding insert_user_Inr by (auto simp: id_list_defs intro!: db_wf_users [OF assms(2)])
qed

text \<open>An update that keeps the unique columns and the role's domain.\<close>

lemma upd_user_wf:
  assumes "db_wf db"
    and "\<And>u. u_ID (f u) = u_ID u \<and> u_Email (f u) = u_Email u \<and> u_ExternalID (f u) = u_ExternalID u \<and>
           (role_ok (u_Role u) \<longrightarrow> role_ok (u_Role (f u)))"
  shows "db_wf (upd_user i f db)"
proof -
  have "users_wf (upd_where (\<lambda>u. u_ID u = i) f (users db))"
    using db_wfD(2) [OF assms(1)] assms(2)
    by (auto simp: users_wf_def list_all_iff set_upd_where)
  then show ?thesis
    unfolding upd_user_def using assms(2)
    by (intro db_wf_users [OF assms(1)]) (simp_all add: id_list_defs)
qed

lemma deleteSessionsByUser_wf: "db_wf db \<Longrightarrow> db_wf (deleteSessionsByUser i db)"
  unfolding deleteSessionsByUser_def by (rule db_wf_sessions)

lemma apply_disabled_wf: "db_wf db \<Longrightarrow> db_wf (apply_disabled now i d db)"
  unfolding apply_disabled_def
  by (auto split: option.split bool.split intro!: deleteSessionsByUser_wf upd_user_wf)

lemma pg_CreateSCIMUser_wf [inv_intros]:
  "db_wf db \<Longrightarrow> db_wf (snd (pg_CreateSCIMUser now i email role dn ext es db))"
  unfolding pg_CreateSCIMUser_def Let_def
  by (rule inTx_wf) (auto split: sum.splits dest: insert_user_wf commit_wf)

lemma pg_CreateInvitedUser_wf [inv_intros]:
  "db_wf db \<Longrightarrow> db_wf (snd (pg_CreateInvitedUser now i email role es db))"
  unfolding pg_CreateInvitedUser_def Let_def
  by (rule inTx_wf) (auto split: sum.splits dest: insert_user_wf commit_wf)

text \<open>Replacing the optional external ID of one user by one no other user has.\<close>

lemma external_ids_upd:
  assumes "distinct (map u_ID us)" "distinct (filter (\<lambda>e. e \<noteq> None) (map u_ExternalID us))"
    and "e \<noteq> None \<Longrightarrow> \<forall>v \<in> set us. u_ID v \<noteq> i \<longrightarrow> u_ExternalID v \<noteq> e"
  shows "distinct (filter (\<lambda>e. e \<noteq> None)
    (map u_ExternalID (upd_where (\<lambda>u. u_ID u = i) (\<lambda>u. u\<lparr>u_DisplayName := d, u_ExternalID := e\<rparr>) us)))"
  using assms
proof (induction us)
  case Nil
  then show ?case by simp
next
  case (Cons u us)
  let ?f = "\<lambda>u. u\<lparr>u_DisplayName := d, u_ExternalID := e\<rparr>"
  have ih: "distinct (filter (\<lambda>e. e \<noteq> None) (map u_ExternalID (upd_where (\<lambda>u. u_ID u = i) ?f us)))"
    using Cons by (auto split: if_splits)
  show ?case
  proof (cases "u_ID u = i")
    case True
    then have others: "\<forall>v \<in> set us. u_ID v \<noteq> i" using Cons.prems(1) by (auto simp: image_iff)
    then have "upd_where (\<lambda>u. u_ID u = i) ?f us = us" by (intro upd_where_False) simp
    moreover have "e \<noteq> None \<Longrightarrow> e \<notin> u_ExternalID ` set us" using Cons.prems(3) others by auto
    moreover have "distinct (filter (\<lambda>e. e \<noteq> None) (map u_ExternalID us))"
      using Cons.prems(2) by (simp split: if_splits)
    ultimately show ?thesis using True by simp
  next
    case False
    have "u_ExternalID u \<notin> set (map u_ExternalID (upd_where (\<lambda>u. u_ID u = i) ?f us))"
      if n: "u_ExternalID u \<noteq> None"
    proof -
      have "u_ExternalID u \<noteq> e" using Cons.prems(3) False n by auto
      moreover have "u_ExternalID u \<notin> set (map u_ExternalID us)" using Cons.prems(2) n by auto
      ultimately show ?thesis by (auto simp: set_upd_where)
    qed
    with False ih show ?thesis by auto
  qed
qed

lemma pg_UpdateSCIMUser_wf [inv_intros]:
  assumes "db_wf db"
  shows "db_wf (snd (pg_UpdateSCIMUser now i dn ext es db))"
  unfolding pg_UpdateSCIMUser_def Let_def
proof (rule inTx_wf [OF assms], goal_cases)
  case (1 x db')
  let ?f = "\<lambda>u. u\<lparr>u_DisplayName := dn, u_ExternalID := ext\<rparr>"
  let ?us = "upd_where (\<lambda>u. u_ID u = i) ?f (users db)"
  from 1 obtain u where no: "\<not> (ext \<noteq> None \<and> list_ex (\<lambda>v. u_ID v \<noteq> i \<and> u_ExternalID v = ext) (users db))"
    and w: "commit now es (\<lambda>db2. with_identities db2 (?f u)) (upd_user i ?f db) = Inr (x, db')"
    by (auto split: option.splits if_splits)
  have us: "users_wf (users db)" using db_wfD(2) [OF assms] .
  have "distinct (filter (\<lambda>e. e \<noteq> None) (map u_ExternalID ?us))"
    using us no by (intro external_ids_upd) (auto simp: users_wf_def list_ex_iff)
  with us have "users_wf ?us" by (auto simp: users_wf_def list_all_iff set_upd_where)
  then have "db_wf (upd_user i ?f db)"
    unfolding upd_user_def by (intro db_wf_users [OF assms]) (simp_all add: id_list_defs)
  with w show ?case by (rule commit_wf)
qed

lemma insert_grants_wf:
  "insert_grants userID cids db = Inr db' \<Longrightarrow> db_wf db \<Longrightarrow> userID \<in> set (user_ids db) \<Longrightarrow> db_wf db'"
proof (induction cids arbitrary: db)
  case Nil
  then show ?case by simp
next
  case (Cons cid cids)
  let ?db = "db\<lparr>user_customer_grants := add_grant userID cid (user_customer_grants db)\<rparr>"
  have "db_wf ?db"
    using Cons.prems db_wfD(4) [OF Cons.prems(2)]
    by (intro db_wf_grants) (auto simp: grants_wf_def add_grant_def split: if_splits)
  moreover have "userID \<in> set (user_ids ?db)" using Cons.prems(3) by (simp add: id_list_defs)
  ultimately show ?case using Cons by (auto split: if_splits)
qed

lemma pg_SetUserCustomerGrants_wf [inv_intros]:
  assumes "db_wf db"
  shows "db_wf (snd (pg_SetUserCustomerGrants now i cids es db))"
  unfolding pg_SetUserCustomerGrants_def
proof (rule inTx_wf [OF assms], goal_cases)
  case (1 x db')
  let ?db = "db\<lparr>user_customer_grants := filter (\<lambda>g. fst g \<noteq> i) (user_customer_grants db)\<rparr>"
  from 1 obtain db1 where g: "insert_grants i cids ?db = Inr db1" "i \<in> set (user_ids db)"
    and w: "commit now es (\<lambda>_. ()) db1 = Inr (x, db')"
    by (auto split: if_splits sum.splits)
  have "db_wf ?db"
    using db_wfD(4) [OF assms] by (intro db_wf_grants [OF assms]) (auto simp: grants_wf_def list_all_iff)
  moreover have "i \<in> set (user_ids ?db)" using g(2) by (simp add: id_list_defs)
  ultimately have "db_wf db1" by (rule insert_grants_wf [OF g(1)])
  with w show ?case by (rule commit_wf)
qed

lemma pg_UpdateUserAdmin_body:
  assumes "pg_UpdateUserAdmin now i upd es db = (Inr x, db')"
  obtains db1 db2 where "db1 = (case uu_Role upd of None \<Rightarrow> db | Some r \<Rightarrow> upd_user i (\<lambda>u. u\<lparr>u_Role := r\<rparr>) db)"
    "db2 = apply_disabled now i (uu_Disabled upd) db1" "ensureEnabledAdminRemains db2 = Inr ()"
    "commit now es (pg_GetUserWithIdentities i) db2 = Inr (Inr x, db')"
    "case uu_Role upd of None \<Rightarrow> True | Some r \<Rightarrow> role_ok r"
  using assms unfolding pg_UpdateUserAdmin_def Let_def inTx_Inr
  by (auto split: sum.splits if_splits)

lemma pg_UpdateUserAdmin_wf [inv_intros]:
  assumes "db_wf db"
  shows "db_wf (snd (pg_UpdateUserAdmin now i upd es db))"
proof (cases "pg_UpdateUserAdmin now i upd es db")
  case (Pair r db')
  show ?thesis
  proof (cases r)
    case (Inl e)
    with Pair have "db' = db" by (simp add: pg_UpdateUserAdmin_def inTx_error)
    with Pair assms show ?thesis by simp
  next
    case (Inr x)
    from pg_UpdateUserAdmin_body [OF Pair [unfolded Inr]] obtain db1 db2 where
      b: "db1 = (case uu_Role upd of None \<Rightarrow> db | Some r \<Rightarrow> upd_user i (\<lambda>u. u\<lparr>u_Role := r\<rparr>) db)"
      "db2 = apply_disabled now i (uu_Disabled upd) db1"
      "commit now es (pg_GetUserWithIdentities i) db2 = Inr (Inr x, db')"
      "case uu_Role upd of None \<Rightarrow> True | Some r \<Rightarrow> role_ok r" by metis
    have "db_wf db1" using b(1,4) assms by (auto split: option.splits intro!: upd_user_wf)
    then have "db_wf db2" unfolding b(2) by (rule apply_disabled_wf)
    with b(3) have "db_wf db'" by (rule commit_wf)
    with Pair show ?thesis by simp
  qed
qed

lemma detach_wf:
  assumes "db_wf db"
  shows "db_wf (detach_created_by i db)"
proof -
  let ?ks = "upd_where (\<lambda>k. ak_CreatedBy k = Some i) (\<lambda>k. k\<lparr>ak_CreatedBy := None\<rparr>) (api_keys db)"
  let ?vs = "upd_where (\<lambda>v. pv_CreatedBy v = Some i) (\<lambda>v. v\<lparr>pv_CreatedBy := None\<rparr>) (pipeline_versions db)"
  let ?ts = "upd_where (\<lambda>t. bt_CreatedBy t = Some i) (\<lambda>t. t\<lparr>bt_CreatedBy := None\<rparr>) (bootstrap_tokens db)"
  have "api_keys_wf (user_ids db) (customer_ids db) ?ks"
    using db_wfD(5) [OF assms] by (auto simp: api_keys_wf_def list_all_iff set_upd_where)
  moreover have "versions_wf (user_ids db) (pipeline_ids db) ?vs"
    using db_wfD(7) [OF assms] by (auto simp: versions_wf_def list_all_iff set_upd_where)
  moreover have "bootstrap_wf (user_ids db) (customer_ids db) ?ts"
    using db_wfD(8) [OF assms] by (auto simp: bootstrap_wf_def list_all_iff set_upd_where)
  ultimately show ?thesis
    using assms by (simp add: db_wf_def id_list_defs detach_created_by_def)
qed

lemma ref_ok_remove: "ref_ok ids r \<Longrightarrow> r \<noteq> Some i \<Longrightarrow> ref_ok (filter (\<lambda>x. x \<noteq> i) ids) r"
  by (auto simp: ref_ok_def split: option.splits)

lemma delete_user_row_wf:
  assumes "db_wf db" "\<not> user_referenced i db"
  shows "db_wf (delete_user_row i db)"
proof -
  let ?ids = "filter (\<lambda>x. x \<noteq> i) (user_ids db)"
  have ids: "user_ids (delete_user_row i db) = ?ids"
    by (simp add: id_list_defs delete_user_row_def filter_map comp_def)
  have refs: "\<forall>k \<in> set (api_keys db). ak_CreatedBy k \<noteq> Some i" "\<forall>v \<in> set (pipeline_versions db). pv_CreatedBy v \<noteq> Some i"
    "\<forall>t \<in> set (bootstrap_tokens db). bt_CreatedBy t \<noteq> Some i" "\<forall>w \<in> set (webhooks db). wh_CreatedBy w \<noteq> Some i"
    "\<forall>t \<in> set (api_tokens db). pat_CreatedBy t \<noteq> Some i" "\<forall>b. billing_settings db = Some b \<longrightarrow> bs_UpdatedBy b \<noteq> Some i"
    using assms(2) by (auto simp: user_referenced_def list_ex_iff)
  note d = db_wfD [OF assms(1)]
  have "users_wf (filter (\<lambda>u. u_ID u \<noteq> i) (users db))"
    using d(2) distinct_map_filter [of u_ExternalID "filter (\<lambda>u. u_ExternalID u \<noteq> None) (users db)" "\<lambda>u. u_ID u \<noteq> i"]
    by (auto simp: users_wf_def list_all_iff distinct_map_filter filter_map comp_def conj_commute)
  moreover have "identities_wf ?ids (filter (\<lambda>x. idn_UserID x \<noteq> i) (user_identities db))"
    using d(3) by (auto simp: identities_wf_def list_all_iff distinct_map_filter)
  moreover have "grants_wf ?ids (customer_ids db) (filter (\<lambda>g. fst g \<noteq> i) (user_customer_grants db))"
    using d(4) by (auto simp: grants_wf_def list_all_iff)
  moreover have "api_keys_wf ?ids (customer_ids db) (api_keys db)"
    using d(5) refs(1) by (auto simp: api_keys_wf_def list_all_iff intro: ref_ok_remove)
  moreover have "versions_wf ?ids (pipeline_ids db) (pipeline_versions db)"
    using d(7) refs(2) by (auto simp: versions_wf_def list_all_iff intro: ref_ok_remove)
  moreover have "bootstrap_wf ?ids (customer_ids db) (bootstrap_tokens db)"
    using d(8) refs(3) by (auto simp: bootstrap_wf_def list_all_iff intro: ref_ok_remove)
  moreover have "webhooks_wf ?ids (webhooks db)"
    using d(12) refs(4) by (auto simp: webhooks_wf_def list_all_iff intro: ref_ok_remove)
  moreover have "api_tokens_wf ?ids (api_tokens db)"
    using d(13) refs(5) by (auto simp: api_tokens_wf_def list_all_iff intro: ref_ok_remove)
  moreover have "billing_wf ?ids (billing_settings db)"
    using d(14) refs(6) by (auto simp: billing_wf_def intro: ref_ok_remove split: option.splits)
  ultimately show ?thesis
    using assms(1) unfolding db_wf_def ids by (simp add: delete_user_row_def id_list_defs)
qed

lemma pg_DeleteUser_body:
  "pg_DeleteUser now i es db = (Inr (), db') \<longleftrightarrow>
   i \<in> set (user_ids db) \<and> \<not> user_referenced i (detach_created_by i db) \<and>
   ensureEnabledAdminRemains (delete_user_row i (detach_created_by i db)) = Inr () \<and>
   commit now es (\<lambda>_. ()) (deleteSessionsByUser i (delete_user_row i (detach_created_by i db))) = Inr ((), db')"
proof -
  have "user_ids (detach_created_by i db) = user_ids db" by (simp add: id_list_defs detach_created_by_def)
  then show ?thesis
    unfolding pg_DeleteUser_def Let_def inTx_Inr by (auto split: sum.splits)
qed

lemma pg_DeleteUser_wf [inv_intros]:
  assumes "db_wf db"
  shows "db_wf (snd (pg_DeleteUser now i es db))"
proof (cases "pg_DeleteUser now i es db")
  case (Pair r db')
  show ?thesis
  proof (cases r)
    case (Inl e)
    with Pair have "db' = db" by (simp add: pg_DeleteUser_def inTx_error)
    with Pair assms show ?thesis by simp
  next
    case (Inr x)
    then have b: "pg_DeleteUser now i es db = (Inr (), db')" using Pair by simp
    then have "db_wf (deleteSessionsByUser i (delete_user_row i (detach_created_by i db)))"
      unfolding pg_DeleteUser_body using assms
      by (intro deleteSessionsByUser_wf delete_user_row_wf detach_wf) auto
    with b have "db_wf db'" unfolding pg_DeleteUser_body by (blast intro: commit_wf)
    with Pair show ?thesis by simp
  qed
qed

section \<open>Logins\<close>

lemma insert_identity_Inr:
  "insert_identity p s u db = Inr (v, db') \<longleftrightarrow> v = u \<and>
   (\<forall>i \<in> set (user_identities db). \<not> (idn_Provider i = p \<and> idn_Subject i = s)) \<and>
   db' = db\<lparr>user_identities := user_identities db @ [\<lparr>idn_UserID = u_ID u, idn_Provider = p, idn_Subject = s\<rparr>]\<rparr>"
  by (auto simp: insert_identity_def list_ex_iff)

lemma insert_identity_wf:
  assumes "insert_identity p s u db = Inr (v, db')" "db_wf db" "u \<in> set (users db)"
  shows "db_wf db'"
proof -
  have "identities_wf (user_ids db) (user_identities db @ [\<lparr>idn_UserID = u_ID u, idn_Provider = p, idn_Subject = s\<rparr>])"
    using assms(1,3) db_wfD(3) [OF assms(2)]
    by (auto simp: insert_identity_Inr identities_wf_def id_list_defs)
  with assms(1) show ?thesis
    by (auto simp: insert_identity_Inr intro: db_wf_identities [OF assms(2)])
qed

text \<open>A resolved user is in the table and owns the identity; a known identity changes nothing.\<close>

lemma resolve_user_Inr:
  assumes "resolve_user now newID p s email dn role db = Inr (u, db')" "db_wf db"
  shows "db_wf db'" "u \<in> set (users db')"
    "\<exists>i \<in> set (user_identities db'). idn_UserID i = u_ID u \<and> idn_Provider i = p \<and> idn_Subject i = s"
    "u \<in> set (users db) \<and> users db' = users db \<or>
     u = new_user_row now newID email dn role None \<and> users db' = users db @ [u]"
    "sessions db' = sessions db"
proof -
  consider (known) "identity_user p s db = Some u" "db' = db"
    | (email) "u \<in> set (users db)" "insert_identity p s u db = Inr (u, db')"
    | (new) db1 where "u = new_user_row now newID email dn role None"
        "insert_user (ErrDB ''insert user'') u db = Inr db1" "insert_identity p s u db1 = Inr (u, db')"
  proof (cases "identity_user p s db")
    case None
    show ?thesis
    proof (cases "find (\<lambda>u. u_Email u = email) (users db)")
      case n: None
      let ?u = "new_user_row now newID email dn role None"
      from assms(1) None n obtain db1 where
        "insert_user (ErrDB ''insert user'') ?u db = Inr db1" "insert_identity p s ?u db1 = Inr (u, db')"
        by (auto simp: resolve_user_def Let_def split: sum.splits)
      moreover have "u = ?u" using calculation(2) by (simp add: insert_identity_Inr)
      ultimately show ?thesis using that(3) by blast
    next
      case (Some w)
      with assms(1) None have i: "insert_identity p s w db = Inr (u, db')" by (simp add: resolve_user_def)
      then have "u = w" by (simp add: insert_identity_Inr)
      with i find_SomeD [OF Some] show ?thesis by (intro that(2)) auto
    qed
  next
    case (Some w)
    with assms(1) show ?thesis by (intro that(1)) (simp_all add: resolve_user_def)
  qed
  then have "db_wf db' \<and> u \<in> set (users db') \<and>
    (\<exists>i \<in> set (user_identities db'). idn_UserID i = u_ID u \<and> idn_Provider i = p \<and> idn_Subject i = s) \<and>
    (u \<in> set (users db) \<and> users db' = users db \<or>
     u = new_user_row now newID email dn role None \<and> users db' = users db @ [u]) \<and>
    sessions db' = sessions db"
  proof cases
    case known
    then show ?thesis using assms(2) find_SomeD [of _ "users db" u] by (auto simp: identity_user_def list_ex_iff)
  next
    case email
    then show ?thesis using insert_identity_wf [OF email(2) assms(2)] by (auto simp: insert_identity_Inr)
  next
    case new
    have "u \<in> set (users db1)" using new(2) by (auto simp: insert_user_Inr)
    with insert_identity_wf [OF new(3) insert_user_wf [OF new(2) assms(2)]] new show ?thesis
      by (auto simp: insert_identity_Inr insert_user_Inr)
  qed
  then show "db_wf db'" "u \<in> set (users db')"
    "\<exists>i \<in> set (user_identities db'). idn_UserID i = u_ID u \<and> idn_Provider i = p \<and> idn_Subject i = s"
    "u \<in> set (users db) \<and> users db' = users db \<or>
     u = new_user_row now newID email dn role None \<and> users db' = users db @ [u]"
    "sessions db' = sessions db"
    by blast+
qed

lemma Upsert_body:
  "pg_UpsertUserByIdentity now newID p s email dn role db = (Inr v, db') \<longleftrightarrow>
   (\<exists>u db1. resolve_user now newID p s email dn role db = Inr (u, db1) \<and>
      v = u\<lparr>u_Role := if role = ''admin'' then ''admin'' else u_Role u, u_LastLoginAt := Some now\<rparr> \<and>
      db' = upd_user (u_ID u) (\<lambda>w. w\<lparr>u_Role := if role = ''admin'' then ''admin'' else u_Role u,
        u_LastLoginAt := Some now\<rparr>) db1)"
  unfolding pg_UpsertUserByIdentity_def Let_def inTx_Inr by (auto split: sum.splits)

lemma upd_user_role_wf:
  assumes "db_wf db" "u \<in> set (users db)"
  shows "db_wf (upd_user (u_ID u) (\<lambda>w. w\<lparr>u_Role := if role = ''admin'' then ''admin'' else u_Role u,
        u_LastLoginAt := Some now\<rparr>) db)"
proof -
  have "role_ok (u_Role u)" using db_wfD(2) [OF assms(1)] assms(2) by (auto simp: users_wf_def list_all_iff)
  then show ?thesis
    by (intro upd_user_wf [OF assms(1)]) (simp add: role_ok_def RoleAdmin_def)
qed

lemma pg_UpsertUserByIdentity_wf [inv_intros]:
  assumes "db_wf db"
  shows "db_wf (snd (pg_UpsertUserByIdentity now newID p s email dn role db))"
proof (cases "pg_UpsertUserByIdentity now newID p s email dn role db")
  case (Pair r db')
  show ?thesis
  proof (cases r)
    case (Inl e)
    with Pair have "db' = db" by (simp add: pg_UpsertUserByIdentity_def inTx_error)
    with Pair assms show ?thesis by simp
  next
    case (Inr v)
    with Pair obtain u db1 where r: "resolve_user now newID p s email dn role db = Inr (u, db1)"
      and db': "db' = upd_user (u_ID u) (\<lambda>w. w\<lparr>u_Role := if role = ''admin'' then ''admin'' else u_Role u,
        u_LastLoginAt := Some now\<rparr>) db1"
      using Upsert_body [of now newID p s email dn role db v db'] by auto
    have "db_wf db'" unfolding db' by (rule upd_user_role_wf [OF resolve_user_Inr(1,2) [OF r assms]])
    with Pair show ?thesis by simp
  qed
qed

lemma upd_user_simps [simp]:
  "user_identities (upd_user i f db) = user_identities db" "sessions (upd_user i f db) = sessions db"
  "users (upd_user i f db) = upd_where (\<lambda>u. u_ID u = i) f (users db)"
  "webhooks (upd_user i f db) = webhooks db"
  by (simp_all add: upd_user_def)

lemma identity_user_unique:
  assumes "db_wf db" "x \<in> set (user_identities db)" "idn_Provider x = p" "idn_Subject x = s"
    and "w \<in> set (users db)" "u_ID w = idn_UserID x"
  shows "identity_user p s db = Some w"
proof -
  have one: "y = x" if "y \<in> set (user_identities db)" "idn_Provider y = p" "idn_Subject y = s" for y
    using db_wfD(3) [OF assms(1)] that assms(2-4)
      distinct_map_inj [of "\<lambda>i. (idn_Provider i, idn_Subject i)" "user_identities db" y x]
    by (auto simp: identities_wf_def)
  have hit: "list_ex (\<lambda>i. idn_UserID i = u_ID u \<and> idn_Provider i = p \<and> idn_Subject i = s) (user_identities db)
      \<longleftrightarrow> u_ID u = idn_UserID x" for u :: User
    unfolding list_ex_iff using one assms(2-4) by metis
  show ?thesis
    unfolding identity_user_def hit
    using find_Some_iff_distinct [of u_ID "users db" "idn_UserID x" w] assms(5,6) db_wfD(2) [OF assms(1)]
    by (simp add: users_wf_def)
qed

section \<open>Properties\<close>

definition enabled_admin :: "db \<Rightarrow> bool" where
  "enabled_admin db \<longleftrightarrow> list_ex (\<lambda>u. u_Role u = ''admin'' \<and> u_DisabledAt u = None) (users db)"

text \<open>Every operation of the store that changes users.\<close>

inductive user_step :: "db \<Rightarrow> db \<Rightarrow> bool" where
  login: "user_step db (snd (pg_UpsertUserByIdentity now i p s email dn role db))"
| scim_create: "user_step db (snd (pg_CreateSCIMUser now i email role dn ext es db))"
| scim_update: "user_step db (snd (pg_UpdateSCIMUser now i dn ext es db))"
| invite: "user_step db (snd (pg_CreateInvitedUser now i email role es db))"
| grants: "user_step db (snd (pg_SetUserCustomerGrants now i cids es db))"
| update_admin: "user_step db (snd (pg_UpdateUserAdmin now i upd es db))"
| delete_user: "user_step db (snd (pg_DeleteUser now i es db))"

inductive_cases user_stepE: "user_step db db'"

lemma user_step_wf: "user_step db db' \<Longrightarrow> db_wf db \<Longrightarrow> db_wf db'"
  by (erule user_stepE) (simp_all add: inv_intros)

lemma ensure_admin: "ensureEnabledAdminRemains db = Inr () \<longleftrightarrow> enabled_admin db"
  by (auto simp: ensureEnabledAdminRemains_def enabled_admin_def list_ex_iff filter_empty_conv)

lemma commit_users: "commit now es f db = Inr (x, db') \<Longrightarrow> users db' = users db"
  by (auto simp: commit_Inr audit_Write_fields)

lemma commit_sessions: "commit now es f db = Inr (x, db') \<Longrightarrow> sessions db' = sessions db"
  by (auto simp: commit_Inr audit_Write_fields)

lemma enabled_admin_upd:
  "(\<And>u. u_DisabledAt (f u) = u_DisabledAt u \<and> (u_Role u = ''admin'' \<longrightarrow> u_Role (f u) = ''admin'')) \<Longrightarrow>
   list_ex (\<lambda>u. u_Role u = ''admin'' \<and> u_DisabledAt u = None) us \<Longrightarrow>
   list_ex (\<lambda>u. u_Role u = ''admin'' \<and> u_DisabledAt u = None) (upd_where P f us)"
  by (induction us) auto

lemma insert_grants_users: "insert_grants i cids db = Inr db' \<Longrightarrow> users db' = users db"
  by (induction cids arbitrary: db) (auto split: if_splits)

lemma enabled_admin_frame [simp]:
  "enabled_admin (db\<lparr>user_customer_grants := gs\<rparr>) = enabled_admin db"
  "enabled_admin (db\<lparr>sessions := ss\<rparr>) = enabled_admin db"
  by (simp_all add: enabled_admin_def)

lemma inTx_admin:
  "enabled_admin db \<Longrightarrow> (\<And>x db'. fn db = Inr (x, db') \<Longrightarrow> enabled_admin db') \<Longrightarrow>
   enabled_admin (snd (inTx fn db))"
  by (rule inTx_keeps)

lemma commit_admin: "commit now es f db = Inr (x, db') \<Longrightarrow> enabled_admin db' \<longleftrightarrow> enabled_admin db"
  by (auto simp: enabled_admin_def commit_users)

lemma insert_user_admin: "insert_user e u db = Inr db' \<Longrightarrow> enabled_admin db \<Longrightarrow> enabled_admin db'"
  by (auto simp: enabled_admin_def insert_user_Inr)

lemma upd_user_admin:
  "(\<And>u. u_DisabledAt (f u) = u_DisabledAt u \<and> (u_Role u = ''admin'' \<longrightarrow> u_Role (f u) = ''admin'')) \<Longrightarrow>
   enabled_admin db \<Longrightarrow> enabled_admin (upd_user i f db)"
  by (simp add: enabled_admin_def enabled_admin_upd)

lemma insert_grants_admin: "insert_grants i cids db = Inr db' \<Longrightarrow> enabled_admin db' \<longleftrightarrow> enabled_admin db"
  by (auto simp: enabled_admin_def dest: insert_grants_users)

lemma login_keeps_admin:
  assumes "db_wf db" "enabled_admin db"
  shows "enabled_admin (snd (pg_UpsertUserByIdentity now i p s email dn role db))"
proof -
  obtain r0 db' where P: "pg_UpsertUserByIdentity now i p s email dn role db = (r0, db')" by fastforce
  show ?thesis
  proof (cases r0)
    case (Inl e)
    with P have "db' = db" by (simp add: pg_UpsertUserByIdentity_def inTx_error)
    with P assms(2) show ?thesis by simp
  next
    case (Inr v)
    with P have db': "pg_UpsertUserByIdentity now i p s email dn role db = (Inr v, db')" by simp
  then obtain u db1 where r: "resolve_user now i p s email dn role db = Inr (u, db1)"
    and d: "db' = upd_user (u_ID u) (\<lambda>w. w\<lparr>u_Role := if role = ''admin'' then ''admin'' else u_Role u,
        u_LastLoginAt := Some now\<rparr>) db1" by (auto simp: Upsert_body)
  note R = resolve_user_Inr [OF r assms(1)]
  from assms(2) obtain a where a0: "a \<in> set (users db)" and a': "u_Role a = ''admin''" "u_DisabledAt a = None"
    by (auto simp: enabled_admin_def list_ex_iff)
  have "set (users db) \<subseteq> set (users db1)" using R(4) by auto
  then have a: "a \<in> set (users db1)" "u_Role a = ''admin''" "u_DisabledAt a = None" using a0 a' by auto
  have "a = u" if "u_ID a = u_ID u"
    using that a(1) R(2) db_wfD(2) [OF R(1)] distinct_map_inj [of u_ID "users db1" a u] by (simp add: users_wf_def)
  then have "\<exists>x \<in> set (users db'). u_Role x = ''admin'' \<and> u_DisabledAt x = None"
    unfolding d upd_user_simps set_upd_where using a by (intro bexI [OF _ imageI [of a]]) auto
  then show ?thesis using db' by (simp add: enabled_admin_def list_ex_iff)
  qed
qed

lemma user_step_admin:
  assumes "user_step db db'" "db_wf db" "enabled_admin db"
  shows "enabled_admin db'"
  using assms
proof cases
  case (login now i p s email dn role)
  then show ?thesis using login_keeps_admin assms(2,3) by simp
next
  case (scim_create now i email role dn ext es)
  show ?thesis
    unfolding scim_create pg_CreateSCIMUser_def Let_def
    by (rule inTx_admin [OF assms(3)])
      (use assms(3) in \<open>auto split: sum.splits simp: commit_admin dest: insert_user_admin\<close>)
next
  case (scim_update now i dn ext es)
  show ?thesis
    unfolding scim_update pg_UpdateSCIMUser_def Let_def
    by (rule inTx_admin [OF assms(3)])
      (use assms(3) in \<open>auto split: option.splits if_splits simp: commit_admin intro!: upd_user_admin\<close>)
next
  case (invite now i email role es)
  show ?thesis
    unfolding invite pg_CreateInvitedUser_def Let_def
    by (rule inTx_admin [OF assms(3)])
      (use assms(3) in \<open>auto split: sum.splits simp: commit_admin dest: insert_user_admin\<close>)
next
  case (grants now i cids es)
  show ?thesis
    unfolding grants pg_SetUserCustomerGrants_def
    by (rule inTx_admin [OF assms(3)])
      (use assms(3) in \<open>auto split: sum.splits if_splits simp: commit_admin dest!: insert_grants_admin\<close>)
next
  case (update_admin now i upd es)
  show ?thesis
    unfolding update_admin pg_UpdateUserAdmin_def Let_def
    by (rule inTx_admin [OF assms(3)])
      (auto split: sum.splits if_splits simp: ensure_admin commit_admin)
next
  case (delete_user now i es)
  show ?thesis
    unfolding delete_user pg_DeleteUser_def Let_def
    by (rule inTx_admin [OF assms(3)])
      (auto split: sum.splits if_splits simp: ensure_admin commit_admin deleteSessionsByUser_def)
qed


definition sample_admin :: User where
  "sample_admin = \<lparr>u_ID = 5, u_Email = ''a@x.de'', u_DisplayName = None, u_Role = ''admin'', u_ExternalID = None,
     u_DisabledAt = None, u_LastLoginAt = None, u_CreatedAt = 0\<rparr>"

definition sample_users_db :: db where
  "sample_users_db = (db_init 0)\<lparr>users := [sample_admin],
     sessions := [\<lparr>ses_Token = ''t'', ses_Data = ''u='' @ uuid_String 5, ses_Expiry = 100\<rparr>]\<rparr>"

lemma sample_users_db_wf: "db_wf sample_users_db"
  by (simp add: db_wf_def sample_users_db_def db_init_def table_wf_defs id_list_defs ref_ok_def
      sample_admin_def role_ok_def RoleAdmin_def)


text \<open>C19: disabling or deleting a user ends their sessions: no session row that mentions the user's ID
  is left, and the user's row is disabled or gone.\<close>

theorem disabled_user_has_no_session:
  assumes "pg_UpdateUserAdmin now i upd es db = (Inr x, db') \<and> uu_Disabled upd = Some True
     \<or> pg_DeleteUser now i es db = (Inr (), db')"
  shows "(\<forall>s \<in> set (sessions db'). \<not> occurs_in (uuid_String i) (ses_Data s))
    \<and> (\<forall>u \<in> set (users db'). u_ID u = i \<longrightarrow> u_DisabledAt u \<noteq> None)"
  using assms
proof
  assume a: "pg_UpdateUserAdmin now i upd es db = (Inr x, db') \<and> uu_Disabled upd = Some True"
  then obtain db1 db2 where db2: "db2 = apply_disabled now i (Some True) db1"
    and c: "commit now es (pg_GetUserWithIdentities i) db2 = Inr (Inr x, db')"
    using pg_UpdateUserAdmin_body [of now i upd es db x db'] by metis
  have us: "users db' = upd_where (\<lambda>u. u_ID u = i) (\<lambda>u. u\<lparr>u_DisabledAt := Some (coalesce (u_DisabledAt u) now)\<rparr>) (users db1)"
    and ss: "sessions db' = filter (\<lambda>s. \<not> occurs_in (uuid_String i) (ses_Data s)) (sessions db1)"
    using commit_users [OF c] commit_sessions [OF c]
    by (simp_all add: db2 apply_disabled_def deleteSessionsByUser_def)
  have "u_DisabledAt u \<noteq> None" if u: "u \<in> set (users db')" "u_ID u = i" for u
    using u(1) unfolding us by (rule upd_where_cases) (use u(2) in simp_all)
  then show ?thesis using ss by simp
next
  assume "pg_DeleteUser now i es db = (Inr (), db')"
  then have "commit now es (\<lambda>_. ()) (deleteSessionsByUser i (delete_user_row i (detach_created_by i db))) = Inr ((), db')"
    by (simp add: pg_DeleteUser_body)
  from commit_users [OF this] commit_sessions [OF this] show ?thesis
    by (auto simp: deleteSessionsByUser_def delete_user_row_def)
qed

theorem disabled_user_has_no_session_witness:
  "\<exists>x db'. pg_UpdateUserAdmin 9 6 \<lparr>uu_Role = None, uu_Disabled = Some True\<rparr> []
      (sample_users_db\<lparr>users := [sample_admin, sample_admin\<lparr>u_ID := 6, u_Email := ''b@x.de''\<rparr>]\<rparr>) = (Inr x, db') \<and>
     (\<forall>u \<in> set (users db'). u_ID u = 6 \<longrightarrow> u_DisabledAt u \<noteq> None)"
proof -
  obtain x db' where x: "pg_UpdateUserAdmin 9 6 \<lparr>uu_Role = None, uu_Disabled = Some True\<rparr> []
      (sample_users_db\<lparr>users := [sample_admin, sample_admin\<lparr>u_ID := 6, u_Email := ''b@x.de''\<rparr>]\<rparr>) = (Inr x, db')"
    by (simp add: pg_UpdateUserAdmin_def inTx_def pg_GetUser_def sample_admin_def ensureEnabledAdminRemains_def
        apply_disabled_def commit_def pg_GetUserWithIdentities_def deleteSessionsByUser_def upd_user_def)
  from disabled_user_has_no_session [OF disjI1, OF conjI, OF x] x show ?thesis by auto
qed

text \<open>C20: a login belongs to one account. After a login the identity is linked to the returned user; a
  later login with the same identity, whatever its email, returns the same user without adding one, and
  keeps the role unless the email is one of the configured admins.\<close>

theorem login_is_stable:
  assumes "db_wf db" "pg_UpsertUserByIdentity now i p s email dn role db = (Inr u, db1)"
  shows "\<exists>v. fst (pg_UpsertUserByIdentity now' i' p s email' dn' role' db1) = Inr v \<and> u_ID v = u_ID u \<and>
    u_Role v = (if role' = ''admin'' then ''admin'' else u_Role u) \<and>
    map u_ID (users (snd (pg_UpsertUserByIdentity now' i' p s email' dn' role' db1))) = map u_ID (users db1)"
proof -
  from assms(2) obtain w db0 where r: "resolve_user now i p s email dn role db = Inr (w, db0)"
    and u: "u = w\<lparr>u_Role := if role = ''admin'' then ''admin'' else u_Role w, u_LastLoginAt := Some now\<rparr>"
    and db1: "db1 = upd_user (u_ID w) (\<lambda>x. x\<lparr>u_Role := if role = ''admin'' then ''admin'' else u_Role w,
        u_LastLoginAt := Some now\<rparr>) db0"
    by (auto simp: Upsert_body)
  note R = resolve_user_Inr [OF r assms(1)]
  have wf: "db_wf db1" using upd_user_role_wf [OF R(1,2)] db1 by simp
  obtain x where x: "x \<in> set (user_identities db1)" "idn_UserID x = u_ID w" "idn_Provider x = p" "idn_Subject x = s"
    using R(3) by (auto simp: db1)
  have "u = (if u_ID w = u_ID w then w\<lparr>u_Role := if role = ''admin'' then ''admin'' else u_Role w,
        u_LastLoginAt := Some now\<rparr> else w)" by (simp add: u)
  then have "u \<in> set (users db1)" unfolding db1 upd_user_simps set_upd_where using R(2) by blast
  moreover have "u_ID u = idn_UserID x" using x(2) by (simp add: u)
  ultimately have "identity_user p s db1 = Some u" by (rule identity_user_unique [OF wf x(1,3,4)])
  then have "pg_UpsertUserByIdentity now' i' p s email' dn' role' db1 =
      (Inr (u\<lparr>u_Role := if role' = ''admin'' then ''admin'' else u_Role u, u_LastLoginAt := Some now'\<rparr>),
       upd_user (u_ID u) (\<lambda>x. x\<lparr>u_Role := if role' = ''admin'' then ''admin'' else u_Role u,
         u_LastLoginAt := Some now'\<rparr>) db1)"
    unfolding Upsert_body by (intro exI [of _ u] exI [of _ db1]) (simp add: resolve_user_def)
  then show ?thesis by simp
qed

theorem login_is_stable_witness:
  "\<exists>u db1 v. pg_UpsertUserByIdentity 3 7 ''dev'' ''sub'' ''a@x.de'' None ''viewer'' sample_users_db = (Inr u, db1) \<and>
    fst (pg_UpsertUserByIdentity 4 8 ''dev'' ''sub'' ''other@x.de'' None ''viewer'' db1) = Inr v \<and> u_ID v = u_ID u"
proof -
  obtain u db1 where u: "pg_UpsertUserByIdentity 3 7 ''dev'' ''sub'' ''a@x.de'' None ''viewer'' sample_users_db = (Inr u, db1)"
    by (simp add: pg_UpsertUserByIdentity_def inTx_def resolve_user_def identity_user_def insert_identity_def
        sample_users_db_def db_init_def sample_admin_def)
  from login_is_stable [OF sample_users_db_wf u, of 4 8 "''other@x.de''" None "''viewer''"] u show ?thesis by auto
qed

text \<open>C21: a user who has created a webhook or an API token, or who was the last to change the price
  list, cannot be deleted: the deletion detaches three tables only and fails on the others.\<close>

theorem creator_cannot_be_deleted:
  assumes "i \<in> set (user_ids db)"
    and "list_ex (\<lambda>w. wh_CreatedBy w = Some i) (webhooks db) \<or> list_ex (\<lambda>t. pat_CreatedBy t = Some i) (api_tokens db)
      \<or> (\<exists>b. billing_settings db = Some b \<and> bs_UpdatedBy b = Some i)"
  shows "pg_DeleteUser now i es db = (Inl (ErrDB ''delete user''), db)"
proof -
  have "user_ids (detach_created_by i db) = user_ids db" by (simp add: id_list_defs detach_created_by_def)
  moreover have "user_referenced i (detach_created_by i db)"
    using assms(2) by (auto simp: user_referenced_def detach_created_by_def)
  ultimately show ?thesis using assms(1) by (simp add: pg_DeleteUser_def inTx_def)
qed

theorem creator_cannot_be_deleted_witness:
  "pg_DeleteUser 9 5 [] (sample_users_db\<lparr>billing_settings := Some \<lparr>bs_PricePerGiBMicro = 0,
     bs_PricePerMillionItemsMicro = 0, bs_Currency = ''EUR'', bs_UpdatedAt = 0, bs_UpdatedBy = Some 5\<rparr>\<rparr>)
   = (Inl (ErrDB ''delete user''), sample_users_db\<lparr>billing_settings := Some \<lparr>bs_PricePerGiBMicro = 0,
     bs_PricePerMillionItemsMicro = 0, bs_Currency = ''EUR'', bs_UpdatedAt = 0, bs_UpdatedBy = Some 5\<rparr>\<rparr>)"
  by (rule creator_cannot_be_deleted) (simp_all add: id_list_defs sample_users_db_def sample_admin_def)

end
