(* ===== verification/StorePipelines.thy ===== *)
theory StorePipelines
  imports StoreUsers
begin

text \<open>
  Pipelines and their versions, \<open>internal/store/pg_pipelines.go\<close>. The stored graph is a JSON value; a
  row joined with columns of other tables is an extension of the row's record.
\<close>

section \<open>Operations\<close>

record Pipeline = pipeline_row +
  pi_CustomerName :: string
  pi_CustomerSlug :: string
  pi_ClientID :: string
  pi_ActiveVersion :: "int option"
  pi_LatestVersion :: "int option"

record PipelineVersion = version_row +
  pv_CreatedByEmail :: "string option"
  pv_Active :: bool

record NewPipeline =
  np_ID :: uuid
  np_CustomerID :: uuid
  np_Name :: string
  np_TargetClass :: string

record NewPipelineVersion =
  nv_ID :: uuid
  nv_PipelineID :: uuid
  nv_Graph :: json
  nv_RenderedYAML :: string
  nv_ConfigHash :: bytes
  nv_ValidationStatus :: string
  nv_ValidationOutput :: "string option"
  nv_CreatedBy :: "uuid option"

record ActivePipeline =
  act_PipelineID :: uuid
  act_PipelineName :: string
  act_CustomerID :: uuid
  act_CustomerSlug :: string
  act_ClientID :: string
  act_Graph :: json

text \<open>\<open>max(v.version)\<close> over the versions of a pipeline.\<close>

definition versions_of :: "uuid \<Rightarrow> db \<Rightarrow> version_row list" where
  "versions_of pid db = filter (\<lambda>v. pv_PipelineID v = pid) (pipeline_versions db)"

definition max_version :: "uuid \<Rightarrow> db \<Rightarrow> int option" where
  "max_version pid db = (case map pv_Version (versions_of pid db) of
      [] \<Rightarrow> None
    | n # ns \<Rightarrow> Some (fold max ns n))"

text \<open>\<open>pipelineCols\<close> with \<open>pipelineFrom\<close>: the row joined with its customer and its versions.\<close>

definition pipeline_view :: "db \<Rightarrow> pipeline_row \<Rightarrow> Customer \<Rightarrow> Pipeline" where
  "pipeline_view db p c = pipeline_row.extend p (Pipeline.fields (cust_Name c) (cust_Slug c) (cust_ClientID c)
     (case pl_ActiveVersionID p of
        None \<Rightarrow> None
      | Some vid \<Rightarrow> map_option pv_Version (find (\<lambda>v. pv_ID v = vid) (pipeline_versions db)))
     (max_version (pl_ID p) db))"

definition joined_pipelines :: "db \<Rightarrow> (pipeline_row \<times> Customer) list" where
  "joined_pipelines db = [(p, c). p \<leftarrow> pipelines db, c \<leftarrow> customers db, cust_ID c = pl_CustomerID p]"

text \<open>\<open>pipelineVersionCols\<close> with \<open>pipelineVersionFrom\<close>.\<close>

definition version_view :: "db \<Rightarrow> version_row \<Rightarrow> pipeline_row \<Rightarrow> PipelineVersion" where
  "version_view db v p = version_row.extend v (PipelineVersion.fields
     (case pv_CreatedBy v of
        None \<Rightarrow> None
      | Some u \<Rightarrow> map_option u_Email (find (\<lambda>x. u_ID x = u) (users db)))
     (pl_ActiveVersionID p = Some (pv_ID v)))"

definition joined_versions :: "db \<Rightarrow> (version_row \<times> pipeline_row) list" where
  "joined_versions db = [(v, p). v \<leftarrow> pipeline_versions db, p \<leftarrow> pipelines db, pl_ID p = pv_PipelineID v]"

definition pg_GetPipeline :: "uuid \<Rightarrow> db \<Rightarrow> store_error + Pipeline" where
  "pg_GetPipeline i db = (case find (\<lambda>(p, c). pl_ID p = i) (joined_pipelines db) of
      None \<Rightarrow> Inl ErrNotFound
    | Some (p, c) \<Rightarrow> Inr (pipeline_view db p c))"

definition pg_ListPipelines :: "uuid option \<Rightarrow> db \<Rightarrow> Pipeline list" where
  "pg_ListPipelines customerID db =
    map (\<lambda>(p, c). pipeline_view db p c)
      (sort_key (\<lambda>(p, c). (cust_Slug c, pl_Name p, pl_ID p))
        (filter (\<lambda>(p, c). cust_Status c \<noteq> CustomerDeleted \<and>
            (case customerID of None \<Rightarrow> True | Some i \<Rightarrow> pl_CustomerID p = i)) (joined_pipelines db)))"

definition pg_ListPipelineVersions :: "uuid \<Rightarrow> db \<Rightarrow> PipelineVersion list" where
  "pg_ListPipelineVersions pid db =
    map (\<lambda>(v, p). version_view db v p)
      (sort_key (\<lambda>(v, p). - pv_Version v)
        (filter (\<lambda>(v, p). pv_PipelineID v = pid) (joined_versions db)))"

definition pg_GetPipelineVersion :: "uuid \<Rightarrow> int \<Rightarrow> db \<Rightarrow> store_error + PipelineVersion" where
  "pg_GetPipelineVersion pid version db =
    (case find (\<lambda>(v, p). pv_PipelineID v = pid \<and> pv_Version v = version) (joined_versions db) of
       None \<Rightarrow> Inl ErrNotFound
     | Some (v, p) \<Rightarrow> Inr (version_view db v p))"

definition read_version :: "uuid \<Rightarrow> db \<Rightarrow> store_error + PipelineVersion" where
  "read_version vid db = (case find (\<lambda>(v, p). pv_ID v = vid) (joined_versions db) of
      None \<Rightarrow> Inl (ErrDB ''read back version'')
    | Some (v, p) \<Rightarrow> Inr (version_view db v p))"

definition new_version_row :: "time \<Rightarrow> NewPipelineVersion \<Rightarrow> int \<Rightarrow> version_row" where
  "new_version_row now v n = \<lparr>pv_ID = nv_ID v, pv_PipelineID = nv_PipelineID v, pv_Version = n,
     pv_Graph = nv_Graph v, pv_RenderedYAML = nv_RenderedYAML v, pv_ConfigHash = nv_ConfigHash v,
     pv_ValidationStatus = nv_ValidationStatus v, pv_ValidationOutput = nv_ValidationOutput v,
     pv_CreatedBy = nv_CreatedBy v, pv_CreatedAt = now\<rparr>"

definition insertPipelineVersion :: "time \<Rightarrow> NewPipelineVersion \<Rightarrow> int \<Rightarrow> db \<Rightarrow> store_error + db" where
  "insertPipelineVersion now v n db =
    (if int4_ok n \<and> nv_ValidationStatus v \<in> set [ValidationValid, ValidationInvalid] \<and>
        nv_ID v \<notin> set (version_ids db) \<and> n \<notin> set (map pv_Version (versions_of (nv_PipelineID v) db)) \<and>
        nv_PipelineID v \<in> set (pipeline_ids db) \<and> ref_ok (user_ids db) (nv_CreatedBy v)
     then Inr (db\<lparr>pipeline_versions := pipeline_versions db @ [new_version_row now v n]\<rparr>)
     else Inl (ErrDB ''insert pipeline version''))"

definition pg_CreatePipeline ::
    "time \<Rightarrow> NewPipeline \<Rightarrow> NewPipelineVersion \<Rightarrow> Entry list \<Rightarrow> db \<Rightarrow>
     (store_error + Pipeline \<times> PipelineVersion) \<times> db" where
  "pg_CreatePipeline now p v entries = inTx (\<lambda>db.
    if \<not> list_ex (\<lambda>c. cust_ID c = np_CustomerID p \<and> cust_Status c \<noteq> CustomerDeleted) (customers db)
    then Inl ErrNotFound
    else
      (let targetClass = (if np_TargetClass p = '''' then ClassForwarding else np_TargetClass p);
           row = \<lparr>pl_ID = np_ID p, pl_CustomerID = np_CustomerID p, pl_Name = np_Name p,
             pl_TargetClass = targetClass, pl_ActiveVersionID = None, pl_CreatedAt = now\<rparr>
       in if targetClass \<notin> set [ClassForwarding, ClassEdge] \<or> np_ID p \<in> set (pipeline_ids db)
          then Inl (ErrDB ''insert pipeline'')
          else if (np_CustomerID p, np_Name p) \<in> set (map (\<lambda>x. (pl_CustomerID x, pl_Name x)) (pipelines db))
          then Inl ErrNameExists
          else (case insertPipelineVersion now v 1 (db\<lparr>pipelines := pipelines db @ [row]\<rparr>) of
              Inl e \<Rightarrow> Inl e
            | Inr db1 \<Rightarrow>
                (case commit now entries (\<lambda>db2. (pg_GetPipeline (np_ID p) db2, read_version (nv_ID v) db2)) db1 of
                   Inl e \<Rightarrow> Inl e
                 | Inr ((Inr pipe, Inr ver), db2) \<Rightarrow> Inr ((pipe, ver), db2)
                 | Inr ((Inl e, _), _) \<Rightarrow> Inl (ErrDB ''read back pipeline'')
                 | Inr ((_, Inl e), _) \<Rightarrow> Inl e))))"

definition pg_DeletePipeline :: "time \<Rightarrow> uuid \<Rightarrow> Entry list \<Rightarrow> db \<Rightarrow> (store_error + unit) \<times> db" where
  "pg_DeletePipeline now i entries = inTx (\<lambda>db.
    if i \<notin> set (pipeline_ids db) then Inl ErrNotFound
    else
      (let gone = map pv_ID (versions_of i db);
           rest = filter (\<lambda>p. pl_ID p \<noteq> i) (pipelines db)
       in case commit now entries (\<lambda>_. ())
              (db\<lparr>pipelines := rest,
                  pipeline_versions := filter (\<lambda>v. pv_PipelineID v \<noteq> i) (pipeline_versions db)\<rparr>) of
            Inl e \<Rightarrow> Inl e
          | Inr r \<Rightarrow>
              (if list_ex (\<lambda>p. \<exists>vid \<in> set_option (pl_ActiveVersionID p). vid \<in> set gone) rest
               then Inl (ErrDB ''commit'') else Inr r)))"

definition pg_CreatePipelineVersion ::
    "time \<Rightarrow> NewPipelineVersion \<Rightarrow> Entry list \<Rightarrow> db \<Rightarrow> (store_error + PipelineVersion) \<times> db" where
  "pg_CreatePipelineVersion now v entries = inTx (\<lambda>db.
    if nv_PipelineID v \<notin> set (pipeline_ids db) then Inl ErrNotFound
    else
      (let nxt = coalesce (max_version (nv_PipelineID v) db) 0 + 1
       in case insertPipelineVersion now v nxt db of
            Inl e \<Rightarrow> Inl e
          | Inr db1 \<Rightarrow> (case commit now entries (read_version (nv_ID v)) db1 of
                Inl e \<Rightarrow> Inl e
              | Inr (Inl e, _) \<Rightarrow> Inl e
              | Inr (Inr ver, db2) \<Rightarrow> Inr (ver, db2))))"

definition pg_ActivatePipelineVersion ::
    "time \<Rightarrow> uuid \<Rightarrow> int \<Rightarrow> Entry list \<Rightarrow> db \<Rightarrow> (store_error + Pipeline \<times> PipelineVersion) \<times> db" where
  "pg_ActivatePipelineVersion now pid version entries = inTx (\<lambda>db.
    case pg_GetPipelineVersion pid version db of
      Inl e \<Rightarrow> Inl e
    | Inr ver \<Rightarrow>
        (if pv_ValidationStatus ver \<noteq> ValidationValid then Inl ErrConflict
         else (case commit now entries (pg_GetPipeline pid)
                  (db\<lparr>pipelines := upd_where (\<lambda>p. pl_ID p = pid)
                     (\<lambda>p. p\<lparr>pl_ActiveVersionID := Some (pv_ID ver)\<rparr>) (pipelines db)\<rparr>) of
              Inl e \<Rightarrow> Inl e
            | Inr (Inl e, _) \<Rightarrow> Inl e
            | Inr (Inr pipe, db1) \<Rightarrow> Inr ((pipe, ver\<lparr>pv_Active := True\<rparr>), db1))))"

definition pg_ListActivePipelines :: "string \<Rightarrow> uuid option \<Rightarrow> db \<Rightarrow> ActivePipeline list" where
  "pg_ListActivePipelines targetClass customerID db =
    map (\<lambda>(p, c, v). \<lparr>act_PipelineID = pl_ID p, act_PipelineName = pl_Name p, act_CustomerID = pl_CustomerID p,
           act_CustomerSlug = cust_Slug c, act_ClientID = cust_ClientID c, act_Graph = pv_Graph v\<rparr>)
      (sort_key (\<lambda>(p, c, v). (cust_Slug c, pl_Name p, pl_ID p))
        [(p, c, v). (p, c) \<leftarrow> joined_pipelines db, cust_Status c = CustomerActive,
           v \<leftarrow> pipeline_versions db, pl_ActiveVersionID p = Some (pv_ID v),
           pl_TargetClass p = targetClass \<and>
           (case customerID of None \<Rightarrow> True | Some i \<Rightarrow> pl_CustomerID p = i)])"

section \<open>What the operations store\<close>

lemma insertPipelineVersion_Inr:
  "insertPipelineVersion now v n db = Inr db' \<longleftrightarrow>
   int4_ok n \<and> nv_ValidationStatus v \<in> set [ValidationValid, ValidationInvalid] \<and>
   nv_ID v \<notin> set (version_ids db) \<and> n \<notin> set (map pv_Version (versions_of (nv_PipelineID v) db)) \<and>
   nv_PipelineID v \<in> set (pipeline_ids db) \<and> ref_ok (user_ids db) (nv_CreatedBy v) \<and>
   db' = db\<lparr>pipeline_versions := pipeline_versions db @ [new_version_row now v n]\<rparr>"
  by (auto simp: insertPipelineVersion_def)

lemma insertPipelineVersion_wf:
  assumes "insertPipelineVersion now v n db = Inr db'" "db_wf db"
  shows "db_wf db'"
proof -
  note i = assms(1) [unfolded insertPipelineVersion_Inr]
  have "(nv_PipelineID v, n) \<notin> set (map (\<lambda>v. (pv_PipelineID v, pv_Version v)) (pipeline_versions db))"
    using i by (auto simp: versions_of_def)
  then have "versions_wf (user_ids db) (pipeline_ids db) (pipeline_versions db @ [new_version_row now v n])"
    using i db_wfD(7) [OF assms(2)] by (auto simp: versions_wf_def new_version_row_def id_list_defs)
  then show ?thesis
    using i by (auto simp: id_list_defs intro!: db_wf_versions [OF assms(2)])
qed

definition new_pipeline_row :: "time \<Rightarrow> NewPipeline \<Rightarrow> pipeline_row" where
  "new_pipeline_row now p = \<lparr>pl_ID = np_ID p, pl_CustomerID = np_CustomerID p, pl_Name = np_Name p,
     pl_TargetClass = (if np_TargetClass p = '''' then ClassForwarding else np_TargetClass p),
     pl_ActiveVersionID = None, pl_CreatedAt = now\<rparr>"

lemma CreatePipeline_body:
  assumes "pg_CreatePipeline now p v es db = (Inr r, db')"
  obtains db1 where "np_ID p \<notin> set (pipeline_ids db)"
    "pl_TargetClass (new_pipeline_row now p) \<in> set [ClassForwarding, ClassEdge]"
    "(np_CustomerID p, np_Name p) \<notin> set (map (\<lambda>x. (pl_CustomerID x, pl_Name x)) (pipelines db))"
    "np_CustomerID p \<in> set (customer_ids db)"
    "insertPipelineVersion now v 1 (db\<lparr>pipelines := pipelines db @ [new_pipeline_row now p]\<rparr>) = Inr db1"
    "audit_Write now es db1 = Inr db'"
proof -
  let ?db = "db\<lparr>pipelines := pipelines db @ [new_pipeline_row now p]\<rparr>"
  have c: "list_ex (\<lambda>c. cust_ID c = np_CustomerID p \<and> cust_Status c \<noteq> CustomerDeleted) (customers db)"
    and t: "pl_TargetClass (new_pipeline_row now p) \<in> set [ClassForwarding, ClassEdge]" "np_ID p \<notin> set (pipeline_ids db)"
      "(np_CustomerID p, np_Name p) \<notin> set (map (\<lambda>x. (pl_CustomerID x, pl_Name x)) (pipelines db))"
    and i: "\<exists>db1. insertPipelineVersion now v 1 ?db = Inr db1 \<and> (\<exists>x. commit now es
        (\<lambda>db2. (pg_GetPipeline (np_ID p) db2, read_version (nv_ID v) db2)) db1 = Inr (x, db'))"
    using assms unfolding pg_CreatePipeline_def Let_def inTx_Inr new_pipeline_row_def [symmetric]
    by (auto simp: new_pipeline_row_def split: if_splits sum.splits)
  from c have "np_CustomerID p \<in> set (customer_ids db)" by (force simp: list_ex_iff id_list_defs)
  with t i that show ?thesis by (auto simp: commit_Inr)
qed

lemma pipelines_wf_append:
  "pipelines_wf cids vids ps \<Longrightarrow> pl_ID p \<notin> set (map pl_ID ps) \<Longrightarrow> pl_CustomerID p \<in> set cids \<Longrightarrow>
   (pl_CustomerID p, pl_Name p) \<notin> set (map (\<lambda>x. (pl_CustomerID x, pl_Name x)) ps) \<Longrightarrow>
   pl_TargetClass p \<in> set [ClassForwarding, ClassEdge] \<Longrightarrow> ref_ok vids (pl_ActiveVersionID p) \<Longrightarrow>
   pipelines_wf cids vids (ps @ [p])"
  by (simp add: pipelines_wf_def)

lemma pg_CreatePipeline_wf [inv_intros]:
  assumes "db_wf db"
  shows "db_wf (snd (pg_CreatePipeline now p v es db))"
proof (rule op_wf [OF assms])
  show "db' = db" if "pg_CreatePipeline now p v es db = (Inl e, db')" for e db'
    using that by (simp add: pg_CreatePipeline_def inTx_error)
next
  fix r db'
  assume "pg_CreatePipeline now p v es db = (Inr r, db')"
  then show "db_wf db'"
  proof (rule CreatePipeline_body)
    fix db1
    let ?row = "new_pipeline_row now p"
    assume a: "np_ID p \<notin> set (pipeline_ids db)" "pl_TargetClass ?row \<in> set [ClassForwarding, ClassEdge]"
      "(np_CustomerID p, np_Name p) \<notin> set (map (\<lambda>x. (pl_CustomerID x, pl_Name x)) (pipelines db))"
      "np_CustomerID p \<in> set (customer_ids db)"
      "insertPipelineVersion now v 1 (db\<lparr>pipelines := pipelines db @ [?row]\<rparr>) = Inr db1"
      "audit_Write now es db1 = Inr db'"
    have "pipelines_wf (customer_ids db) (version_ids db) (pipelines db @ [?row])"
      using a(1-4) by (intro pipelines_wf_append db_wfD(6) [OF assms]) (simp_all add: new_pipeline_row_def id_list_defs)
    then have "db_wf (db\<lparr>pipelines := pipelines db @ [?row]\<rparr>)"
      by (intro db_wf_pipelines [OF assms]) (auto simp: id_list_defs)
    with a(5) have "db_wf db1" by (rule insertPipelineVersion_wf)
    with a(6) show "db_wf db'" by (rule audit_Write_wf)
  qed
qed

lemma CreatePipelineVersion_body:
  assumes "pg_CreatePipelineVersion now v es db = (Inr r, db')"
  obtains db1 where "nv_PipelineID v \<in> set (pipeline_ids db)"
    "insertPipelineVersion now v (coalesce (max_version (nv_PipelineID v) db) 0 + 1) db = Inr db1"
    "audit_Write now es db1 = Inr db'" "read_version (nv_ID v) db' = Inr r"
  using assms unfolding pg_CreatePipelineVersion_def Let_def inTx_Inr
  by (auto simp: commit_Inr split: if_splits sum.splits)

lemma pg_CreatePipelineVersion_wf [inv_intros]:
  assumes "db_wf db"
  shows "db_wf (snd (pg_CreatePipelineVersion now v es db))"
proof (rule op_wf [OF assms])
  show "db' = db" if "pg_CreatePipelineVersion now v es db = (Inl e, db')" for e db'
    using that by (simp add: pg_CreatePipelineVersion_def inTx_error)
  show "db_wf db'" if "pg_CreatePipelineVersion now v es db = (Inr r, db')" for r db'
    using that by (rule CreatePipelineVersion_body) (blast intro: audit_Write_wf insertPipelineVersion_wf assms)
qed

lemma ActivatePipelineVersion_body:
  assumes "pg_ActivatePipelineVersion now pid n es db = (Inr r, db')"
  obtains v p where "v \<in> set (pipeline_versions db)" "p \<in> set (pipelines db)" "pl_ID p = pid" "pv_PipelineID v = pid"
    "pv_Version v = n" "pv_ValidationStatus v = ValidationValid"
    "audit_Write now es (db\<lparr>pipelines := upd_where (\<lambda>p. pl_ID p = pid)
        (\<lambda>p. p\<lparr>pl_ActiveVersionID := Some (pv_ID v)\<rparr>) (pipelines db)\<rparr>) = Inr db'"
proof -
  from assms obtain ver where g: "pg_GetPipelineVersion pid n db = Inr ver"
    and s: "pv_ValidationStatus ver = ValidationValid"
    and w: "audit_Write now es (db\<lparr>pipelines := upd_where (\<lambda>p. pl_ID p = pid)
        (\<lambda>p. p\<lparr>pl_ActiveVersionID := Some (pv_ID ver)\<rparr>) (pipelines db)\<rparr>) = Inr db'"
    unfolding pg_ActivatePipelineVersion_def inTx_Inr
    by (auto simp: commit_Inr split: if_splits sum.splits)
  from g obtain v p where f: "find (\<lambda>(v, p). pv_PipelineID v = pid \<and> pv_Version v = n) (joined_versions db) = Some (v, p)"
    and ver: "ver = version_view db v p"
    by (auto simp: pg_GetPipelineVersion_def split: option.splits)
  have "(v, p) \<in> set (joined_versions db)" "pv_PipelineID v = pid" "pv_Version v = n"
    using find_SomeD [OF f] by auto
  moreover have "pv_ID ver = pv_ID v" "pv_ValidationStatus ver = pv_ValidationStatus v"
    by (simp_all add: ver version_view_def version_row.defs)
  ultimately show ?thesis using s w by (intro that [of v p]) (auto simp: joined_versions_def)
qed

lemma pg_ActivatePipelineVersion_wf [inv_intros]:
  assumes "db_wf db"
  shows "db_wf (snd (pg_ActivatePipelineVersion now pid n es db))"
proof (rule op_wf [OF assms])
  show "db' = db" if "pg_ActivatePipelineVersion now pid n es db = (Inl e, db')" for e db'
    using that by (simp add: pg_ActivatePipelineVersion_def inTx_error)
next
  fix r db'
  assume "pg_ActivatePipelineVersion now pid n es db = (Inr r, db')"
  then show "db_wf db'"
  proof (rule ActivatePipelineVersion_body)
    fix v :: version_row and p :: pipeline_row
    let ?ps = "upd_where (\<lambda>p. pl_ID p = pid) (\<lambda>p. p\<lparr>pl_ActiveVersionID := Some (pv_ID v)\<rparr>) (pipelines db)"
    assume v: "v \<in> set (pipeline_versions db)" and w: "audit_Write now es (db\<lparr>pipelines := ?ps\<rparr>) = Inr db'"
    have "ref_ok (version_ids db) (Some (pv_ID v))" using v by (simp add: ref_ok_def id_list_defs)
    then have "pipelines_wf (customer_ids db) (version_ids db) ?ps"
      using db_wfD(6) [OF assms] by (auto simp: pipelines_wf_def list_all_iff set_upd_where)
    then have "db_wf (db\<lparr>pipelines := ?ps\<rparr>)"
      by (intro db_wf_pipelines [OF assms]) (auto simp: id_list_defs)
    with w show "db_wf db'" by (rule audit_Write_wf)
  qed
qed

lemma DeletePipeline_body:
  "pg_DeletePipeline now i es db = (Inr (), db') \<longleftrightarrow>
   i \<in> set (pipeline_ids db) \<and>
   (\<forall>p \<in> set (pipelines db). pl_ID p \<noteq> i \<longrightarrow>
      (\<forall>vid \<in> set_option (pl_ActiveVersionID p). vid \<notin> set (map pv_ID (versions_of i db)))) \<and>
   audit_Write now es (db\<lparr>pipelines := filter (\<lambda>p. pl_ID p \<noteq> i) (pipelines db),
       pipeline_versions := filter (\<lambda>v. pv_PipelineID v \<noteq> i) (pipeline_versions db)\<rparr>) = Inr db'"
  unfolding pg_DeletePipeline_def Let_def inTx_Inr
  by (auto simp: commit_def list_ex_iff split: sum.splits if_splits)

lemma delete_pipeline_wf:
  assumes "db_wf db" "\<forall>p \<in> set (pipelines db). pl_ID p \<noteq> i \<longrightarrow>
      (\<forall>vid \<in> set_option (pl_ActiveVersionID p). vid \<notin> set (map pv_ID (versions_of i db)))"
  shows "db_wf (db\<lparr>pipelines := filter (\<lambda>p. pl_ID p \<noteq> i) (pipelines db),
       pipeline_versions := filter (\<lambda>v. pv_PipelineID v \<noteq> i) (pipeline_versions db)\<rparr>)"
proof -
  let ?ps = "filter (\<lambda>p. pl_ID p \<noteq> i) (pipelines db)"
  let ?vs = "filter (\<lambda>v. pv_PipelineID v \<noteq> i) (pipeline_versions db)"
  have ref: "ref_ok (map pv_ID ?vs) (pl_ActiveVersionID p)" if p: "p \<in> set (pipelines db)" "pl_ID p \<noteq> i" for p
  proof -
    have "ref_ok (version_ids db) (pl_ActiveVersionID p)"
      using db_wfD(6) [OF assms(1)] p(1) by (auto simp: pipelines_wf_def list_all_iff)
    then show ?thesis
    proof (cases "pl_ActiveVersionID p")
      case (Some vid)
      with \<open>ref_ok (version_ids db) (pl_ActiveVersionID p)\<close> obtain v where
        v: "v \<in> set (pipeline_versions db)" "vid = pv_ID v" by (auto simp: ref_ok_def id_list_defs)
      then have "pv_PipelineID v \<noteq> i" using assms(2) p Some by (auto simp: versions_of_def)
      with v Some show ?thesis by (auto simp: ref_ok_def)
    qed simp
  qed
  have "pipelines_wf (customer_ids db) (map pv_ID ?vs) ?ps"
    using db_wfD(6) [OF assms(1)] ref by (auto simp: pipelines_wf_def list_all_iff distinct_map_filter)
  moreover have "versions_wf (user_ids db) (map pl_ID ?ps) ?vs"
    using db_wfD(7) [OF assms(1)]
    by (auto simp: versions_wf_def list_all_iff distinct_map_filter id_list_defs)
  ultimately show ?thesis
    using assms(1) unfolding db_wf_def by (simp add: id_list_defs)
qed

lemma pg_DeletePipeline_wf [inv_intros]:
  assumes "db_wf db"
  shows "db_wf (snd (pg_DeletePipeline now i es db))"
proof (rule op_wf [OF assms])
  show "db' = db" if "pg_DeletePipeline now i es db = (Inl e, db')" for e db'
    using that by (simp add: pg_DeletePipeline_def inTx_error)
  show "db_wf db'" if "pg_DeletePipeline now i es db = (Inr r, db')" for r db'
    using that audit_Write_wf delete_pipeline_wf [OF assms] unfolding unit_eq [of r] DeletePipeline_body by blast
qed

section \<open>The history of a pipeline\<close>

text \<open>Versions are numbered from 1 without gaps in the order of their creation, and the active version
  is a valid version of the pipeline itself.\<close>

definition versions_ok :: "uuid \<Rightarrow> db \<Rightarrow> bool" where
  "versions_ok pid db \<longleftrightarrow> versions_of pid db \<noteq> [] \<and>
     map pv_Version (versions_of pid db) = map int [1..<Suc (length (versions_of pid db))]"

definition active_ok :: "db \<Rightarrow> pipeline_row \<Rightarrow> bool" where
  "active_ok db p \<longleftrightarrow> (\<forall>vid \<in> set_option (pl_ActiveVersionID p).
     list_ex (\<lambda>v. pv_ID v = vid \<and> pv_ValidationStatus v = ValidationValid) (versions_of (pl_ID p) db))"

definition pipeline_inv :: "db \<Rightarrow> bool" where
  "pipeline_inv db \<longleftrightarrow> list_all (\<lambda>p. versions_ok (pl_ID p) db \<and> active_ok db p) (pipelines db)"

lemma fold_max_upt: "fold max (map int [Suc m..<n]) (int m) = int (max m (n - 1))"
proof (induction n)
  case 0
  then show ?case by simp
next
  case (Suc n)
  then show ?case by (cases "Suc m \<le> n") auto
qed

lemma max_version_count:
  assumes "versions_ok pid db"
  shows "max_version pid db = Some (int (length (versions_of pid db)))"
proof -
  let ?n = "length (versions_of pid db)"
  have n: "0 < ?n" using assms by (simp add: versions_ok_def)
  then have "[1..<Suc ?n] = 1 # [Suc 1..<Suc ?n]" by (simp add: upt_rec)
  then have "map pv_Version (versions_of pid db) = int 1 # map int [Suc 1..<Suc ?n]"
    using assms by (simp add: versions_ok_def)
  then have "max_version pid db = Some (fold max (map int [Suc 1..<Suc ?n]) (int 1))"
    by (simp only: max_version_def list.case)
  also have "\<dots> = Some (int (max 1 (Suc ?n - 1)))" by (simp only: fold_max_upt)
  finally show ?thesis using n by simp
qed

lemma versions_of_append:
  "versions_of pid (db\<lparr>pipeline_versions := pipeline_versions db @ [x]\<rparr>) =
   versions_of pid db @ (if pv_PipelineID x = pid then [x] else [])"
  by (simp add: versions_of_def)

lemma versions_of_pipelines [simp]: "versions_of pid (db\<lparr>pipelines := ps\<rparr>) = versions_of pid db"
  by (simp add: versions_of_def)

lemma versions_frame [simp]:
  "versions_ok pid (db\<lparr>pipelines := ps\<rparr>) = versions_ok pid db" "active_ok (db\<lparr>pipelines := ps\<rparr>) = active_ok db"
  by (simp_all add: versions_ok_def active_ok_def fun_eq_iff)

lemma pipeline_inv_cong:
  "pipelines db' = pipelines db \<Longrightarrow> pipeline_versions db' = pipeline_versions db \<Longrightarrow>
   pipeline_inv db' = pipeline_inv db"
  by (simp add: pipeline_inv_def versions_ok_def active_ok_def versions_of_def)

lemma audit_pipeline_inv: "audit_Write now es db = Inr db' \<Longrightarrow> pipeline_inv db' = pipeline_inv db"
  by (rule pipeline_inv_cong) (simp_all add: audit_Write_fields)

lemma versions_ok_append:
  assumes "versions_ok pid db \<or> versions_of pid db = []" "pv_PipelineID x = pid"
    "pv_Version x = int (length (versions_of pid db)) + 1"
  shows "versions_ok pid (db\<lparr>pipeline_versions := pipeline_versions db @ [x]\<rparr>)"
  using assms by (auto simp: versions_ok_def versions_of_append)

lemma versions_ok_other:
  "pv_PipelineID x \<noteq> pid \<Longrightarrow>
   versions_ok pid (db\<lparr>pipeline_versions := pipeline_versions db @ [x]\<rparr>) = versions_ok pid db"
  by (simp add: versions_ok_def versions_of_append)

lemma active_ok_append:
  "active_ok db p \<Longrightarrow> active_ok (db\<lparr>pipeline_versions := pipeline_versions db @ [x]\<rparr>) p"
  by (auto simp: active_ok_def versions_of_append)

lemma CreatePipelineVersion_inv:
  assumes "pg_CreatePipelineVersion now v es db = (Inr r, db')" "pipeline_inv db"
  shows "pipeline_inv db'"
  using assms(1)
proof (rule CreatePipelineVersion_body)
  fix db1
  let ?pid = "nv_PipelineID v"
  let ?n = "coalesce (max_version ?pid db) 0 + 1"
  assume a: "?pid \<in> set (pipeline_ids db)" "insertPipelineVersion now v ?n db = Inr db1" "audit_Write now es db1 = Inr db'"
  have ok: "versions_ok ?pid db" using a(1) assms(2) by (auto simp: pipeline_inv_def id_list_defs list_all_iff)
  have db1: "db1 = db\<lparr>pipeline_versions := pipeline_versions db @ [new_version_row now v ?n]\<rparr>"
    using a(2) by (simp add: insertPipelineVersion_Inr)
  have new: "versions_ok ?pid db1"
    unfolding db1 by (rule versions_ok_append) (simp_all add: ok new_version_row_def max_version_count [OF ok] coalesce_def)
  have "versions_ok pid db1" if "versions_ok pid db" for pid
    using new that by (cases "pid = ?pid") (auto simp: db1 versions_ok_other new_version_row_def)
  moreover have "active_ok db1 p" if "active_ok db p" for p
    unfolding db1 using that by (rule active_ok_append)
  ultimately have "pipeline_inv db1"
    using assms(2) by (auto simp: pipeline_inv_def list_all_iff db1)
  then show "pipeline_inv db'" using audit_pipeline_inv [OF a(3)] by simp
qed

lemma fresh_pipeline_has_no_versions:
  "db_wf db \<Longrightarrow> pid \<notin> set (pipeline_ids db) \<Longrightarrow> versions_of pid db = []"
  using db_wfD(7) [of db] by (auto simp: versions_of_def versions_wf_def list_all_iff filter_empty_conv)

lemma CreatePipeline_inv:
  assumes "pg_CreatePipeline now p v es db = (Inr r, db')" "db_wf db" "pipeline_inv db" "nv_PipelineID v = np_ID p"
  shows "pipeline_inv db'"
  using assms(1)
proof (rule CreatePipeline_body)
  fix db1
  let ?row = "new_pipeline_row now p"
  let ?db = "db\<lparr>pipelines := pipelines db @ [?row]\<rparr>"
  assume a: "np_ID p \<notin> set (pipeline_ids db)" "insertPipelineVersion now v 1 ?db = Inr db1"
    "audit_Write now es db1 = Inr db'"
  have none: "versions_of (np_ID p) db = []" using assms(2) a(1) by (rule fresh_pipeline_has_no_versions)
  have db1: "db1 = ?db\<lparr>pipeline_versions := pipeline_versions ?db @ [new_version_row now v 1]\<rparr>"
    using a(2) by (simp add: insertPipelineVersion_Inr)
  have "versions_ok (np_ID p) db1"
    unfolding db1 by (rule versions_ok_append) (simp_all add: none new_version_row_def assms(4))
  moreover have "versions_ok (pl_ID q) db1 \<and> active_ok db1 q" if q: "q \<in> set (pipelines db)" for q
  proof -
    have "pl_ID q \<noteq> np_ID p" using q a(1) by (auto simp: id_list_defs image_iff)
    then have "pv_PipelineID (new_version_row now v 1) \<noteq> pl_ID q" by (simp add: new_version_row_def assms(4))
    moreover have "versions_ok (pl_ID q) ?db" "active_ok ?db q"
      using q assms(3) by (auto simp: pipeline_inv_def list_all_iff)
    ultimately show ?thesis
      unfolding db1 by (simp only: versions_ok_other active_ok_append simp_thms)
  qed
  moreover have "active_ok db1 ?row" by (simp add: active_ok_def new_pipeline_row_def)
  ultimately have "pipeline_inv db1"
    by (auto simp: pipeline_inv_def list_all_iff db1 new_pipeline_row_def)
  then show "pipeline_inv db'" using audit_pipeline_inv [OF a(3)] by simp
qed

lemma ActivatePipelineVersion_inv:
  assumes "pg_ActivatePipelineVersion now pid n es db = (Inr r, db')" "pipeline_inv db"
  shows "pipeline_inv db'"
  using assms(1)
proof (rule ActivatePipelineVersion_body)
  fix v :: version_row and p :: pipeline_row
  let ?ps = "upd_where (\<lambda>p. pl_ID p = pid) (\<lambda>p. p\<lparr>pl_ActiveVersionID := Some (pv_ID v)\<rparr>) (pipelines db)"
  let ?db = "db\<lparr>pipelines := ?ps\<rparr>"
  assume v: "v \<in> set (pipeline_versions db)" "pv_PipelineID v = pid" "pv_ValidationStatus v = ValidationValid"
    and w: "audit_Write now es ?db = Inr db'"
  have "versions_ok (pl_ID q) db \<and> active_ok db q" if "q \<in> set ?ps" for q
    using that
  proof (rule upd_where_cases)
    fix x
    assume x: "x \<in> set (pipelines db)" "pl_ID x = pid" "q = x\<lparr>pl_ActiveVersionID := Some (pv_ID v)\<rparr>"
    then have "versions_ok (pl_ID x) db" using assms(2) by (auto simp: pipeline_inv_def list_all_iff)
    with x v show ?thesis by (auto simp: active_ok_def list_ex_iff versions_of_def)
  next
    assume "q \<in> set (pipelines db)"
    then show ?thesis using assms(2) by (auto simp: pipeline_inv_def list_all_iff)
  qed
  then have "pipeline_inv ?db" by (simp add: pipeline_inv_def list_all_iff)
  then show "pipeline_inv db'" using audit_pipeline_inv [OF w] by simp
qed

lemma DeletePipeline_inv:
  assumes "pg_DeletePipeline now i es db = (Inr r, db')" "pipeline_inv db"
  shows "pipeline_inv db'"
proof -
  let ?db = "db\<lparr>pipelines := filter (\<lambda>p. pl_ID p \<noteq> i) (pipelines db),
       pipeline_versions := filter (\<lambda>v. pv_PipelineID v \<noteq> i) (pipeline_versions db)\<rparr>"
  have w: "audit_Write now es ?db = Inr db'" using assms(1) unfolding unit_eq [of r] DeletePipeline_body by blast
  have keep: "versions_of pid ?db = versions_of pid db" if "pid \<noteq> i" for pid
    using that by (auto simp: versions_of_def intro: filter_cong)
  have "pipeline_inv ?db"
    using assms(2) keep by (auto simp: pipeline_inv_def list_all_iff versions_ok_def active_ok_def)
  then show ?thesis using audit_pipeline_inv [OF w] by simp
qed

lemma detach_pipeline_inv: "pipeline_inv (detach_created_by i db) = pipeline_inv db"
proof -
  let ?f = "\<lambda>v. v\<lparr>pv_CreatedBy := None\<rparr>"
  let ?P = "\<lambda>v. pv_CreatedBy v = Some i"
  have f: "filter (\<lambda>v. pv_PipelineID v = pid) (upd_where ?P ?f vs) =
      upd_where ?P ?f (filter (\<lambda>v. pv_PipelineID v = pid) vs)" for pid vs
    by (induction vs) auto
  have vs: "versions_of pid (detach_created_by i db) = upd_where ?P ?f (versions_of pid db)" for pid
    by (simp add: versions_of_def detach_created_by_def f)
  have ex: "list_ex (\<lambda>v. pv_ID v = vid \<and> pv_ValidationStatus v = ValidationValid) (upd_where ?P ?f xs) =
      list_ex (\<lambda>v. pv_ID v = vid \<and> pv_ValidationStatus v = ValidationValid) xs" for vid xs
    by (induction xs) auto
  have ne: "upd_where ?P ?f xs = [] \<longleftrightarrow> xs = []" for xs by (cases xs) auto
  show ?thesis
    by (simp add: pipeline_inv_def versions_ok_def active_ok_def vs ex ne) (simp add: detach_created_by_def)
qed

lemma DeleteUser_inv:
  assumes "pg_DeleteUser now i es db = (Inr (), db')"
  shows "pipeline_inv db' = pipeline_inv db"
proof -
  let ?db = "deleteSessionsByUser i (delete_user_row i (detach_created_by i db))"
  have "audit_Write now es ?db = Inr db'" using assms by (simp add: pg_DeleteUser_body commit_Inr)
  then have "pipeline_inv db' = pipeline_inv ?db" by (rule audit_pipeline_inv)
  also have "\<dots> = pipeline_inv (detach_created_by i db)"
    by (rule pipeline_inv_cong) (simp_all add: deleteSessionsByUser_def delete_user_row_def)
  finally show ?thesis by (simp add: detach_pipeline_inv)
qed

section \<open>Properties\<close>

text \<open>Every operation of the store that changes pipelines or versions. A pipeline is created together
  with a version of its own.\<close>

inductive pipeline_step :: "db \<Rightarrow> db \<Rightarrow> bool" where
  create: "nv_PipelineID v = np_ID p \<Longrightarrow> pipeline_step db (snd (pg_CreatePipeline now p v es db))"
| new_version: "pipeline_step db (snd (pg_CreatePipelineVersion now v es db))"
| activate: "pipeline_step db (snd (pg_ActivatePipelineVersion now pid n es db))"
| delete_pipeline: "pipeline_step db (snd (pg_DeletePipeline now i es db))"
| delete_user: "pipeline_step db (snd (pg_DeleteUser now i es db))"

inductive_cases pipeline_stepE: "pipeline_step db db'"

lemma pipeline_step_wf: "pipeline_step db db' \<Longrightarrow> db_wf db \<Longrightarrow> db_wf db'"
  by (erule pipeline_stepE) (simp_all add: inv_intros)

lemma op_keeps_inv:
  assumes "pipeline_inv db" "\<And>e db'. r = (Inl e, db') \<Longrightarrow> db' = db" "\<And>x db'. r = (Inr x, db') \<Longrightarrow> pipeline_inv db'"
  shows "pipeline_inv (snd r)"
  using assms by (cases r; cases "fst r") auto

lemma pipeline_step_inv:
  assumes "pipeline_step db db'" "db_wf db" "pipeline_inv db"
  shows "pipeline_inv db'"
  using assms(1)
proof cases
  case (create v p now es)
  show ?thesis
    unfolding create by (rule op_keeps_inv [OF assms(3)])
      (simp add: pg_CreatePipeline_def inTx_error, rule CreatePipeline_inv [OF _ assms(2,3) create(2)])
next
  case (new_version now v es)
  show ?thesis
    unfolding new_version by (rule op_keeps_inv [OF assms(3)])
      (simp add: pg_CreatePipelineVersion_def inTx_error, rule CreatePipelineVersion_inv [OF _ assms(3)])
next
  case (activate now pid n es)
  show ?thesis
    unfolding activate by (rule op_keeps_inv [OF assms(3)])
      (simp add: pg_ActivatePipelineVersion_def inTx_error, rule ActivatePipelineVersion_inv [OF _ assms(3)])
next
  case (delete_pipeline now i es)
  show ?thesis
    unfolding delete_pipeline by (rule op_keeps_inv [OF assms(3)])
      (simp add: pg_DeletePipeline_def inTx_error, rule DeletePipeline_inv [OF _ assms(3)])
next
  case (delete_user now i es)
  show ?thesis
    unfolding delete_user by (rule op_keeps_inv [OF assms(3)])
      (simp add: pg_DeleteUser_def inTx_error, use DeleteUser_inv assms(3) in auto)
qed

text \<open>C22: the versions of a pipeline are numbered 1, 2, 3, ... without gaps in the order of their
  creation, and a pipeline's active version is always a valid version of that same pipeline, after any
  sequence of creations, activations and deletions of pipelines and deletions of users.\<close>

theorem pipeline_history_consistent:
  assumes "pipeline_step\<^sup>*\<^sup>* db db'" "db_wf db" "pipeline_inv db"
  shows "db_wf db' \<and> (\<forall>p \<in> set (pipelines db').
    map pv_Version (versions_of (pl_ID p) db') = map int [1..<Suc (length (versions_of (pl_ID p) db'))] \<and>
    (\<forall>vid. pl_ActiveVersionID p = Some vid \<longrightarrow>
       (\<exists>v \<in> set (pipeline_versions db'). pv_ID v = vid \<and> pv_PipelineID v = pl_ID p \<and>
          pv_ValidationStatus v = ValidationValid)))"
proof -
  have "db_wf db' \<and> pipeline_inv db'"
    using assms(1)
  proof (induction rule: rtranclp_induct)
    case base
    then show ?case using assms(2,3) by simp
  next
    case (step y z)
    then show ?case using pipeline_step_wf pipeline_step_inv by blast
  qed
  then show ?thesis
    by (auto simp: pipeline_inv_def list_all_iff versions_ok_def active_ok_def list_ex_iff) (auto simp: versions_of_def)
qed

definition sample_pipeline_db :: db where
  "sample_pipeline_db = (db_init 0)\<lparr>customers := [\<lparr>cust_ID = 1, cust_Slug = ''acme'', cust_Name = ''Acme'',
     cust_ClientID = ''cust_01'', cust_Status = CustomerActive, cust_RateLimitItemsPerSec = None,
     cust_RetentionDays = None, cust_CreatedAt = 0, cust_UpdatedAt = 0\<rparr>],
     pipelines := [\<lparr>pl_ID = 3, pl_CustomerID = 1, pl_Name = ''p'', pl_TargetClass = ClassForwarding,
       pl_ActiveVersionID = Some 4, pl_CreatedAt = 0\<rparr>],
     pipeline_versions := [\<lparr>pv_ID = 4, pv_PipelineID = 3, pv_Version = 1, pv_Graph = JNull, pv_RenderedYAML = '''',
       pv_ConfigHash = '''', pv_ValidationStatus = ValidationValid, pv_ValidationOutput = None,
       pv_CreatedBy = None, pv_CreatedAt = 0\<rparr>]\<rparr>"

lemma sample_pipeline_db_ok: "db_wf sample_pipeline_db" "pipeline_inv sample_pipeline_db"
   by (simp add: db_wf_def sample_pipeline_db_def db_init_def table_wf_defs id_list_defs ref_ok_def
      status_ok_def rate_ok_def retention_ok_def)
     (simp add: pipeline_inv_def versions_ok_def active_ok_def versions_of_def sample_pipeline_db_def)

theorem pipeline_history_consistent_witness:
  "pipeline_ids sample_pipeline_db = [3] \<and>
   db_wf (snd (pg_DeletePipeline 9 3 [] sample_pipeline_db))"
proof -
  have "pipeline_step\<^sup>*\<^sup>* sample_pipeline_db (snd (pg_DeletePipeline 9 3 [] sample_pipeline_db))"
    by (rule r_into_rtranclp) (rule pipeline_step.delete_pipeline)
  from pipeline_history_consistent [OF this sample_pipeline_db_ok] show ?thesis
    by (simp add: id_list_defs sample_pipeline_db_def)
qed

text \<open>What the renderer is given. Every entry of the list of active pipelines belongs to an active
  customer, carries that customer's own slug and client ID, and its graph is the graph of a valid
  version of that pipeline, of the class that was asked for.\<close>

theorem active_pipelines_sound:
  assumes "pipeline_inv db" "a \<in> set (pg_ListActivePipelines cls cid db)"
  shows "\<exists>p \<in> set (pipelines db). \<exists>c \<in> set (customers db). \<exists>v \<in> set (pipeline_versions db).
    act_PipelineID a = pl_ID p \<and> act_PipelineName a = pl_Name p \<and> pl_TargetClass p = cls \<and>
    act_CustomerID a = cust_ID c \<and> pl_CustomerID p = cust_ID c \<and> cust_Status c = CustomerActive \<and>
    act_CustomerSlug a = cust_Slug c \<and> act_ClientID a = cust_ClientID c \<and>
    act_Graph a = pv_Graph v \<and> pl_ActiveVersionID p = Some (pv_ID v) \<and>
    (\<exists>w \<in> set (pipeline_versions db). pv_ID w = pv_ID v \<and> pv_PipelineID w = pl_ID p \<and>
       pv_ValidationStatus w = ValidationValid) \<and>
    (\<forall>i. cid = Some i \<longrightarrow> cust_ID c = i)"
proof -
  from assms(2) obtain p c v where a: "(p, c) \<in> set (joined_pipelines db)" "cust_Status c = CustomerActive"
    "v \<in> set (pipeline_versions db)" "pl_ActiveVersionID p = Some (pv_ID v)" "pl_TargetClass p = cls"
    "case cid of None \<Rightarrow> True | Some i \<Rightarrow> pl_CustomerID p = i"
    "a = \<lparr>act_PipelineID = pl_ID p, act_PipelineName = pl_Name p, act_CustomerID = pl_CustomerID p,
           act_CustomerSlug = cust_Slug c, act_ClientID = cust_ClientID c, act_Graph = pv_Graph v\<rparr>"
    by (auto simp: pg_ListActivePipelines_def split: if_splits)
  have pc: "p \<in> set (pipelines db)" "c \<in> set (customers db)" "cust_ID c = pl_CustomerID p"
    using a(1) by (auto simp: joined_pipelines_def)
  have "active_ok db p" using assms(1) pc(1) by (auto simp: pipeline_inv_def list_all_iff)
  then have "\<exists>w \<in> set (pipeline_versions db). pv_ID w = pv_ID v \<and> pv_PipelineID w = pl_ID p \<and>
       pv_ValidationStatus w = ValidationValid"
    using a(4) by (auto simp: active_ok_def list_ex_iff versions_of_def)
  with a pc show ?thesis by (intro bexI [of _ p] bexI [of _ c] bexI [of _ v]) auto
qed

theorem active_pipelines_sound_witness:
  "\<exists>a. pg_ListActivePipelines ClassForwarding None sample_pipeline_db = [a] \<and> act_CustomerSlug a = ''acme''"
proof -
  obtain a where a: "pg_ListActivePipelines ClassForwarding None sample_pipeline_db = [a]"
    by (simp add: pg_ListActivePipelines_def joined_pipelines_def sample_pipeline_db_def status_defs)
  from active_pipelines_sound [OF sample_pipeline_db_ok(2), of a ClassForwarding None] a show ?thesis
    by (auto simp: sample_pipeline_db_def)
qed

end
