(* ===== verification/StoreFleet.thy ===== *)
theory StoreFleet
  imports StorePipelines
begin

text \<open>
  Bootstrap tokens, agents and agent events, \<open>internal/store/pg_fleet.go\<close>. JSON documents that the
  store only passes on are JSON values.
\<close>

section \<open>Bootstrap tokens\<close>

record NewBootstrapToken =
  nb_ID :: uuid
  nb_CustomerID :: uuid
  nb_Name :: string
  nb_TokenPrefix :: string
  nb_TokenHash :: bytes
  nb_MaxUses :: int
  nb_CreatedBy :: "uuid option"
  nb_ExpiresAt :: time

record EnrollToken =
  et_TokenID :: uuid
  et_CustomerID :: uuid
  et_TokenHash :: bytes
  et_MaxUses :: int
  et_UsedCount :: int
  et_ExpiresAt :: time
  et_CustomerStatus :: string

definition pg_ListBootstrapTokens :: "uuid \<Rightarrow> db \<Rightarrow> store_error + BootstrapToken list" where
  "pg_ListBootstrapTokens customerID db =
    (case pg_GetCustomer customerID db of
       Inl e \<Rightarrow> Inl e
     | Inr _ \<Rightarrow> Inr (sort_key (\<lambda>t. (- bt_CreatedAt t, bt_ID t))
         (filter (\<lambda>t. bt_CustomerID t = customerID) (bootstrap_tokens db))))"

definition new_bootstrap_row :: "time \<Rightarrow> NewBootstrapToken \<Rightarrow> BootstrapToken" where
  "new_bootstrap_row now t = \<lparr>bt_ID = nb_ID t, bt_CustomerID = nb_CustomerID t, bt_Name = nb_Name t,
     bt_TokenPrefix = nb_TokenPrefix t, bt_TokenHash = nb_TokenHash t, bt_MaxUses = nb_MaxUses t,
     bt_UsedCount = 0, bt_CreatedBy = nb_CreatedBy t, bt_CreatedAt = now, bt_ExpiresAt = nb_ExpiresAt t,
     bt_RevokedAt = None\<rparr>"

definition pg_CreateBootstrapToken ::
    "time \<Rightarrow> NewBootstrapToken \<Rightarrow> Entry list \<Rightarrow> db \<Rightarrow> (store_error + BootstrapToken) \<times> db" where
  "pg_CreateBootstrapToken now t entries db =
    (case pg_GetCustomer (nb_CustomerID t) db of
       Inl e \<Rightarrow> (Inl e, db)
     | Inr _ \<Rightarrow> inTx (\<lambda>db.
         if int4_ok (nb_MaxUses t) \<and> nb_ID t \<notin> set (bootstrap_ids db) \<and>
            nb_CustomerID t \<in> set (customer_ids db) \<and> ref_ok (user_ids db) (nb_CreatedBy t)
         then commit now entries (\<lambda>_. new_bootstrap_row now t)
           (db\<lparr>bootstrap_tokens := bootstrap_tokens db @ [new_bootstrap_row now t]\<rparr>)
         else Inl (ErrDB ''insert bootstrap token'')) db)"

definition pg_RevokeBootstrapToken ::
    "time \<Rightarrow> uuid \<Rightarrow> uuid \<Rightarrow> Entry list \<Rightarrow> db \<Rightarrow> (store_error + unit) \<times> db" where
  "pg_RevokeBootstrapToken now customerID tokenID entries = inTx (\<lambda>db.
    if \<not> list_ex (\<lambda>t. bt_ID t = tokenID \<and> bt_CustomerID t = customerID) (bootstrap_tokens db)
    then Inl ErrNotFound
    else commit now entries (\<lambda>_. ()) (db\<lparr>bootstrap_tokens := upd_where
      (\<lambda>t. bt_ID t = tokenID \<and> bt_CustomerID t = customerID \<and> bt_RevokedAt t = None)
      (\<lambda>t. t\<lparr>bt_RevokedAt := Some now\<rparr>) (bootstrap_tokens db)\<rparr>))"

definition enroll_token_of :: "BootstrapToken \<Rightarrow> Customer \<Rightarrow> EnrollToken" where
  "enroll_token_of t c = \<lparr>et_TokenID = bt_ID t, et_CustomerID = bt_CustomerID t, et_TokenHash = bt_TokenHash t,
     et_MaxUses = bt_MaxUses t, et_UsedCount = bt_UsedCount t, et_ExpiresAt = bt_ExpiresAt t,
     et_CustomerStatus = cust_Status c\<rparr>"

definition pg_ActiveBootstrapTokensByPrefix :: "string \<Rightarrow> db \<Rightarrow> EnrollToken list" where
  "pg_ActiveBootstrapTokensByPrefix pfx db =
    [enroll_token_of t c. t \<leftarrow> bootstrap_tokens db, bt_TokenPrefix t = pfx \<and> bt_RevokedAt t = None,
       c \<leftarrow> customers db, cust_ID c = bt_CustomerID t]"

section \<open>Agents\<close>

record Agent = agent_cols +
  a_CustomerName :: "string option"

record NewAgent =
  na_ID :: uuid
  na_InstanceUID :: bytes
  na_CustomerID :: uuid
  na_Class :: string
  na_Name :: "string option"
  na_AgentVersion :: "string option"
  na_Description :: "json option"
  na_Capabilities :: int
  na_EnrolledVia :: uuid

record AgentAuth =
  aa_AgentID :: uuid
  aa_CustomerID :: uuid
  aa_InstanceUID :: bytes
  aa_TokenHash :: bytes
  aa_CustomerStatus :: string

record AgentFilter =
  af_Class :: "string option"
  af_CustomerID :: "uuid option"
  af_Connected :: "bool option"

text \<open>\<open>agentCols\<close> with \<open>agentFrom\<close>.\<close>

definition agent_view :: "db \<Rightarrow> agent_row \<Rightarrow> Agent" where
  "agent_view db a = agent_cols.extend (agent_cols.truncate a) (Agent.fields
     (case ag_CustomerID a of
        None \<Rightarrow> None
      | Some i \<Rightarrow> map_option cust_Name (find (\<lambda>c. cust_ID c = i) (customers db))))"

definition pg_GetAgent :: "uuid \<Rightarrow> db \<Rightarrow> store_error + Agent" where
  "pg_GetAgent i db = (case find (\<lambda>a. ag_ID a = i) (agents db) of
      None \<Rightarrow> Inl ErrNotFound
    | Some a \<Rightarrow> Inr (agent_view db a))"

definition pg_GetAgentByInstanceUID :: "bytes \<Rightarrow> db \<Rightarrow> store_error + Agent" where
  "pg_GetAgentByInstanceUID u db = (case find (\<lambda>a. ag_InstanceUID a = u) (agents db) of
      None \<Rightarrow> Inl ErrNotFound
    | Some a \<Rightarrow> Inr (agent_view db a))"

definition pg_AgentsByTokenPrefix :: "string \<Rightarrow> db \<Rightarrow> AgentAuth list" where
  "pg_AgentsByTokenPrefix pfx db =
    [\<lparr>aa_AgentID = ag_ID a, aa_CustomerID = cust_ID c, aa_InstanceUID = ag_InstanceUID a,
      aa_TokenHash = coalesce (ag_TokenHash a) [], aa_CustomerStatus = cust_Status c\<rparr>.
       a \<leftarrow> agents db, ag_TokenPrefix a = Some pfx,
       c \<leftarrow> customers db, ag_CustomerID a = Some (cust_ID c) \<and> cust_Status c \<noteq> CustomerDeleted]"

definition pg_ListAgents :: "AgentFilter \<Rightarrow> db \<Rightarrow> Agent list" where
  "pg_ListAgents f db = map (agent_view db) (sort_key (\<lambda>a. (ag_CreatedAt a, ag_ID a))
     (filter (\<lambda>a. (case af_Class f of None \<Rightarrow> True | Some c \<Rightarrow> ag_Class a = c) \<and>
        (case af_CustomerID f of None \<Rightarrow> True | Some i \<Rightarrow> ag_CustomerID a = Some i) \<and>
        (case af_Connected f of None \<Rightarrow> True | Some b \<Rightarrow> ag_Connected a = b)) (agents db)))"

definition insertAgentEvent :: "time \<Rightarrow> uuid \<Rightarrow> string \<Rightarrow> json option \<Rightarrow> db \<Rightarrow> store_error + db" where
  "insertAgentEvent now agentID eventType detail db =
    (if eventType \<in> set agent_event_types \<and> agentID \<in> set (agent_ids db)
     then Inr (db\<lparr>agent_events := agent_events db @
         [\<lparr>ev_ID = event_seq db, ev_AgentID = agentID, ev_EventType = eventType, ev_Detail = detail,
           ev_CreatedAt = now\<rparr>], event_seq := event_seq db + 1\<rparr>)
     else Inl (ErrDB ''insert agent event''))"

definition new_agent_row :: "time \<Rightarrow> NewAgent \<Rightarrow> agent_row" where
  "new_agent_row now a = \<lparr>ag_ID = na_ID a, ag_InstanceUID = na_InstanceUID a,
     ag_CustomerID = Some (na_CustomerID a), ag_Class = na_Class a, ag_Name = na_Name a,
     ag_DisplayName = None, ag_Labels = JObj [], ag_AgentVersion = na_AgentVersion a,
     ag_Description = na_Description a, ag_Capabilities = Some (na_Capabilities a),
     ag_AssignedConfigHash = None, ag_ReportedConfigHash = None, ag_AckedConfigHash = None,
     ag_ReportedConfigYAML = None, ag_RemoteConfigStatus = RemoteConfigUnset, ag_RemoteConfigError = None,
     ag_Health = None, ag_Healthy = None, ag_Connected = False, ag_LastSeenAt = Some now,
     ag_EnrolledVia = Some (na_EnrolledVia a), ag_CreatedAt = now,
     ag_TokenPrefix = None, ag_TokenHash = None, ag_TokenIssuedAt = None\<rparr>"

definition insert_agent :: "time \<Rightarrow> NewAgent \<Rightarrow> db \<Rightarrow> store_error + db" where
  "insert_agent now a db =
    (if na_Class a \<notin> set [AgentClassGateway, AgentClassEdge] \<or> \<not> int8_ok (na_Capabilities a) \<or>
        na_ID a \<in> set (agent_ids db) then Inl (ErrDB ''insert agent'')
     else if na_InstanceUID a \<in> set (map ag_InstanceUID (agents db)) then Inl ErrConflict
     else if na_CustomerID a \<notin> set (customer_ids db) \<or> na_EnrolledVia a \<notin> set (bootstrap_ids db)
     then Inl (ErrDB ''insert agent'')
     else Inr (db\<lparr>agents := agents db @ [new_agent_row now a]\<rparr>))"

definition increment_used_count :: "uuid \<Rightarrow> db \<Rightarrow> store_error + db" where
  "increment_used_count i db =
    (if list_ex (\<lambda>t. bt_ID t = i \<and> \<not> int4_ok (bt_UsedCount t + 1)) (bootstrap_tokens db)
     then Inl (ErrDB ''increment token used_count'')
     else Inr (db\<lparr>bootstrap_tokens := upd_where (\<lambda>t. bt_ID t = i)
       (\<lambda>t. t\<lparr>bt_UsedCount := bt_UsedCount t + 1\<rparr>) (bootstrap_tokens db)\<rparr>))"

definition pg_EnrollAgent :: "time \<Rightarrow> NewAgent \<Rightarrow> db \<Rightarrow> (store_error + Agent) \<times> db" where
  "pg_EnrollAgent now a = inTx (\<lambda>db.
    case insert_agent now a db of
      Inl e \<Rightarrow> Inl e
    | Inr db1 \<Rightarrow> (case increment_used_count (na_EnrolledVia a) db1 of
        Inl e \<Rightarrow> Inl e
      | Inr db2 \<Rightarrow> (case insertAgentEvent now (na_ID a) ''enrolled''
            (Some (JObj [(''token'', JStr (uuid_String (na_EnrolledVia a)))])) db2 of
          Inl e \<Rightarrow> Inl e
        | Inr db3 \<Rightarrow> (case pg_GetAgent (na_ID a) db3 of
            Inl e \<Rightarrow> Inl (ErrDB ''read back agent'')
          | Inr out \<Rightarrow> Inr (out, db3)))))"

text \<open>An UPDATE of one agent that has to affect a row.\<close>

definition upd_agent :: "uuid \<Rightarrow> (agent_row \<Rightarrow> agent_row) \<Rightarrow> db \<Rightarrow> store_error + db" where
  "upd_agent i f db =
    (if i \<notin> set (agent_ids db) then Inl ErrNotFound
     else Inr (db\<lparr>agents := upd_where (\<lambda>a. ag_ID a = i) f (agents db)\<rparr>))"

definition exec_agent :: "uuid \<Rightarrow> (agent_row \<Rightarrow> agent_row) \<Rightarrow> db \<Rightarrow> (store_error + unit) \<times> db" where
  "exec_agent i f db = (case upd_agent i f db of Inl e \<Rightarrow> (Inl e, db) | Inr db' \<Rightarrow> (Inr (), db'))"

definition pg_SetAgentToken :: "uuid \<Rightarrow> string \<Rightarrow> bytes \<Rightarrow> time \<Rightarrow> db \<Rightarrow> (store_error + unit) \<times> db" where
  "pg_SetAgentToken i pfx hash at db = (Inr (), db\<lparr>agents := upd_where (\<lambda>a. ag_ID a = i)
     (\<lambda>a. a\<lparr>ag_TokenPrefix := Some pfx, ag_TokenHash := Some hash, ag_TokenIssuedAt := Some at\<rparr>) (agents db)\<rparr>)"

definition pg_DeleteAgent :: "time \<Rightarrow> uuid \<Rightarrow> Entry list \<Rightarrow> db \<Rightarrow> (store_error + unit) \<times> db" where
  "pg_DeleteAgent now i entries = inTx (\<lambda>db.
    if i \<notin> set (agent_ids db) then Inl ErrNotFound
    else commit now entries (\<lambda>_. ()) (db\<lparr>agents := filter (\<lambda>a. ag_ID a \<noteq> i) (agents db),
      agent_events := filter (\<lambda>e. ev_AgentID e \<noteq> i) (agent_events db)\<rparr>))"

definition pg_UpdateAgentDescription ::
    "uuid \<Rightarrow> string option \<Rightarrow> string option \<Rightarrow> json option \<Rightarrow> int option \<Rightarrow> db \<Rightarrow> (store_error + unit) \<times> db" where
  "pg_UpdateAgentDescription i name agentVersion description capabilities =
    exec_agent i (\<lambda>a. a\<lparr>ag_Name := name, ag_AgentVersion := agentVersion, ag_Description := description,
      ag_Capabilities := (case capabilities of None \<Rightarrow> ag_Capabilities a | Some c \<Rightarrow> Some c)\<rparr>)"

definition pg_UpdateAgentMeta ::
    "time \<Rightarrow> uuid \<Rightarrow> string option \<Rightarrow> json option \<Rightarrow> Entry list \<Rightarrow> db \<Rightarrow> (store_error + Agent) \<times> db" where
  "pg_UpdateAgentMeta now i displayName labels entries = inTx (\<lambda>db.
    case upd_agent i (\<lambda>a. a\<lparr>ag_DisplayName := displayName, ag_Labels := coalesce labels (ag_Labels a)\<rparr>) db of
      Inl e \<Rightarrow> Inl e
    | Inr db1 \<Rightarrow> (case commit now entries (pg_GetAgent i) db1 of
        Inl e \<Rightarrow> Inl e
      | Inr (Inl e, _) \<Rightarrow> Inl (ErrDB ''read back agent'')
      | Inr (Inr out, db2) \<Rightarrow> Inr (out, db2)))"

definition pg_SetAgentConnected :: "time \<Rightarrow> uuid \<Rightarrow> bool \<Rightarrow> time \<Rightarrow> db \<Rightarrow> (store_error + unit) \<times> db" where
  "pg_SetAgentConnected now i connected at = inTx (\<lambda>db.
    case upd_agent i (\<lambda>a. a\<lparr>ag_Connected := connected, ag_LastSeenAt := greatest_time (ag_LastSeenAt a) at\<rparr>) db of
      Inl e \<Rightarrow> Inl e
    | Inr db1 \<Rightarrow> (case insertAgentEvent now i (if connected then ''connected'' else ''disconnected'') None db1 of
        Inl e \<Rightarrow> Inl e
      | Inr db2 \<Rightarrow> Inr ((), db2)))"

definition pg_SetAgentAssignedConfig :: "uuid \<Rightarrow> bytes \<Rightarrow> db \<Rightarrow> (store_error + unit) \<times> db" where
  "pg_SetAgentAssignedConfig i hash = exec_agent i (\<lambda>a. a\<lparr>ag_AssignedConfigHash := Some hash\<rparr>)"

definition pg_SetAgentAckedConfig :: "uuid \<Rightarrow> bytes option \<Rightarrow> db \<Rightarrow> (store_error + unit) \<times> db" where
  "pg_SetAgentAckedConfig i hash = exec_agent i (\<lambda>a. a\<lparr>ag_AckedConfigHash := hash\<rparr>)"

definition pg_SetAgentEffectiveConfig :: "uuid \<Rightarrow> string \<Rightarrow> bytes \<Rightarrow> db \<Rightarrow> (store_error + unit) \<times> db" where
  "pg_SetAgentEffectiveConfig i yaml hash =
    exec_agent i (\<lambda>a. a\<lparr>ag_ReportedConfigYAML := Some yaml, ag_ReportedConfigHash := Some hash\<rparr>)"

text \<open>The optional event of the two operations that follow.\<close>

definition maybe_event :: "time \<Rightarrow> uuid \<Rightarrow> string option \<Rightarrow> json option \<Rightarrow> db \<Rightarrow> store_error + unit \<times> db" where
  "maybe_event now i eventType detail db = (case eventType of
      None \<Rightarrow> Inr ((), db)
    | Some t \<Rightarrow> (case insertAgentEvent now i t detail db of
        Inl e \<Rightarrow> Inl e
      | Inr db' \<Rightarrow> Inr ((), db')))"

definition pg_SetAgentRemoteConfigStatus ::
    "time \<Rightarrow> uuid \<Rightarrow> string \<Rightarrow> string option \<Rightarrow> string option \<Rightarrow> json option \<Rightarrow> db \<Rightarrow> (store_error + unit) \<times> db" where
  "pg_SetAgentRemoteConfigStatus now i status errorMessage eventType detail = inTx (\<lambda>db.
    if i \<in> set (agent_ids db) \<and>
       status \<notin> set [RemoteConfigUnset, RemoteConfigApplying, RemoteConfigApplied, RemoteConfigFailed]
    then Inl (ErrDB ''set remote config status'')
    else (case upd_agent i (\<lambda>a. a\<lparr>ag_RemoteConfigStatus := status, ag_RemoteConfigError := errorMessage\<rparr>) db of
        Inl e \<Rightarrow> Inl e
      | Inr db1 \<Rightarrow> maybe_event now i eventType detail db1))"

definition pg_SetAgentHealth ::
    "time \<Rightarrow> uuid \<Rightarrow> json \<Rightarrow> bool \<Rightarrow> string option \<Rightarrow> db \<Rightarrow> (store_error + unit) \<times> db" where
  "pg_SetAgentHealth now i health healthy flipEvent = inTx (\<lambda>db.
    case upd_agent i (\<lambda>a. a\<lparr>ag_Health := Some health, ag_Healthy := Some healthy\<rparr>) db of
      Inl e \<Rightarrow> Inl e
    | Inr db1 \<Rightarrow> maybe_event now i flipEvent None db1)"

definition touch_agent :: "uuid \<Rightarrow> time \<Rightarrow> db \<Rightarrow> db" where
  "touch_agent i ts db = db\<lparr>agents := upd_where (\<lambda>a. ag_ID a = i)
     (\<lambda>a. a\<lparr>ag_LastSeenAt := greatest_time (ag_LastSeenAt a) ts\<rparr>) (agents db)\<rparr>"

definition pg_TouchAgents :: "(uuid \<times> time) list \<Rightarrow> db \<Rightarrow> db" where
  "pg_TouchAgents seen db = foldl (\<lambda>db (i, ts). touch_agent i ts db) db seen"

definition pg_ListAgentEvents :: "uuid \<Rightarrow> int \<Rightarrow> db \<Rightarrow> store_error + AgentEvent list" where
  "pg_ListAgentEvents agentID limit db =
    (case pg_GetAgent agentID db of
       Inl e \<Rightarrow> Inl e
     | Inr _ \<Rightarrow>
         (if limit < 0 then Inl (ErrDB ''list agent events'')
          else Inr (take (nat limit) (sort_key (\<lambda>e. - ev_ID e)
            (filter (\<lambda>e. ev_AgentID e = agentID) (agent_events db))))))"

section \<open>The constraints are kept\<close>

lemma upd_agent_Inr:
  "upd_agent i f db = Inr db' \<longleftrightarrow> i \<in> set (agent_ids db) \<and>
   db' = db\<lparr>agents := upd_where (\<lambda>a. ag_ID a = i) f (agents db)\<rparr>"
  by (auto simp: upd_agent_def)

text \<open>An update that keeps the keys and references of an agent and the domain of its status.\<close>

definition keeps_agent_keys :: "(agent_row \<Rightarrow> agent_row) \<Rightarrow> bool" where
  "keeps_agent_keys f \<longleftrightarrow> (\<forall>a. ag_ID (f a) = ag_ID a \<and> ag_InstanceUID (f a) = ag_InstanceUID a \<and>
     ag_CustomerID (f a) = ag_CustomerID a \<and> ag_Class (f a) = ag_Class a \<and> ag_EnrolledVia (f a) = ag_EnrolledVia a)"

definition remote_status_ok :: "string \<Rightarrow> bool" where
  "remote_status_ok s \<longleftrightarrow> s \<in> set [RemoteConfigUnset, RemoteConfigApplying, RemoteConfigApplied, RemoteConfigFailed]"

lemma agents_wf_upd:
  assumes "agents_wf cids bids xs" "keeps_agent_keys f"
    "\<And>a. remote_status_ok (ag_RemoteConfigStatus a) \<Longrightarrow> remote_status_ok (ag_RemoteConfigStatus (f a))"
  shows "agents_wf cids bids (upd_where P f xs)"
  using assms unfolding keeps_agent_keys_def agents_wf_def remote_status_ok_def
  by (auto simp: list_all_iff set_upd_where)

lemma agents_upd_wf:
  assumes "db_wf db" "keeps_agent_keys f"
    "\<And>a. remote_status_ok (ag_RemoteConfigStatus a) \<Longrightarrow> remote_status_ok (ag_RemoteConfigStatus (f a))"
  shows "db_wf (db\<lparr>agents := upd_where P f (agents db)\<rparr>)"
proof (rule db_wf_agents [OF assms(1)])
  show "agents_wf (customer_ids db) (bootstrap_ids db) (upd_where P f (agents db))"
    using agents_wf_upd [OF db_wfD(9) [OF assms(1)] assms(2,3)] .
  show "set (agent_ids db) \<subseteq> set (map ag_ID (upd_where P f (agents db)))"
    using assms(2) by (simp add: keeps_agent_keys_def id_list_defs)
qed

lemma upd_agent_wf:
  "upd_agent i f db = Inr db' \<Longrightarrow> db_wf db \<Longrightarrow> keeps_agent_keys f \<Longrightarrow>
   (\<And>a. remote_status_ok (ag_RemoteConfigStatus a) \<Longrightarrow> remote_status_ok (ag_RemoteConfigStatus (f a))) \<Longrightarrow> db_wf db'"
  unfolding upd_agent_Inr using agents_upd_wf by blast

lemma exec_agent_wf:
  "db_wf db \<Longrightarrow> keeps_agent_keys f \<Longrightarrow>
   (\<And>a. remote_status_ok (ag_RemoteConfigStatus a) \<Longrightarrow> remote_status_ok (ag_RemoteConfigStatus (f a))) \<Longrightarrow>
   db_wf (snd (exec_agent i f db))"
  unfolding exec_agent_def by (cases "upd_agent i f db") (auto dest: upd_agent_wf)

lemma insertAgentEvent_Inr:
  "insertAgentEvent now i t d db = Inr db' \<longleftrightarrow> t \<in> set agent_event_types \<and> i \<in> set (agent_ids db) \<and>
   db' = db\<lparr>agent_events := agent_events db @ [\<lparr>ev_ID = event_seq db, ev_AgentID = i, ev_EventType = t,
     ev_Detail = d, ev_CreatedAt = now\<rparr>], event_seq := event_seq db + 1\<rparr>"
  by (auto simp: insertAgentEvent_def)

lemma insertAgentEvent_wf:
  assumes "insertAgentEvent now i t d db = Inr db'" "db_wf db"
  shows "db_wf db'"
proof -
  note i = assms(1) [unfolded insertAgentEvent_Inr]
  have "event_seq db \<notin> ev_ID ` set (agent_events db)"
    using db_wfD(10) [OF assms(2)] by (auto simp: events_wf_def list_all_iff)
  then have "events_wf (agent_ids db) (event_seq db + 1) (agent_events db @ [\<lparr>ev_ID = event_seq db, ev_AgentID = i,
      ev_EventType = t, ev_Detail = d, ev_CreatedAt = now\<rparr>])"
    using db_wfD(10) [OF assms(2)] i by (auto simp: events_wf_def list_all_iff)
  then show ?thesis using i by (auto intro: db_wf_events [OF assms(2)])
qed

lemma maybe_event_wf: "maybe_event now i t d db = Inr (x, db') \<Longrightarrow> db_wf db \<Longrightarrow> db_wf db'"
  by (auto simp: maybe_event_def split: option.splits sum.splits dest: insertAgentEvent_wf)

lemma bootstrap_upd_wf:
  assumes "db_wf db" "\<And>t. bt_ID (f t) = bt_ID t \<and> bt_CustomerID (f t) = bt_CustomerID t \<and> bt_CreatedBy (f t) = bt_CreatedBy t"
  shows "db_wf (db\<lparr>bootstrap_tokens := upd_where P f (bootstrap_tokens db)\<rparr>)"
proof (rule db_wf_bootstrap [OF assms(1)])
  show "bootstrap_wf (user_ids db) (customer_ids db) (upd_where P f (bootstrap_tokens db))"
    using db_wfD(8) [OF assms(1)] assms(2) by (auto simp: bootstrap_wf_def list_all_iff set_upd_where)
  show "set (bootstrap_ids db) \<subseteq> set (map bt_ID (upd_where P f (bootstrap_tokens db)))"
    using assms(2) by (simp add: id_list_defs)
qed

lemma pg_CreateBootstrapToken_wf [inv_intros]:
  assumes "db_wf db"
  shows "db_wf (snd (pg_CreateBootstrapToken now t es db))"
proof (cases "pg_GetCustomer (nb_CustomerID t) db")
  case (Inl e)
  then show ?thesis using assms by (simp add: pg_CreateBootstrapToken_def)
next
  case (Inr c)
  show ?thesis
    unfolding pg_CreateBootstrapToken_def Inr sum.case
  proof (rule inTx_wf [OF assms])
    fix x db'
    let ?ts = "bootstrap_tokens db @ [new_bootstrap_row now t]"
    assume "(if int4_ok (nb_MaxUses t) \<and> nb_ID t \<notin> set (bootstrap_ids db) \<and>
            nb_CustomerID t \<in> set (customer_ids db) \<and> ref_ok (user_ids db) (nb_CreatedBy t)
         then commit now es (\<lambda>_. new_bootstrap_row now t) (db\<lparr>bootstrap_tokens := ?ts\<rparr>)
         else Inl (ErrDB ''insert bootstrap token'')) = Inr (x, db')"
    then have a: "nb_ID t \<notin> set (bootstrap_ids db)" "nb_CustomerID t \<in> set (customer_ids db)"
      "ref_ok (user_ids db) (nb_CreatedBy t)"
      and w: "commit now es (\<lambda>_. new_bootstrap_row now t) (db\<lparr>bootstrap_tokens := ?ts\<rparr>) = Inr (x, db')"
      by (auto split: if_splits)
    have "bootstrap_wf (user_ids db) (customer_ids db) ?ts"
      using a db_wfD(8) [OF assms] by (auto simp: bootstrap_wf_def new_bootstrap_row_def id_list_defs)
    then have "db_wf (db\<lparr>bootstrap_tokens := ?ts\<rparr>)" by (intro db_wf_bootstrap [OF assms]) (auto simp: id_list_defs)
    with w show "db_wf db'" by (rule commit_wf)
  qed
qed

lemma pg_RevokeBootstrapToken_wf [inv_intros]:
  "db_wf db \<Longrightarrow> db_wf (snd (pg_RevokeBootstrapToken now c i es db))"
  unfolding pg_RevokeBootstrapToken_def
  by (rule inTx_wf) (auto split: if_splits elim!: commit_wf intro!: bootstrap_upd_wf)

lemma insert_agent_Inr:
  "insert_agent now a db = Inr db' \<longleftrightarrow>
   na_Class a \<in> set [AgentClassGateway, AgentClassEdge] \<and> int8_ok (na_Capabilities a) \<and> na_ID a \<notin> set (agent_ids db) \<and>
   na_InstanceUID a \<notin> set (map ag_InstanceUID (agents db)) \<and> na_CustomerID a \<in> set (customer_ids db) \<and>
   na_EnrolledVia a \<in> set (bootstrap_ids db) \<and> db' = db\<lparr>agents := agents db @ [new_agent_row now a]\<rparr>"
  by (auto simp: insert_agent_def)

lemma insert_agent_wf:
  assumes "insert_agent now a db = Inr db'" "db_wf db"
  shows "db_wf db'"
proof -
  note i = assms(1) [unfolded insert_agent_Inr]
  have "agents_wf (customer_ids db) (bootstrap_ids db) (agents db @ [new_agent_row now a])"
    using i db_wfD(9) [OF assms(2)] by (auto simp: agents_wf_def new_agent_row_def id_list_defs ref_ok_def)
  then show ?thesis using i by (auto simp: id_list_defs intro!: db_wf_agents [OF assms(2)])
qed

lemma increment_Inr:
  "increment_used_count i db = Inr db' \<Longrightarrow> db' = db\<lparr>bootstrap_tokens := upd_where (\<lambda>t. bt_ID t = i)
       (\<lambda>t. t\<lparr>bt_UsedCount := bt_UsedCount t + 1\<rparr>) (bootstrap_tokens db)\<rparr>"
  by (auto simp: increment_used_count_def split: if_splits)

lemma EnrollAgent_body:
  assumes "pg_EnrollAgent now a db = (Inr out, db')"
  obtains db1 db2 where "insert_agent now a db = Inr db1" "increment_used_count (na_EnrolledVia a) db1 = Inr db2"
    "insertAgentEvent now (na_ID a) ''enrolled'' (Some (JObj [(''token'', JStr (uuid_String (na_EnrolledVia a)))])) db2 = Inr db'"
    "pg_GetAgent (na_ID a) db' = Inr out"
  using assms unfolding pg_EnrollAgent_def inTx_Inr by (auto split: sum.splits)

lemma pg_EnrollAgent_wf [inv_intros]:
  assumes "db_wf db"
  shows "db_wf (snd (pg_EnrollAgent now a db))"
proof (rule op_wf [OF assms])
  show "db' = db" if "pg_EnrollAgent now a db = (Inl e, db')" for e db'
    using that by (simp add: pg_EnrollAgent_def inTx_error)
  show "db_wf db'" if "pg_EnrollAgent now a db = (Inr r, db')" for r db'
    using that
  proof (rule EnrollAgent_body)
    fix db1 db2
    assume a: "insert_agent now a db = Inr db1" "increment_used_count (na_EnrolledVia a) db1 = Inr db2"
      "insertAgentEvent now (na_ID a) ''enrolled'' (Some (JObj [(''token'', JStr (uuid_String (na_EnrolledVia a)))])) db2 = Inr db'"
    have "db_wf db1" using insert_agent_wf [OF a(1) assms] .
    then have "db_wf db2" unfolding increment_Inr [OF a(2)] by (rule bootstrap_upd_wf) simp
    with a(3) show "db_wf db'" by (rule insertAgentEvent_wf)
  qed
qed

lemma pg_DeleteAgent_wf [inv_intros]:
  assumes "db_wf db"
  shows "db_wf (snd (pg_DeleteAgent now i es db))"
  unfolding pg_DeleteAgent_def
proof (rule inTx_wf [OF assms])
  fix x db'
  let ?as = "filter (\<lambda>a. ag_ID a \<noteq> i) (agents db)"
  let ?es = "filter (\<lambda>e. ev_AgentID e \<noteq> i) (agent_events db)"
  let ?db = "db\<lparr>agents := ?as, agent_events := ?es\<rparr>"
  assume "(if i \<notin> set (agent_ids db) then Inl ErrNotFound else commit now es (\<lambda>_. ()) ?db) = Inr (x, db')"
  then have w: "commit now es (\<lambda>_. ()) ?db = Inr (x, db')" by (auto split: if_splits)
  have "agents_wf (customer_ids db) (bootstrap_ids db) ?as"
    using db_wfD(9) [OF assms] by (auto simp: agents_wf_def list_all_iff distinct_map_filter)
  moreover have "events_wf (map ag_ID ?as) (event_seq db) ?es"
    using db_wfD(10) [OF assms] by (auto simp: events_wf_def list_all_iff distinct_map_filter id_list_defs)
  ultimately have "db_wf ?db" using assms by (simp add: db_wf_def id_list_defs)
  with w show "db_wf db'" by (rule commit_wf)
qed

lemma agent_setters_wf [inv_intros]:
  assumes "db_wf db"
  shows "db_wf (snd (pg_SetAgentToken i pfx hash at db))"
    "db_wf (snd (pg_UpdateAgentDescription i name ver desc caps db))"
    "db_wf (snd (pg_SetAgentAssignedConfig i hash db))"
    "db_wf (snd (pg_SetAgentAckedConfig i ohash db))"
    "db_wf (snd (pg_SetAgentEffectiveConfig i yaml hash db))"
  unfolding pg_SetAgentToken_def pg_UpdateAgentDescription_def pg_SetAgentAssignedConfig_def
    pg_SetAgentAckedConfig_def pg_SetAgentEffectiveConfig_def snd_conv
  by (intro agents_upd_wf exec_agent_wf assms; simp add: keeps_agent_keys_def)+

lemma pg_UpdateAgentMeta_wf [inv_intros]:
  assumes "db_wf db"
  shows "db_wf (snd (pg_UpdateAgentMeta now i dn labels es db))"
  unfolding pg_UpdateAgentMeta_def
  by (rule inTx_wf [OF assms])
    (auto split: sum.splits dest!: upd_agent_wf [OF _ assms] commit_wf simp: keeps_agent_keys_def)

lemma pg_SetAgentConnected_wf [inv_intros]:
  assumes "db_wf db"
  shows "db_wf (snd (pg_SetAgentConnected now i c at db))"
  unfolding pg_SetAgentConnected_def
  by (rule inTx_wf [OF assms])
    (auto split: sum.splits if_splits dest!: upd_agent_wf [OF _ assms] insertAgentEvent_wf simp: keeps_agent_keys_def)

lemma pg_SetAgentRemoteConfigStatus_wf [inv_intros]:
  assumes "db_wf db"
  shows "db_wf (snd (pg_SetAgentRemoteConfigStatus now i status msg t d db))"
  unfolding pg_SetAgentRemoteConfigStatus_def
proof (rule inTx_wf [OF assms])
  fix x db'
  let ?f = "\<lambda>a. a\<lparr>ag_RemoteConfigStatus := status, ag_RemoteConfigError := msg\<rparr>"
  assume "(if i \<in> set (agent_ids db) \<and>
       status \<notin> set [RemoteConfigUnset, RemoteConfigApplying, RemoteConfigApplied, RemoteConfigFailed]
    then Inl (ErrDB ''set remote config status'')
    else (case upd_agent i ?f db of Inl e \<Rightarrow> Inl e | Inr db1 \<Rightarrow> maybe_event now i t d db1)) = Inr (x, db')"
  then obtain db1 where u: "upd_agent i ?f db = Inr db1" and m: "maybe_event now i t d db1 = Inr (x, db')"
    and s: "i \<in> set (agent_ids db) \<longrightarrow> remote_status_ok status"
    by (auto simp: remote_status_ok_def split: if_splits sum.splits)
  have "db_wf db1"
    using u assms s by (intro upd_agent_wf [OF u assms]) (auto simp: keeps_agent_keys_def upd_agent_Inr)
  with m show "db_wf db'" by (rule maybe_event_wf)
qed

lemma pg_SetAgentHealth_wf [inv_intros]:
  assumes "db_wf db"
  shows "db_wf (snd (pg_SetAgentHealth now i h b t db))"
  unfolding pg_SetAgentHealth_def
  by (rule inTx_wf [OF assms])
    (auto split: sum.splits dest!: upd_agent_wf [OF _ assms] maybe_event_wf simp: keeps_agent_keys_def)

lemma touch_agent_wf: "db_wf db \<Longrightarrow> db_wf (touch_agent i ts db)"
  unfolding touch_agent_def by (intro agents_upd_wf) (simp_all add: keeps_agent_keys_def)

lemma pg_TouchAgents_wf [inv_intros]: "db_wf db \<Longrightarrow> db_wf (pg_TouchAgents seen db)"
  unfolding pg_TouchAgents_def by (induction seen arbitrary: db) (auto simp: touch_agent_wf)

section \<open>Enrolments are counted\<close>

definition via :: "db \<Rightarrow> uuid option list" where
  "via db = map ag_EnrolledVia (agents db)"

definition uses :: "db \<Rightarrow> (uuid \<times> int) list" where
  "uses db = map (\<lambda>t. (bt_ID t, bt_UsedCount t)) (bootstrap_tokens db)"

definition tokens_counted :: "db \<Rightarrow> bool" where
  "tokens_counted db \<longleftrightarrow> list_all (\<lambda>(i, n). int (count_list (via db) (Some i)) \<le> n) (uses db)"

text \<open>Every operation of the store that changes tokens, agents or their events.\<close>

inductive fleet_step :: "db \<Rightarrow> db \<Rightarrow> bool" where
  create_token: "fleet_step db (snd (pg_CreateBootstrapToken now t es db))"
| revoke_token: "fleet_step db (snd (pg_RevokeBootstrapToken now c i es db))"
| enroll: "fleet_step db (snd (pg_EnrollAgent now a db))"
| set_token: "fleet_step db (snd (pg_SetAgentToken i pfx hash at db))"
| delete_agent: "fleet_step db (snd (pg_DeleteAgent now i es db))"
| description: "fleet_step db (snd (pg_UpdateAgentDescription i name ver desc caps db))"
| meta: "fleet_step db (snd (pg_UpdateAgentMeta now i dn labels es db))"
| connected: "fleet_step db (snd (pg_SetAgentConnected now i c at db))"
| assigned: "fleet_step db (snd (pg_SetAgentAssignedConfig i hash db))"
| acked: "fleet_step db (snd (pg_SetAgentAckedConfig i ohash db))"
| effective: "fleet_step db (snd (pg_SetAgentEffectiveConfig i yaml hash db))"
| remote_status: "fleet_step db (snd (pg_SetAgentRemoteConfigStatus now i status msg et d db))"
| health: "fleet_step db (snd (pg_SetAgentHealth now i h b et db))"
| touch: "fleet_step db (pg_TouchAgents seen db)"

inductive_cases fleet_stepE: "fleet_step db db'"

lemma fleet_step_wf: "fleet_step db db' \<Longrightarrow> db_wf db \<Longrightarrow> db_wf db'"
  by (erule fleet_stepE) (simp_all add: inv_intros)

text \<open>What the fleet sees of an agent over an operation: the agents after it are updates of the agents
  before it, in the same order, except for a new or a deleted one. \<open>agents_evolve f\<close> says so for
  operations that neither add nor remove an agent.\<close>

definition seen_le :: "time option \<Rightarrow> time option \<Rightarrow> bool" where
  "seen_le x y \<longleftrightarrow> (\<forall>t \<in> set_option x. \<exists>u \<in> set_option y. t \<le> u)"

definition evolves :: "agent_row \<Rightarrow> agent_row \<Rightarrow> bool" where
  "evolves a b \<longleftrightarrow> ag_ID b = ag_ID a \<and> ag_InstanceUID b = ag_InstanceUID a \<and> ag_CustomerID b = ag_CustomerID a \<and>
     ag_Class b = ag_Class a \<and> ag_EnrolledVia b = ag_EnrolledVia a \<and> seen_le (ag_LastSeenAt a) (ag_LastSeenAt b)"

definition agents_evolve :: "db \<Rightarrow> db \<Rightarrow> bool" where
  "agents_evolve db db' \<longleftrightarrow> list_all2 evolves (agents db) (agents db') \<and> uses db' = uses db"

lemma seen_le_refl [simp]: "seen_le x x"
  by (auto simp: seen_le_def)

lemma seen_le_greatest [simp]: "seen_le x (greatest_time x t)"
  by (cases x) (auto simp: seen_le_def greatest_time_def coalesce_def)

lemma seen_le_trans: "seen_le x y \<Longrightarrow> seen_le y z \<Longrightarrow> seen_le x z"
  by (fastforce simp: seen_le_def)

lemma evolves_refl [simp]: "evolves a a"
  by (simp add: evolves_def)

lemma agents_evolve_refl: "agents_evolve db db"
  by (simp add: agents_evolve_def list.rel_refl)

lemma evolves_trans: "evolves a b \<Longrightarrow> evolves b c \<Longrightarrow> evolves a c"
  unfolding evolves_def using seen_le_trans by auto

lemma agents_evolve_trans: "agents_evolve a b \<Longrightarrow> agents_evolve b c \<Longrightarrow> agents_evolve a c"
  unfolding agents_evolve_def using list_all2_trans [of evolves evolves evolves] evolves_trans by fastforce

lemma evolve_upd: "(\<And>a. evolves a (f a)) \<Longrightarrow> agents_evolve db (db\<lparr>agents := upd_where P f (agents db)\<rparr>)"
  by (auto simp: agents_evolve_def uses_def upd_where_def list_all2_map2 intro!: list_all2_refl)

lemma evolve_frame:
  "agents db' = agents db \<Longrightarrow> bootstrap_tokens db' = bootstrap_tokens db \<Longrightarrow> agents_evolve db db'"
  by (simp add: agents_evolve_def uses_def list.rel_refl)

lemma evolve_upd_agent: "upd_agent i f db = Inr db' \<Longrightarrow> (\<And>a. evolves a (f a)) \<Longrightarrow> agents_evolve db db'"
  unfolding upd_agent_Inr using evolve_upd by blast

lemma evolve_exec: "(\<And>a. evolves a (f a)) \<Longrightarrow> agents_evolve db (snd (exec_agent i f db))"
  unfolding exec_agent_def
  by (cases "upd_agent i f db") (auto simp: agents_evolve_refl intro: evolve_upd_agent)

lemma evolve_event: "insertAgentEvent now i t d db = Inr db' \<Longrightarrow> agents_evolve db db'"
  by (auto simp: insertAgentEvent_Inr intro: evolve_frame)

lemma evolve_maybe_event: "maybe_event now i t d db = Inr (x, db') \<Longrightarrow> agents_evolve db db'"
  by (auto simp: maybe_event_def agents_evolve_refl split: option.splits sum.splits dest: evolve_event)

lemma evolve_commit: "commit now es f db = Inr (x, db') \<Longrightarrow> agents_evolve db db'"
  by (auto simp: commit_Inr audit_Write_fields intro!: evolve_frame)

lemma evolve_inTx:
  "(\<And>x db'. fn db = Inr (x, db') \<Longrightarrow> agents_evolve db db') \<Longrightarrow> agents_evolve db (snd (inTx fn db))"
  by (auto simp: inTx_def agents_evolve_refl split: sum.splits)

lemma touch_evolves: "agents_evolve db (pg_TouchAgents seen db)"
proof (induction seen arbitrary: db)
  case Nil
  then show ?case by (simp add: pg_TouchAgents_def agents_evolve_refl)
next
  case (Cons x seen)
  obtain i ts where x: "x = (i, ts)" by fastforce
  have "agents_evolve db (touch_agent i ts db)"
    unfolding touch_agent_def by (rule evolve_upd) (simp add: evolves_def)
  moreover have "agents_evolve (touch_agent i ts db) (pg_TouchAgents seen (touch_agent i ts db))" by (rule Cons)
  ultimately show ?case by (simp add: x pg_TouchAgents_def agents_evolve_trans)
qed

lemma setters_evolve:
  "agents_evolve db (snd (pg_SetAgentToken i pfx hash at db))"
  "agents_evolve db (snd (pg_UpdateAgentDescription i name ver desc caps db))"
  "agents_evolve db (snd (pg_SetAgentAssignedConfig i hash db))"
  "agents_evolve db (snd (pg_SetAgentAckedConfig i ohash db))"
  "agents_evolve db (snd (pg_SetAgentEffectiveConfig i yaml hash db))"
  unfolding pg_SetAgentToken_def pg_UpdateAgentDescription_def pg_SetAgentAssignedConfig_def
    pg_SetAgentAckedConfig_def pg_SetAgentEffectiveConfig_def snd_conv
  by (intro evolve_upd evolve_exec; simp add: evolves_def)+

lemma tx_setters_evolve:
  "agents_evolve db (snd (pg_UpdateAgentMeta now i dn labels es db))"
  "agents_evolve db (snd (pg_SetAgentConnected now i c at db))"
  "agents_evolve db (snd (pg_SetAgentRemoteConfigStatus now i status msg et d db))"
  "agents_evolve db (snd (pg_SetAgentHealth now i h b et db))"
  unfolding pg_UpdateAgentMeta_def pg_SetAgentConnected_def pg_SetAgentRemoteConfigStatus_def pg_SetAgentHealth_def
  by (rule evolve_inTx,
      auto split: sum.splits if_splits simp: evolves_def
        dest!: evolve_upd_agent evolve_commit evolve_event evolve_maybe_event intro: agents_evolve_trans)+

text \<open>Every step either evolves the agents, adds one, or removes one.\<close>

lemma revoke_evolves: "agents_evolve db (snd (pg_RevokeBootstrapToken now c i es db))"
  unfolding pg_RevokeBootstrapToken_def
proof (rule evolve_inTx)
  fix x db'
  let ?db = "db\<lparr>bootstrap_tokens := upd_where (\<lambda>t. bt_ID t = i \<and> bt_CustomerID t = c \<and> bt_RevokedAt t = None)
      (\<lambda>t. t\<lparr>bt_RevokedAt := Some now\<rparr>) (bootstrap_tokens db)\<rparr>"
  assume "(if \<not> list_ex (\<lambda>t. bt_ID t = i \<and> bt_CustomerID t = c) (bootstrap_tokens db)
    then Inl ErrNotFound else commit now es (\<lambda>_. ()) ?db) = Inr (x, db')"
  then have "agents_evolve ?db db'" by (auto split: if_splits dest: evolve_commit)
  moreover have "agents_evolve db ?db" by (simp add: agents_evolve_def uses_def list.rel_refl)
  ultimately show "agents_evolve db db'" by (rule agents_evolve_trans [rotated])
qed

lemma evolve_via: "agents_evolve db db' \<Longrightarrow> via db' = via db"
  unfolding agents_evolve_def via_def
  by (auto simp: list_all2_conv_all_nth evolves_def intro!: nth_equalityI)

lemma evolve_counted: "agents_evolve db db' \<Longrightarrow> tokens_counted db' = tokens_counted db"
  using evolve_via [of db db'] by (simp add: tokens_counted_def agents_evolve_def)

lemma commit_uses: "commit now es f db = Inr (x, db') \<Longrightarrow> uses db' = uses db \<and> via db' = via db"
  by (auto simp: commit_Inr uses_def via_def audit_Write_fields)

lemma fresh_token_unused:
  assumes "db_wf db" "i \<notin> set (bootstrap_ids db)"
  shows "count_list (via db) (Some i) = 0"
proof -
  have "ag_EnrolledVia a \<noteq> Some i" if "a \<in> set (agents db)" for a
    using db_wfD(9) [OF assms(1)] assms(2) that by (auto simp: agents_wf_def list_all_iff ref_ok_def)
  then have "Some i \<notin> set (via db)" unfolding via_def by force
  then show ?thesis by (simp add: count_list_0_iff)
qed

lemma create_token_counted:
  assumes "db_wf db" "tokens_counted db"
  shows "tokens_counted (snd (pg_CreateBootstrapToken now t es db))"
proof (cases "pg_GetCustomer (nb_CustomerID t) db")
  case (Inl e)
  then show ?thesis using assms by (simp add: pg_CreateBootstrapToken_def)
next
  case (Inr c)
  show ?thesis
    unfolding pg_CreateBootstrapToken_def Inr sum.case
  proof (rule inTx_keeps [where P = tokens_counted, OF assms(2)], goal_cases)
    case (1 x db')
    let ?db = "db\<lparr>bootstrap_tokens := bootstrap_tokens db @ [new_bootstrap_row now t]\<rparr>"
    from 1 have n: "nb_ID t \<notin> set (bootstrap_ids db)" and w: "commit now es (\<lambda>_. new_bootstrap_row now t) ?db = Inr (x, db')"
      by (auto split: if_splits)
    from commit_uses [OF w] fresh_token_unused [OF assms(1) n] assms(2) show ?case
      by (simp add: tokens_counted_def uses_def via_def new_bootstrap_row_def)
  qed
qed

lemma count_list_filter: "count_list (map f (filter P xs)) y \<le> count_list (map f xs) y"
  by (induction xs) auto

lemma delete_agent_counted:
  assumes "tokens_counted db"
  shows "tokens_counted (snd (pg_DeleteAgent now i es db))"
  unfolding pg_DeleteAgent_def
proof (rule inTx_keeps [where P = tokens_counted, OF assms], goal_cases)
  case (1 x db')
  let ?db = "db\<lparr>agents := filter (\<lambda>a. ag_ID a \<noteq> i) (agents db),
      agent_events := filter (\<lambda>e. ev_AgentID e \<noteq> i) (agent_events db)\<rparr>"
  from 1 have w: "commit now es (\<lambda>_. ()) ?db = Inr (x, db')" by (auto split: if_splits)
  have "int (count_list (via ?db) (Some j)) \<le> n" if "int (count_list (via db) (Some j)) \<le> n" for j n
    using that count_list_filter [of ag_EnrolledVia "\<lambda>a. ag_ID a \<noteq> i" "agents db" "Some j"] by (simp add: via_def)
  then have "tokens_counted ?db"
    using assms by (auto simp: tokens_counted_def list_all_iff uses_def)
  with commit_uses [OF w] show ?case by (simp add: tokens_counted_def)
qed

lemma enroll_counts:
  assumes "pg_EnrollAgent now a db = (Inr out, db')"
  shows "via db' = via db @ [Some (na_EnrolledVia a)]"
    "uses db' = map (\<lambda>(i, n). (i, if i = na_EnrolledVia a then n + 1 else n)) (uses db)"
  using assms
proof -
  show "via db' = via db @ [Some (na_EnrolledVia a)]"
    using assms
  proof (rule EnrollAgent_body)
    fix db1 db2
    assume "insert_agent now a db = Inr db1" "increment_used_count (na_EnrolledVia a) db1 = Inr db2"
      "insertAgentEvent now (na_ID a) ''enrolled'' (Some (JObj [(''token'', JStr (uuid_String (na_EnrolledVia a)))])) db2 = Inr db'"
    then show ?thesis by (auto simp: via_def insert_agent_Inr insertAgentEvent_Inr new_agent_row_def dest!: increment_Inr)
  qed
  show "uses db' = map (\<lambda>(i, n). (i, if i = na_EnrolledVia a then n + 1 else n)) (uses db)"
    using assms
  proof (rule EnrollAgent_body)
    fix db1 db2
    assume "insert_agent now a db = Inr db1" "increment_used_count (na_EnrolledVia a) db1 = Inr db2"
      "insertAgentEvent now (na_ID a) ''enrolled'' (Some (JObj [(''token'', JStr (uuid_String (na_EnrolledVia a)))])) db2 = Inr db'"
    then show ?thesis by (auto simp: uses_def insert_agent_Inr insertAgentEvent_Inr upd_where_def dest!: increment_Inr)
  qed
qed

lemma enroll_counted:
  assumes "tokens_counted db"
  shows "tokens_counted (snd (pg_EnrollAgent now a db))"
proof -
  obtain r db' where P: "pg_EnrollAgent now a db = (r, db')" by fastforce
  show ?thesis
  proof (cases r)
    case (Inl e)
    with P have "db' = db" by (simp add: pg_EnrollAgent_def inTx_error)
    with P assms show ?thesis by simp
  next
    case (Inr out)
    with enroll_counts [of now a db out db'] P assms show ?thesis
      by (auto simp: tokens_counted_def list_all_iff)
  qed
qed

lemma fleet_step_counted:
  assumes "fleet_step db db'" "db_wf db" "tokens_counted db"
  shows "tokens_counted db'"
  using assms(1)
  by (rule fleet_stepE)
    (use assms(2,3) create_token_counted enroll_counted delete_agent_counted
      evolve_counted [OF revoke_evolves] evolve_counted [OF setters_evolve(1)] evolve_counted [OF setters_evolve(2)]
      evolve_counted [OF setters_evolve(3)] evolve_counted [OF setters_evolve(4)] evolve_counted [OF setters_evolve(5)]
      evolve_counted [OF tx_setters_evolve(1)] evolve_counted [OF tx_setters_evolve(2)]
      evolve_counted [OF tx_setters_evolve(3)] evolve_counted [OF tx_setters_evolve(4)]
      evolve_counted [OF touch_evolves] in simp_all)

section \<open>Properties\<close>

text \<open>C23: no enrolment escapes the use count of its bootstrap token. After any sequence of fleet
  operations the agents enrolled through a token are at most as many as its use count says, and the
  constraints of the schema hold.\<close>

theorem enrolments_counted:
  assumes "fleet_step\<^sup>*\<^sup>* db db'" "db_wf db" "tokens_counted db"
  shows "db_wf db' \<and> (\<forall>t \<in> set (bootstrap_tokens db').
    int (length (filter (\<lambda>a. ag_EnrolledVia a = Some (bt_ID t)) (agents db'))) \<le> bt_UsedCount t)"
proof -
  have "db_wf db' \<and> tokens_counted db'"
    using assms(1)
  proof (induction rule: rtranclp_induct)
    case base
    then show ?case using assms(2,3) by simp
  next
    case (step y z)
    then show ?case using fleet_step_wf fleet_step_counted by blast
  qed
  moreover have "count_list (via db') y = length (filter (\<lambda>a. ag_EnrolledVia a = y) (agents db'))" for y
    by (simp add: via_def count_list_eq_length_filter filter_map comp_def eq_commute)
  ultimately show ?thesis by (auto simp: tokens_counted_def uses_def list_all_iff)
qed

definition sample_agent :: agent_row where
  "sample_agent = new_agent_row 0 \<lparr>na_ID = 7, na_InstanceUID = ''uid7'', na_CustomerID = 1, na_Class = AgentClassEdge,
     na_Name = None, na_AgentVersion = None, na_Description = None, na_Capabilities = 0, na_EnrolledVia = 6\<rparr>"

definition sample_fleet_db :: db where
  "sample_fleet_db = sample_pipeline_db\<lparr>bootstrap_tokens := [\<lparr>bt_ID = 6, bt_CustomerID = 1, bt_Name = ''t'',
     bt_TokenPrefix = ''otm_bt_00000000'', bt_TokenHash = '''', bt_MaxUses = 1, bt_UsedCount = 1,
     bt_CreatedBy = None, bt_CreatedAt = 0, bt_ExpiresAt = 100, bt_RevokedAt = None\<rparr>], agents := [sample_agent]\<rparr>"

lemma sample_fleet_db_ok: "db_wf sample_fleet_db" "tokens_counted sample_fleet_db"
   by (simp add: db_wf_def sample_fleet_db_def sample_agent_def new_agent_row_def sample_pipeline_db_def db_init_def
      table_wf_defs id_list_defs ref_ok_def status_ok_def rate_ok_def retention_ok_def)
     (simp add: tokens_counted_def via_def uses_def sample_fleet_db_def sample_agent_def new_agent_row_def)

theorem enrolments_counted_witness:
  "\<exists>db'. pg_DeleteAgent 5 7 [] sample_fleet_db = (Inr (), db') \<and> agents db' = [] \<and>
     (\<forall>t \<in> set (bootstrap_tokens db').
       int (length (filter (\<lambda>a. ag_EnrolledVia a = Some (bt_ID t)) (agents db'))) \<le> bt_UsedCount t)"
proof -
  obtain db' where d: "pg_DeleteAgent 5 7 [] sample_fleet_db = (Inr (), db')" "agents db' = []"
    by (simp add: pg_DeleteAgent_def inTx_def commit_def id_list_defs sample_fleet_db_def sample_agent_def new_agent_row_def)
  have "fleet_step\<^sup>*\<^sup>* sample_fleet_db db'"
    using fleet_step.delete_agent [of sample_fleet_db 5 7 "[]"] d(1) by auto
  from enrolments_counted [OF this sample_fleet_db_ok] d show ?thesis by blast
qed

lemma list_all2_key:
  assumes "list_all2 R xs ys" "\<And>x y. R x y \<Longrightarrow> k y = k x" "distinct (map k xs)" "x \<in> set xs" "y \<in> set ys" "k y = k x"
  shows "R x y"
proof -
  from assms(1,5) obtain i where i: "i < length xs" "y = ys ! i" "R (xs ! i) y"
    by (auto simp: list_all2_conv_all_nth in_set_conv_nth)
  then have "k (xs ! i) = k x" using assms(2,6) by metis
  then have "xs ! i = x" using assms(3,4) i(1) distinct_map_inj [of k xs "xs ! i" x] by simp
  with i show ?thesis by simp
qed

lemma enroll_agents:
  "agents (snd (pg_EnrollAgent now x db)) = agents db \<or>
   agents (snd (pg_EnrollAgent now x db)) = agents db @ [new_agent_row now x] \<and> na_ID x \<notin> set (agent_ids db)"
proof (cases "pg_EnrollAgent now x db")
  case (Pair r db')
  show ?thesis
  proof (cases r)
    case (Inl err)
    with Pair have "db' = db" by (simp add: pg_EnrollAgent_def inTx_error)
    with Pair show ?thesis by simp
  next
    case (Inr out)
    with Pair have "pg_EnrollAgent now x db = (Inr out, db')" by simp
    then show ?thesis
    proof (rule EnrollAgent_body)
      fix db1 db2
      assume "insert_agent now x db = Inr db1" "increment_used_count (na_EnrolledVia x) db1 = Inr db2"
        "insertAgentEvent now (na_ID x) ''enrolled'' (Some (JObj [(''token'', JStr (uuid_String (na_EnrolledVia x)))])) db2 = Inr db'"
      then show ?thesis using Pair by (auto simp: insert_agent_Inr insertAgentEvent_Inr dest!: increment_Inr)
    qed
  qed
qed

text \<open>C24: an agent's identity is fixed and its last contact never moves back. Over any operation of the
  fleet store, an agent that is there before and after keeps its instance UID, customer, class and
  enrolment token, and \<open>last_seen_at\<close> does not decrease.\<close>

theorem agent_identity_fixed:
  assumes "fleet_step db db'" "db_wf db" "a \<in> set (agents db)" "b \<in> set (agents db')" "ag_ID b = ag_ID a"
  shows "ag_InstanceUID b = ag_InstanceUID a \<and> ag_CustomerID b = ag_CustomerID a \<and> ag_Class b = ag_Class a \<and>
    ag_EnrolledVia b = ag_EnrolledVia a \<and> (\<forall>t. ag_LastSeenAt a = Some t \<longrightarrow> (\<exists>u. ag_LastSeenAt b = Some u \<and> t \<le> u))"
proof -
  have d: "distinct (map ag_ID (agents db))" using db_wfD(9) [OF assms(2)] by (simp add: agents_wf_def)
  have stay: "b = a" if "b \<in> set (agents db)"
    using distinct_map_inj [OF d that assms(3)] assms(5) by simp
  have ev: "evolves a b" if "agents_evolve db db'"
  proof (rule list_all2_key [of evolves "agents db" "agents db'" ag_ID])
    show "list_all2 evolves (agents db) (agents db')" using that by (simp add: agents_evolve_def)
  qed (use d assms(3-5) in \<open>auto simp: evolves_def\<close>)
  have keep: "b \<in> set (agents db)" if "snd (pg_CreateBootstrapToken now t es db) = db'" for now t es
    using assms(4) that by (auto simp: pg_CreateBootstrapToken_def inTx_def commit_def audit_Write_fields
        split: sum.splits if_splits)
  have del: "b \<in> set (agents db)" if "snd (pg_DeleteAgent now i es db) = db'" for now i es
    using assms(4) that by (auto simp: pg_DeleteAgent_def inTx_def commit_def audit_Write_fields
        split: sum.splits if_splits)
  have enr: "b \<in> set (agents db)" if e: "snd (pg_EnrollAgent now x db) = db'" for now x
    using enroll_agents [of now x db] e assms(3-5) by (auto simp: new_agent_row_def id_list_defs)
  have "evolves a b"
    using assms(1)
    by (rule fleet_stepE) (use stay ev keep del enr revoke_evolves setters_evolve tx_setters_evolve touch_evolves in auto)
  then show ?thesis by (auto simp: evolves_def seen_le_def)
qed

theorem agent_identity_fixed_witness:
  "\<exists>b \<in> set (agents (pg_TouchAgents [(7, 50)] sample_fleet_db)). ag_ID b = 7 \<and>
     ag_CustomerID b = Some 1 \<and> (\<exists>u. ag_LastSeenAt b = Some u \<and> 0 \<le> u)"
proof -
  obtain b where b: "b \<in> set (agents (pg_TouchAgents [(7, 50)] sample_fleet_db))" "ag_ID b = ag_ID sample_agent"
    by (simp add: pg_TouchAgents_def touch_agent_def sample_fleet_db_def sample_agent_def new_agent_row_def)
  have "sample_agent \<in> set (agents sample_fleet_db)" by (simp add: sample_fleet_db_def)
  from agent_identity_fixed [OF fleet_step.touch sample_fleet_db_ok(1) this b] b show ?thesis
    by (auto simp: sample_agent_def new_agent_row_def)
qed

end
