(* ===== verification/StoreSettings.thy ===== *)
theory StoreSettings
  imports StoreFleet
begin

text \<open>
  The settings tables of the control plane: management-API tokens (\<open>internal/store/pg_apitokens.go\<close>),
  notification channels (\<open>pg_webhooks.go\<close>), the price list (\<open>pg_billing.go\<close>) and the login
  providers (\<open>pg_authproviders.go\<close>).
\<close>

section \<open>Management-API tokens\<close>

record APIToken =
  apt_ID :: uuid
  apt_Name :: string
  apt_TokenPrefix :: string
  apt_Role :: string
  apt_CreatedBy :: "uuid option"
  apt_CreatedByEmail :: "string option"
  apt_CreatedAt :: time
  apt_ExpiresAt :: "time option"
  apt_RevokedAt :: "time option"
  apt_LastUsedAt :: "time option"

record NewAPIToken =
  nt_ID :: uuid
  nt_Name :: string
  nt_TokenPrefix :: string
  nt_TokenHash :: bytes
  nt_Role :: string
  nt_CreatedBy :: "uuid option"
  nt_ExpiresAt :: "time option"

record APITokenAuth =
  ta_ID :: uuid
  ta_Role :: string
  ta_CreatedBy :: "uuid option"
  ta_TokenHash :: bytes
  ta_ExpiresAt :: "time option"

definition api_token_view :: "db \<Rightarrow> api_token_row \<Rightarrow> APIToken" where
  "api_token_view db t = \<lparr>apt_ID = pat_ID t, apt_Name = pat_Name t, apt_TokenPrefix = pat_TokenPrefix t,
     apt_Role = pat_Role t, apt_CreatedBy = pat_CreatedBy t,
     apt_CreatedByEmail = (case pat_CreatedBy t of
         None \<Rightarrow> None
       | Some i \<Rightarrow> map_option u_Email (find (\<lambda>u. u_ID u = i) (users db))),
     apt_CreatedAt = pat_CreatedAt t, apt_ExpiresAt = pat_ExpiresAt t, apt_RevokedAt = pat_RevokedAt t,
     apt_LastUsedAt = pat_LastUsedAt t\<rparr>"

definition new_api_token_row :: "time \<Rightarrow> NewAPIToken \<Rightarrow> api_token_row" where
  "new_api_token_row now t = \<lparr>pat_ID = nt_ID t, pat_Name = nt_Name t, pat_TokenPrefix = nt_TokenPrefix t,
     pat_TokenHash = nt_TokenHash t, pat_Role = nt_Role t, pat_CreatedBy = nt_CreatedBy t, pat_CreatedAt = now,
     pat_ExpiresAt = nt_ExpiresAt t, pat_RevokedAt = None, pat_LastUsedAt = None\<rparr>"

definition pg_CreateAPIToken ::
    "time \<Rightarrow> NewAPIToken \<Rightarrow> Entry list \<Rightarrow> db \<Rightarrow> (store_error + APIToken) \<times> db" where
  "pg_CreateAPIToken now t entries = inTx (\<lambda>db.
    if role_ok (nt_Role t) \<and> nt_ID t \<notin> set (map pat_ID (api_tokens db)) \<and> ref_ok (user_ids db) (nt_CreatedBy t)
    then commit now entries (\<lambda>db. api_token_view db (new_api_token_row now t))
      (db\<lparr>api_tokens := api_tokens db @ [new_api_token_row now t]\<rparr>)
    else Inl (ErrDB ''insert api token''))"

definition pg_ListAPITokens :: "db \<Rightarrow> APIToken list" where
  "pg_ListAPITokens db = map (api_token_view db) (sort_key (\<lambda>t. - pat_CreatedAt t) (api_tokens db))"

definition pg_RevokeAPIToken :: "time \<Rightarrow> uuid \<Rightarrow> Entry list \<Rightarrow> db \<Rightarrow> (store_error + unit) \<times> db" where
  "pg_RevokeAPIToken now i entries = inTx (\<lambda>db.
    if \<not> list_ex (\<lambda>t. pat_ID t = i \<and> pat_RevokedAt t = None) (api_tokens db) \<and>
       \<not> list_ex (\<lambda>t. pat_ID t = i) (api_tokens db)
    then Inl ErrNotFound
    else commit now entries (\<lambda>_. ()) (db\<lparr>api_tokens := upd_where
      (\<lambda>t. pat_ID t = i \<and> pat_RevokedAt t = None) (\<lambda>t. t\<lparr>pat_RevokedAt := Some now\<rparr>) (api_tokens db)\<rparr>))"

definition pg_ActiveAPITokensByPrefix :: "string \<Rightarrow> db \<Rightarrow> APITokenAuth list" where
  "pg_ActiveAPITokensByPrefix pfx db =
    map (\<lambda>t. \<lparr>ta_ID = pat_ID t, ta_Role = pat_Role t, ta_CreatedBy = pat_CreatedBy t,
           ta_TokenHash = pat_TokenHash t, ta_ExpiresAt = pat_ExpiresAt t\<rparr>)
      (filter (\<lambda>t. pat_TokenPrefix t = pfx \<and> pat_RevokedAt t = None) (api_tokens db))"

section \<open>Notification channels\<close>

text \<open>A nil \<open>[]string\<close> or \<open>[]byte\<close> is NULL in the statement, an empty one is not; the optional slices
  are options.\<close>

record NewWebhook =
  nw_ID :: uuid
  nw_Type :: string
  nw_Name :: string
  nw_URL :: string
  nw_Events :: "string list option"
  nw_SecretEnc :: "bytes option"
  nw_Enabled :: bool
  nw_CreatedBy :: "uuid option"

record WebhookUpdate =
  wu_Type :: "string option"
  wu_Name :: "string option"
  wu_URL :: "string option"
  wu_Events :: "string list option"
  wu_SecretSet :: bool
  wu_SecretEnc :: "bytes option"
  wu_Enabled :: "bool option"

definition pg_ListWebhooks :: "db \<Rightarrow> Webhook list" where
  "pg_ListWebhooks db = sort_key (\<lambda>w. (wh_CreatedAt w, wh_ID w)) (webhooks db)"

definition pg_GetWebhook :: "uuid \<Rightarrow> db \<Rightarrow> store_error + Webhook" where
  "pg_GetWebhook i db = (case find (\<lambda>w. wh_ID w = i) (webhooks db) of
      None \<Rightarrow> Inl ErrNotFound
    | Some w \<Rightarrow> Inr w)"

definition new_webhook_row :: "time \<Rightarrow> NewWebhook \<Rightarrow> string list \<Rightarrow> Webhook" where
  "new_webhook_row now w evs = \<lparr>wh_ID = nw_ID w, wh_Type = nw_Type w, wh_Name = nw_Name w, wh_URL = nw_URL w,
     wh_Events = evs, wh_SecretEnc = nw_SecretEnc w, wh_Enabled = nw_Enabled w, wh_CreatedBy = nw_CreatedBy w,
     wh_CreatedAt = now, wh_UpdatedAt = now\<rparr>"

definition pg_CreateWebhook ::
    "time \<Rightarrow> NewWebhook \<Rightarrow> Entry list \<Rightarrow> db \<Rightarrow> (store_error + Webhook) \<times> db" where
  "pg_CreateWebhook now w entries = inTx (\<lambda>db. case nw_Events w of
      None \<Rightarrow> Inl (ErrDB ''insert webhook'')
    | Some evs \<Rightarrow>
        if nw_Type w \<in> set webhook_types \<and> nw_ID w \<notin> set (map wh_ID (webhooks db)) \<and>
           ref_ok (user_ids db) (nw_CreatedBy w)
        then commit now entries (\<lambda>_. new_webhook_row now w evs)
          (db\<lparr>webhooks := webhooks db @ [new_webhook_row now w evs]\<rparr>)
        else Inl (ErrDB ''insert webhook''))"

definition apply_webhook_update :: "time \<Rightarrow> WebhookUpdate \<Rightarrow> Webhook \<Rightarrow> Webhook" where
  "apply_webhook_update now upd w = w\<lparr>wh_Type := coalesce (wu_Type upd) (wh_Type w),
     wh_Name := coalesce (wu_Name upd) (wh_Name w), wh_URL := coalesce (wu_URL upd) (wh_URL w),
     wh_Events := coalesce (wu_Events upd) (wh_Events w),
     wh_SecretEnc := (if wu_SecretSet upd then wu_SecretEnc upd else wh_SecretEnc w),
     wh_Enabled := coalesce (wu_Enabled upd) (wh_Enabled w), wh_UpdatedAt := now\<rparr>"

definition pg_UpdateWebhook ::
    "time \<Rightarrow> uuid \<Rightarrow> WebhookUpdate \<Rightarrow> Entry list \<Rightarrow> db \<Rightarrow> (store_error + Webhook) \<times> db" where
  "pg_UpdateWebhook now i upd entries = inTx (\<lambda>db. case find (\<lambda>w. wh_ID w = i) (webhooks db) of
      None \<Rightarrow> Inl ErrNotFound
    | Some w \<Rightarrow>
        if wh_Type (apply_webhook_update now upd w) \<notin> set webhook_types then Inl (ErrDB ''update webhook'')
        else commit now entries (\<lambda>_. apply_webhook_update now upd w)
          (db\<lparr>webhooks := upd_where (\<lambda>w. wh_ID w = i) (apply_webhook_update now upd) (webhooks db)\<rparr>))"

definition pg_DeleteWebhook :: "time \<Rightarrow> uuid \<Rightarrow> Entry list \<Rightarrow> db \<Rightarrow> (store_error + unit) \<times> db" where
  "pg_DeleteWebhook now i entries = inTx (\<lambda>db.
    if \<not> list_ex (\<lambda>w. wh_ID w = i) (webhooks db) then Inl ErrNotFound
    else commit now entries (\<lambda>_. ()) (db\<lparr>webhooks := filter (\<lambda>w. wh_ID w \<noteq> i) (webhooks db)\<rparr>))"

definition pg_WriteAuditEntries :: "time \<Rightarrow> Entry list \<Rightarrow> db \<Rightarrow> (store_error + unit) \<times> db" where
  "pg_WriteAuditEntries now entries db =
    (if entries = [] then (Inr (), db) else inTx (commit now entries (\<lambda>_. ())) db)"

section \<open>The price list\<close>

record BillingSettingsUpdate =
  bu_PricePerGiBMicro :: "int option"
  bu_PricePerMillionItemsMicro :: "int option"
  bu_Currency :: "string option"

definition pg_GetBillingSettings :: "db \<Rightarrow> store_error + BillingSettings" where
  "pg_GetBillingSettings db = (case billing_settings db of None \<Rightarrow> Inl ErrNotFound | Some b \<Rightarrow> Inr b)"

definition apply_billing_update ::
    "time \<Rightarrow> BillingSettingsUpdate \<Rightarrow> uuid option \<Rightarrow> BillingSettings \<Rightarrow> BillingSettings" where
  "apply_billing_update now upd actor b = \<lparr>
     bs_PricePerGiBMicro = coalesce (bu_PricePerGiBMicro upd) (bs_PricePerGiBMicro b),
     bs_PricePerMillionItemsMicro = coalesce (bu_PricePerMillionItemsMicro upd) (bs_PricePerMillionItemsMicro b),
     bs_Currency = coalesce (bu_Currency upd) (bs_Currency b), bs_UpdatedAt = now, bs_UpdatedBy = actor\<rparr>"

definition pg_UpdateBillingSettings ::
    "time \<Rightarrow> BillingSettingsUpdate \<Rightarrow> uuid option \<Rightarrow> Entry list \<Rightarrow> db \<Rightarrow> (store_error + BillingSettings) \<times> db"
  where
  "pg_UpdateBillingSettings now upd actor entries = inTx (\<lambda>db. case billing_settings db of
      None \<Rightarrow> Inl (ErrDB ''update billing settings'')
    | Some b \<Rightarrow>
        if \<not> ref_ok (user_ids db) actor then Inl (ErrDB ''update billing settings'')
        else commit now entries (\<lambda>_. apply_billing_update now upd actor b)
          (db\<lparr>billing_settings := Some (apply_billing_update now upd actor b)\<rparr>))"

section \<open>Login providers\<close>

record NewAuthProvider =
  nap_ID :: uuid
  nap_Type :: string
  nap_Name :: string
  nap_DisplayName :: string
  nap_ClientID :: string
  nap_ClientSecretEnc :: "bytes option"
  nap_Issuer :: "string option"
  nap_SAMLConfig :: "json option"
  nap_Enabled :: bool

record AuthProviderUpdate =
  apu_DisplayName :: "string option"
  apu_ClientID :: "string option"
  apu_ClientSecretEnc :: "bytes option"
  apu_Issuer :: "string option"
  apu_SAMLConfig :: "json option"
  apu_Enabled :: "bool option"

definition pg_ListAuthProviders :: "bool \<Rightarrow> db \<Rightarrow> AuthProvider list" where
  "pg_ListAuthProviders enabledOnly db = sort_key (\<lambda>p. (ap_CreatedAt p, ap_ID p))
     (filter (\<lambda>p. enabledOnly \<longrightarrow> ap_Enabled p) (auth_providers db))"

definition pg_GetAuthProvider :: "uuid \<Rightarrow> db \<Rightarrow> store_error + AuthProvider" where
  "pg_GetAuthProvider i db = (case find (\<lambda>p. ap_ID p = i) (auth_providers db) of
      None \<Rightarrow> Inl ErrNotFound
    | Some p \<Rightarrow> Inr p)"

definition pg_GetAuthProviderByName :: "string \<Rightarrow> db \<Rightarrow> store_error + AuthProvider" where
  "pg_GetAuthProviderByName name db = (case find (\<lambda>p. ap_Name p = name) (auth_providers db) of
      None \<Rightarrow> Inl ErrNotFound
    | Some p \<Rightarrow> Inr p)"

definition new_provider_row :: "time \<Rightarrow> NewAuthProvider \<Rightarrow> bytes \<Rightarrow> AuthProvider" where
  "new_provider_row now p secret = \<lparr>ap_ID = nap_ID p, ap_Type = nap_Type p, ap_Name = nap_Name p,
     ap_DisplayName = nap_DisplayName p, ap_ClientID = nap_ClientID p, ap_ClientSecretEnc = secret,
     ap_Issuer = nap_Issuer p, ap_SAMLConfig = nap_SAMLConfig p, ap_Enabled = nap_Enabled p,
     ap_CreatedAt = now, ap_UpdatedAt = now\<rparr>"

definition pg_CreateAuthProvider ::
    "time \<Rightarrow> NewAuthProvider \<Rightarrow> Entry list \<Rightarrow> db \<Rightarrow> (store_error + AuthProvider) \<times> db" where
  "pg_CreateAuthProvider now p entries = inTx (\<lambda>db. case nap_ClientSecretEnc p of
      None \<Rightarrow> Inl (ErrDB ''insert auth provider'')
    | Some secret \<Rightarrow>
        if nap_Type p \<notin> set provider_types \<or> nap_ID p \<in> set (map ap_ID (auth_providers db))
        then Inl (ErrDB ''insert auth provider'')
        else if nap_Name p \<in> set (map ap_Name (auth_providers db)) then Inl ErrNameExists
        else commit now entries (\<lambda>_. new_provider_row now p secret)
          (db\<lparr>auth_providers := auth_providers db @ [new_provider_row now p secret]\<rparr>))"

definition apply_provider_update :: "time \<Rightarrow> AuthProviderUpdate \<Rightarrow> AuthProvider \<Rightarrow> AuthProvider" where
  "apply_provider_update now upd p = p\<lparr>
     ap_DisplayName := coalesce (apu_DisplayName upd) (ap_DisplayName p),
     ap_ClientID := coalesce (apu_ClientID upd) (ap_ClientID p),
     ap_ClientSecretEnc := coalesce (apu_ClientSecretEnc upd) (ap_ClientSecretEnc p),
     ap_Issuer := (if apu_Issuer upd = None then ap_Issuer p else apu_Issuer upd),
     ap_SAMLConfig := (if apu_SAMLConfig upd = None then ap_SAMLConfig p else apu_SAMLConfig upd),
     ap_Enabled := coalesce (apu_Enabled upd) (ap_Enabled p), ap_UpdatedAt := now\<rparr>"

definition pg_UpdateAuthProvider ::
    "time \<Rightarrow> uuid \<Rightarrow> AuthProviderUpdate \<Rightarrow> Entry list \<Rightarrow> db \<Rightarrow> (store_error + AuthProvider) \<times> db" where
  "pg_UpdateAuthProvider now i upd entries = inTx (\<lambda>db.
    case find (\<lambda>p. ap_ID p = i) (auth_providers db) of
      None \<Rightarrow> Inl ErrNotFound
    | Some p \<Rightarrow> commit now entries (\<lambda>_. apply_provider_update now upd p)
        (db\<lparr>auth_providers := upd_where (\<lambda>p. ap_ID p = i) (apply_provider_update now upd) (auth_providers db)\<rparr>))"

definition pg_DeleteAuthProvider :: "time \<Rightarrow> uuid \<Rightarrow> Entry list \<Rightarrow> db \<Rightarrow> (store_error + unit) \<times> db" where
  "pg_DeleteAuthProvider now i entries = inTx (\<lambda>db.
    if \<not> list_ex (\<lambda>p. ap_ID p = i) (auth_providers db) then Inl ErrNotFound
    else commit now entries (\<lambda>_. ()) (db\<lparr>auth_providers := filter (\<lambda>p. ap_ID p \<noteq> i) (auth_providers db)\<rparr>))"

section \<open>The constraints of the schema\<close>

lemma CreateAPIToken_wf [inv_intros]: "db_wf db \<Longrightarrow> db_wf (snd (pg_CreateAPIToken now t es db))"
  unfolding pg_CreateAPIToken_def
  by (rule inTx_wf, assumption)
    (auto split: if_splits elim!: commit_wf intro!: db_wf_api_tokens
      simp: api_tokens_wf_def new_api_token_row_def dest: db_wfD(13))

lemma revoke_tokens_wf:
  "api_tokens_wf uids ts \<Longrightarrow>
   api_tokens_wf uids (upd_where P (\<lambda>t. t\<lparr>pat_RevokedAt := Some now\<rparr>) ts)"
  by (auto simp: api_tokens_wf_def list_all_iff elim!: upd_where_cases)

lemma RevokeAPIToken_wf [inv_intros]: "db_wf db \<Longrightarrow> db_wf (snd (pg_RevokeAPIToken now i es db))"
  unfolding pg_RevokeAPIToken_def
  by (rule inTx_wf, assumption)
    (auto split: if_splits elim!: commit_wf intro!: db_wf_api_tokens revoke_tokens_wf dest: db_wfD(13))

lemma CreateWebhook_wf [inv_intros]: "db_wf db \<Longrightarrow> db_wf (snd (pg_CreateWebhook now w es db))"
  unfolding pg_CreateWebhook_def
  by (rule inTx_wf, assumption)
    (auto split: if_splits option.splits elim!: commit_wf intro!: db_wf_webhooks
      simp: webhooks_wf_def new_webhook_row_def dest: db_wfD(12))

lemma UpdateWebhook_wf [inv_intros]:
  assumes "db_wf db"
  shows "db_wf (snd (pg_UpdateWebhook now i upd es db))"
  unfolding pg_UpdateWebhook_def
proof (rule inTx_wf [OF assms])
  fix x db'
  have w: "webhooks_wf (user_ids db) (webhooks db)" using assms by (rule db_wfD)
  assume "(case find (\<lambda>w. wh_ID w = i) (webhooks db) of None \<Rightarrow> Inl ErrNotFound
    | Some w \<Rightarrow> if wh_Type (apply_webhook_update now upd w) \<notin> set webhook_types
        then Inl (ErrDB ''update webhook'')
        else commit now es (\<lambda>_. apply_webhook_update now upd w)
          (db\<lparr>webhooks := upd_where (\<lambda>w. wh_ID w = i) (apply_webhook_update now upd) (webhooks db)\<rparr>))
    = Inr (x, db')"
  then obtain v where v: "find (\<lambda>w. wh_ID w = i) (webhooks db) = Some v"
    and t: "wh_Type (apply_webhook_update now upd v) \<in> set webhook_types"
    and c: "commit now es (\<lambda>_. apply_webhook_update now upd v)
      (db\<lparr>webhooks := upd_where (\<lambda>w. wh_ID w = i) (apply_webhook_update now upd) (webhooks db)\<rparr>) = Inr (x, db')"
    by (auto split: option.splits if_splits)
  have d: "distinct (map wh_ID (webhooks db))" using w by (simp add: webhooks_wf_def)
  have "y = v" if "y \<in> set (webhooks db)" "wh_ID y = i" for y
    using find_SomeD [OF v] distinct_map_inj [OF d that(1)] that(2) by simp
  with w t have "webhooks_wf (user_ids db)
      (upd_where (\<lambda>w. wh_ID w = i) (apply_webhook_update now upd) (webhooks db))"
    by (auto simp: webhooks_wf_def list_all_iff apply_webhook_update_def elim!: upd_where_cases)
  from commit_wf [OF c db_wf_webhooks [OF assms this]] show "db_wf db'" .
qed

lemma DeleteWebhook_wf [inv_intros]: "db_wf db \<Longrightarrow> db_wf (snd (pg_DeleteWebhook now i es db))"
  unfolding pg_DeleteWebhook_def
  by (rule inTx_wf, assumption)
    (auto split: if_splits elim!: commit_wf intro!: db_wf_webhooks
      simp: webhooks_wf_def list_all_iff distinct_map_filter dest: db_wfD(12))

lemma WriteAuditEntries_wf [inv_intros]: "db_wf db \<Longrightarrow> db_wf (snd (pg_WriteAuditEntries now es db))"
  unfolding pg_WriteAuditEntries_def by (auto intro!: inTx_wf elim: commit_wf)

lemma UpdateBillingSettings_wf [inv_intros]:
  "db_wf db \<Longrightarrow> db_wf (snd (pg_UpdateBillingSettings now upd actor es db))"
  unfolding pg_UpdateBillingSettings_def
  by (rule inTx_wf, assumption)
    (auto split: if_splits option.splits elim!: commit_wf intro!: db_wf_billing
      simp: billing_wf_def apply_billing_update_def)

lemma CreateAuthProvider_wf [inv_intros]: "db_wf db \<Longrightarrow> db_wf (snd (pg_CreateAuthProvider now p es db))"
  unfolding pg_CreateAuthProvider_def
  by (rule inTx_wf, assumption)
    (auto split: if_splits option.splits elim!: commit_wf intro!: db_wf_auth_providers
      simp: providers_wf_def new_provider_row_def dest: db_wfD(11))

lemma update_providers_wf:
  "providers_wf ps \<Longrightarrow> providers_wf (upd_where P (apply_provider_update now upd) ps)"
  by (auto simp: providers_wf_def list_all_iff apply_provider_update_def elim!: upd_where_cases)

lemma UpdateAuthProvider_wf [inv_intros]:
  "db_wf db \<Longrightarrow> db_wf (snd (pg_UpdateAuthProvider now i upd es db))"
  unfolding pg_UpdateAuthProvider_def
  by (rule inTx_wf, assumption)
    (auto split: option.splits elim!: commit_wf intro!: db_wf_auth_providers update_providers_wf dest: db_wfD(11))

lemma DeleteAuthProvider_wf [inv_intros]: "db_wf db \<Longrightarrow> db_wf (snd (pg_DeleteAuthProvider now i es db))"
  unfolding pg_DeleteAuthProvider_def
  by (rule inTx_wf, assumption)
    (auto split: if_splits elim!: commit_wf intro!: db_wf_auth_providers
      simp: providers_wf_def list_all_iff distinct_map_filter dest: db_wfD(11))

section \<open>Revoked tokens stay revoked\<close>

inductive settings_step :: "db \<Rightarrow> db \<Rightarrow> bool" where
  create_token: "settings_step db (snd (pg_CreateAPIToken now t es db))"
| revoke_token: "settings_step db (snd (pg_RevokeAPIToken now i es db))"
| create_webhook: "settings_step db (snd (pg_CreateWebhook now w es db))"
| update_webhook: "settings_step db (snd (pg_UpdateWebhook now i wu es db))"
| delete_webhook: "settings_step db (snd (pg_DeleteWebhook now i es db))"
| write_audit: "settings_step db (snd (pg_WriteAuditEntries now es db))"
| update_billing: "settings_step db (snd (pg_UpdateBillingSettings now bu actor es db))"
| create_provider: "settings_step db (snd (pg_CreateAuthProvider now p es db))"
| update_provider: "settings_step db (snd (pg_UpdateAuthProvider now i pu es db))"
| delete_provider: "settings_step db (snd (pg_DeleteAuthProvider now i es db))"

lemma settings_step_wf: "settings_step db db' \<Longrightarrow> db_wf db \<Longrightarrow> db_wf db'"
  by (induction rule: settings_step.induct) (auto intro: inv_intros)

definition token_revoked :: "uuid \<Rightarrow> db \<Rightarrow> bool" where
  "token_revoked i db = list_ex (\<lambda>t. pat_ID t = i \<and> pat_RevokedAt t \<noteq> None) (api_tokens db)"

lemma inTx_revoked:
  assumes "token_revoked i db" "\<And>x db'. fn db = Inr (x, db') \<Longrightarrow> token_revoked i db'"
  shows "token_revoked i (snd (inTx fn db))"
  using assms by (rule inTx_keeps)

lemma commit_tokens: "commit now es f db = Inr (x, db') \<Longrightarrow> api_tokens db' = api_tokens db"
  by (auto simp: commit_Inr store_simps)

lemma revoke_keeps_revoked:
  "list_ex (\<lambda>t. pat_ID t = i \<and> pat_RevokedAt t \<noteq> None) ts \<Longrightarrow>
   list_ex (\<lambda>t. pat_ID t = i \<and> pat_RevokedAt t \<noteq> None)
     (upd_where (\<lambda>t. pat_ID t = j \<and> pat_RevokedAt t = None) (\<lambda>t. t\<lparr>pat_RevokedAt := Some now\<rparr>) ts)"
  by (induction ts) auto

lemma revoke_marks:
  "list_ex (\<lambda>t. pat_ID t = i) ts \<Longrightarrow>
   list_ex (\<lambda>t. pat_ID t = i \<and> pat_RevokedAt t \<noteq> None)
     (upd_where (\<lambda>t. pat_ID t = i \<and> pat_RevokedAt t = None) (\<lambda>t. t\<lparr>pat_RevokedAt := Some now\<rparr>) ts)"
  by (induction ts) auto

lemma settings_step_revoked:
  assumes "settings_step db db'" "token_revoked i db"
  shows "token_revoked i db'"
  using assms
proof (induction rule: settings_step.induct)
  case (create_token db now t es)
  then show ?case unfolding pg_CreateAPIToken_def
    by (rule inTx_revoked) (use create_token in \<open>auto split: if_splits simp: token_revoked_def dest!: commit_tokens\<close>)
next
  case (revoke_token db now j es)
  then show ?case unfolding pg_RevokeAPIToken_def
    by (rule inTx_revoked)
      (use revoke_token in \<open>auto split: if_splits simp: token_revoked_def revoke_keeps_revoked
        simp del: not_None_eq dest!: commit_tokens\<close>)
next
  case (write_audit db now es)
  then show ?case
    by (auto simp: pg_WriteAuditEntries_def token_revoked_def inTx_def split: sum.splits dest!: commit_tokens)
qed (simp_all add: pg_CreateWebhook_def pg_UpdateWebhook_def pg_DeleteWebhook_def pg_UpdateBillingSettings_def
    pg_CreateAuthProvider_def pg_UpdateAuthProvider_def pg_DeleteAuthProvider_def inTx_def token_revoked_def
    split: sum.splits option.splits if_splits prod.splits, auto dest!: commit_tokens)

lemma RevokeAPIToken_revokes:
  assumes "pg_RevokeAPIToken now i es db = (Inr (), db')"
  shows "token_revoked i db'"
proof -
  let ?ts = "upd_where (\<lambda>t. pat_ID t = i \<and> pat_RevokedAt t = None) (\<lambda>t. t\<lparr>pat_RevokedAt := Some now\<rparr>) (api_tokens db)"
  from assms have ex: "list_ex (\<lambda>t. pat_ID t = i) (api_tokens db)"
    and db': "commit now es (\<lambda>_. ()) (db\<lparr>api_tokens := ?ts\<rparr>) = Inr ((), db')"
    by (auto simp: pg_RevokeAPIToken_def inTx_Inr list_ex_iff split: if_splits)
  have "list_ex (\<lambda>t. pat_ID t = i \<and> pat_RevokedAt t \<noteq> None) ?ts"
    using ex by (rule revoke_marks)
  with commit_tokens [OF db'] show ?thesis by (simp add: token_revoked_def)
qed

end
