(* ===== verification/ApiGuard.thy ===== *)
theory ApiGuard
  imports Keys StoreSettings
begin

text \<open>
  Authentication and authorisation of the management API: browser sessions
  (\<open>internal/auth/session.go\<close>), management-API tokens (\<open>internal/api/tokenauth.go\<close>), the \<open>Guard\<close>
  middleware (\<open>internal/api/middleware.go\<close>) and the customer scope the handlers ask for
  (\<open>internal/api/scope.go\<close>).

  The session manager (package scs) is seen through the data of the request's session, a map from
  keys to strings; \<open>uuid.Parse\<close> is the argument \<open>parse\<close>. The store is the interface \<open>GuardStore\<close> of the
  middleware, whose calls may fail.
\<close>

section \<open>Sessions\<close>

type_synonym session_data = "string \<Rightarrow> string option"

definition sessUserID :: string where
  "sessUserID = ''user_id''"

definition sessCSRF :: string where
  "sessCSRF = ''csrf_token''"

definition GetString :: "session_data \<Rightarrow> string \<Rightarrow> string" where
  "GetString s k = (case s k of None \<Rightarrow> '''' | Some v \<Rightarrow> v)"

record Principal =
  p_User :: User
  p_CSRFToken :: string
  p_AllCustomers :: bool
  p_AllowedCustomers :: "uuid list"

definition CanAccessCustomer :: "Principal \<Rightarrow> uuid option \<Rightarrow> bool" where
  "CanAccessCustomer p i \<longleftrightarrow> p_AllCustomers p \<or>
    (case i of None \<Rightarrow> False | Some c \<Rightarrow> c \<in> set (p_AllowedCustomers p))"

text \<open>\<open>newToken\<close> takes the 32 bytes it draws; \<open>Login\<close> whether the session token could be renewed.\<close>

definition newToken :: "bytes \<Rightarrow> string" where
  "newToken rnd = hexEncode rnd"

definition Login :: "bool \<Rightarrow> bytes \<Rightarrow> uuid \<Rightarrow> session_data \<Rightarrow> (string + unit) \<times> session_data" where
  "Login renewed rnd userID s =
    (if \<not> renewed then (Inl ''renew session token'', s)
     else (Inr (), s(sessUserID \<mapsto> uuid_String userID, sessCSRF \<mapsto> newToken rnd)))"

definition Logout :: "session_data \<Rightarrow> session_data" where
  "Logout s = (\<lambda>_. None)"

definition Sessions_UserID :: "(string \<Rightarrow> uuid option) \<Rightarrow> session_data \<Rightarrow> uuid option" where
  "Sessions_UserID parse s =
    (let raw = GetString s sessUserID in if raw = '''' then None else parse raw)"

definition Sessions_CSRFToken :: "bytes \<Rightarrow> session_data \<Rightarrow> string \<times> session_data" where
  "Sessions_CSRFToken rnd s =
    (let tok = GetString s sessCSRF
     in if tok = '''' then (newToken rnd, s(sessCSRF \<mapsto> newToken rnd)) else (tok, s))"

definition ValidCSRF :: "session_data \<Rightarrow> string \<Rightarrow> bool" where
  "ValidCSRF s presented \<longleftrightarrow>
    (let tok = GetString s sessCSRF in \<not> (tok = '''' \<or> presented = '''') \<and> tok = presented)"

section \<open>The store the middleware sees\<close>

record GuardStore =
  gs_GetUser :: "uuid \<Rightarrow> store_error + User"
  gs_ListUserCustomerIDs :: "uuid \<Rightarrow> store_error + uuid list"
  gs_ActiveAPITokensByPrefix :: "string \<Rightarrow> store_error + APITokenAuth list"

text \<open>The database as a \<open>GuardStore\<close>, where \<open>down\<close> says which of the three calls lose their
  connection.\<close>

definition pg_guard :: "(nat \<Rightarrow> bool) \<Rightarrow> db \<Rightarrow> GuardStore" where
  "pg_guard down db = \<lparr>
     gs_GetUser = (\<lambda>i. if down 0 then Inl (ErrDB ''connection'') else pg_GetUser i db),
     gs_ListUserCustomerIDs = (\<lambda>i. if down 1 then Inl (ErrDB ''connection'') else Inr (pg_ListUserCustomerIDs i db)),
     gs_ActiveAPITokensByPrefix =
       (\<lambda>p. if down 2 then Inl (ErrDB ''connection'') else Inr (pg_ActiveAPITokensByPrefix p db))\<rparr>"

section \<open>Management-API tokens\<close>

definition match_token :: "bytes \<Rightarrow> APITokenAuth list \<Rightarrow> APITokenAuth option" where
  "match_token hash toks = find (\<lambda>t. hash = ta_TokenHash t) toks"

definition authenticateAPIToken :: "GuardStore \<Rightarrow> time \<Rightarrow> string \<Rightarrow> (string \<times> uuid option) option" where
  "authenticateAPIToken ts now authorization =
    (case CutPrefix authorization ''Bearer '' of
       None \<Rightarrow> None
     | Some raw \<Rightarrow>
         if raw = '''' then None
         else (case ParseAPITokenPrefix raw of
             None \<Rightarrow> None
           | Some pfx \<Rightarrow> (case gs_ActiveAPITokensByPrefix ts pfx of
                 Inl _ \<Rightarrow> None
               | Inr toks \<Rightarrow> (case match_token (HashAPIKey raw) toks of
                     None \<Rightarrow> None
                   | Some t \<Rightarrow>
                       if (case ta_ExpiresAt t of None \<Rightarrow> False | Some e \<Rightarrow> \<not> now < e) then None
                       else Some (ta_Role t, ta_CreatedBy t)))))"

definition looksLikeAPIToken :: "string \<Rightarrow> bool" where
  "looksLikeAPIToken authorization =
    (case CutPrefix authorization ''Bearer '' of
       None \<Rightarrow> False
     | Some raw \<Rightarrow> ParseAPITokenPrefix raw \<noteq> None)"

section \<open>The middleware\<close>

definition publicPaths :: "string list" where
  "publicPaths = [''/api/v1/auth/providers'', ''/api/v1/auth/dev-login'']"

definition logoutPath :: string where
  "logoutPath = ''/api/v1/auth/logout''"

definition adminPathPrefixes :: "string list" where
  "adminPathPrefixes = [''/api/v1/users'', ''/api/v1/settings/auth-providers'', ''/api/v1/settings/api-tokens'',
     ''/api/v1/settings/billing'', ''/api/v1/billing'', ''/api/v1/audit'']"

definition isAdminOnlyPath :: "string \<Rightarrow> bool" where
  "isAdminOnlyPath path = list_ex (\<lambda>p. path = p \<or> HasPrefix path (p @ ''/'')) adminPathPrefixes"

definition isMutating :: "string \<Rightarrow> bool" where
  "isMutating method \<longleftrightarrow> method \<in> set [''POST'', ''PUT'', ''PATCH'', ''DELETE'']"

record request =
  r_Path :: string
  r_Method :: string
  r_Authorization :: string
  r_CSRF :: string

text \<open>What the middleware answers itself (status, code, message), or the principal with which it calls
  the next handler (\<^term>\<open>None\<close> on a public path).\<close>

datatype guarded =
    Rejected int string string
  | Served "Principal option"

definition token_principal :: "string \<Rightarrow> uuid option \<Rightarrow> Principal" where
  "token_principal role createdBy = \<lparr>
     p_User = \<lparr>u_ID = coalesce createdBy uuid_Nil, u_Email = ''api-token'', u_DisplayName = None, u_Role = role,
       u_ExternalID = None, u_DisabledAt = None, u_LastLoginAt = None, u_CreatedAt = zero_time\<rparr>,
     p_CSRFToken = '''', p_AllCustomers = True, p_AllowedCustomers = []\<rparr>"

definition Guard_token :: "GuardStore \<Rightarrow> time \<Rightarrow> request \<Rightarrow> guarded" where
  "Guard_token us now r =
    (case authenticateAPIToken us now (r_Authorization r) of
       None \<Rightarrow> Rejected 401 ''unauthorized'' ''invalid API token''
     | Some (role, createdBy) \<Rightarrow>
         if isAdminOnlyPath (r_Path r) \<and> \<not> AtLeast role RoleAdmin
         then Rejected 403 ''forbidden'' ''requires admin role''
         else if isMutating (r_Method r) \<and> r_Path r \<noteq> logoutPath \<and> \<not> CanMutate role
         then Rejected 403 ''forbidden'' ''requires operator or admin role''
         else Served (Some (token_principal role createdBy)))"

definition scope_principal :: "GuardStore \<Rightarrow> User \<Rightarrow> string \<Rightarrow> guarded" where
  "scope_principal us user csrf =
    (let p = \<lparr>p_User = user, p_CSRFToken = csrf, p_AllCustomers = False, p_AllowedCustomers = []\<rparr>
     in if AtLeast (u_Role user) RoleAdmin then Served (Some (p\<lparr>p_AllCustomers := True\<rparr>))
        else (case gs_ListUserCustomerIDs us (u_ID user) of
            Inl _ \<Rightarrow> Rejected 500 ''internal'' ''internal server error''
          | Inr grants \<Rightarrow>
              if grants = [] then Served (Some (p\<lparr>p_AllCustomers := True\<rparr>))
              else Served (Some (p\<lparr>p_AllowedCustomers := grants\<rparr>))))"

definition Guard_session ::
    "(string \<Rightarrow> uuid option) \<Rightarrow> GuardStore \<Rightarrow> bytes \<Rightarrow> request \<Rightarrow> session_data \<Rightarrow> guarded \<times> session_data" where
  "Guard_session parse us rnd r s =
    (case Sessions_UserID parse s of
       None \<Rightarrow> (Rejected 401 ''unauthorized'' ''authentication required'', s)
     | Some userID \<Rightarrow> (case gs_GetUser us userID of
         Inl ErrNotFound \<Rightarrow> (Rejected 401 ''unauthorized'' ''unknown user'', s)
       | Inl _ \<Rightarrow> (Rejected 500 ''internal'' ''internal server error'', s)
       | Inr user \<Rightarrow>
           if u_DisabledAt user \<noteq> None then (Rejected 401 ''unauthorized'' ''account disabled'', s)
           else if isAdminOnlyPath (r_Path r) \<and> \<not> AtLeast (u_Role user) RoleAdmin
           then (Rejected 403 ''forbidden'' ''requires admin role'', s)
           else if isMutating (r_Method r) \<and> \<not> ValidCSRF s (r_CSRF r)
           then (Rejected 403 ''forbidden'' ''missing or invalid CSRF token'', s)
           else if isMutating (r_Method r) \<and> r_Path r \<noteq> logoutPath \<and> \<not> CanMutate (u_Role user)
           then (Rejected 403 ''forbidden'' ''requires operator or admin role'', s)
           else (let (csrf, s') = Sessions_CSRFToken rnd s in (scope_principal us user csrf, s'))))"

definition Guard ::
    "(string \<Rightarrow> uuid option) \<Rightarrow> GuardStore \<Rightarrow> time \<Rightarrow> bytes \<Rightarrow> request \<Rightarrow> session_data \<Rightarrow> guarded \<times> session_data"
  where
  "Guard parse us now rnd r s =
    (if r_Path r \<in> set publicPaths then (Served None, s)
     else if looksLikeAPIToken (r_Authorization r) then (Guard_token us now r, s)
     else Guard_session parse us rnd r s)"

section \<open>Customer scope\<close>

definition requireCustomerAccess :: "Principal option \<Rightarrow> uuid option \<Rightarrow> string + unit" where
  "requireCustomerAccess pr customerID = (case pr of
      None \<Rightarrow> Inr ()
    | Some p \<Rightarrow>
        if p_AllCustomers p then Inr ()
        else if \<not> CanAccessCustomer p customerID then Inl ''you do not have access to this customer''
        else Inr ())"

definition requireUnscoped :: "Principal option \<Rightarrow> string + unit" where
  "requireUnscoped pr = (case pr of
      None \<Rightarrow> Inr ()
    | Some p \<Rightarrow> if p_AllCustomers p then Inr () else Inl ''this action requires access to all customers'')"

text \<open>\<^term>\<open>None\<close> is an unscoped caller.\<close>

definition customerScope :: "Principal option \<Rightarrow> uuid list option" where
  "customerScope pr = (case pr of
      None \<Rightarrow> None
    | Some p \<Rightarrow> if p_AllCustomers p then None else Some (p_AllowedCustomers p))"

definition requirePipelineAccess ::
    "(uuid \<Rightarrow> store_error + Pipeline) \<Rightarrow> Principal option \<Rightarrow> uuid \<Rightarrow> string + unit" where
  "requirePipelineAccess getPipeline pr pipelineID =
    (if customerScope pr = None then Inr ()
     else (case getPipeline pipelineID of
         Inl _ \<Rightarrow> Inr ()
       | Inr pipe \<Rightarrow> requireCustomerAccess pr (Some (pl_CustomerID pipe))))"

section \<open>What the middleware lets through\<close>

definition token_ok :: "db \<Rightarrow> time \<Rightarrow> string \<Rightarrow> api_token_row \<Rightarrow> bool" where
  "token_ok db now secret t \<longleftrightarrow> t \<in> set (api_tokens db) \<and> pat_TokenHash t = HashAPIKey secret \<and>
     pat_RevokedAt t = None \<and> (case pat_ExpiresAt t of None \<Rightarrow> True | Some e \<Rightarrow> now < e)"

text \<open>The role demands of a request, and the users whose requests may be scoped to some customers.\<close>

definition role_allows :: "string \<Rightarrow> request \<Rightarrow> bool" where
  "role_allows role r \<longleftrightarrow> (isAdminOnlyPath (r_Path r) \<longrightarrow> role = RoleAdmin) \<and>
     (isMutating (r_Method r) \<and> r_Path r \<noteq> logoutPath \<longrightarrow> role \<in> {RoleOperator, RoleAdmin})"

definition granted :: "db \<Rightarrow> User \<Rightarrow> uuid set" where
  "granted db u = {c. (u_ID u, c) \<in> set (user_customer_grants db)}"

definition unscoped :: "db \<Rightarrow> User \<Rightarrow> bool" where
  "unscoped db u \<longleftrightarrow> u_Role u = RoleAdmin \<or> granted db u = {}"

text \<open>The interface: whatever a call answers is in the database.\<close>

locale guard_store =
  fixes gs :: GuardStore and db :: db
  assumes GetUser_row: "gs_GetUser gs i = Inr u \<Longrightarrow> u \<in> set (users db) \<and> u_ID u = i"
    and grants_rows: "gs_ListUserCustomerIDs gs i = Inr cs \<Longrightarrow> set cs = {c. (i, c) \<in> set (user_customer_grants db)}"
    and token_rows: "gs_ActiveAPITokensByPrefix gs p = Inr ts \<Longrightarrow> a \<in> set ts \<Longrightarrow>
      \<exists>t \<in> set (api_tokens db). pat_RevokedAt t = None \<and> pat_TokenHash t = ta_TokenHash a \<and>
        pat_Role t = ta_Role a \<and> pat_CreatedBy t = ta_CreatedBy a \<and> pat_ExpiresAt t = ta_ExpiresAt a"
begin

lemma token_authenticated:
  assumes "authenticateAPIToken gs now h = Some (role, cb)"
  shows "\<exists>secret t. h = ''Bearer '' @ secret \<and> token_ok db now secret t \<and> pat_Role t = role \<and> pat_CreatedBy t = cb"
proof -
  from assms obtain raw pfx ts a where raw: "CutPrefix h ''Bearer '' = Some raw"
    and ts: "gs_ActiveAPITokensByPrefix gs pfx = Inr ts" and a: "match_token (HashAPIKey raw) ts = Some a"
    and e: "case ta_ExpiresAt a of None \<Rightarrow> True | Some e \<Rightarrow> now < e" and r: "ta_Role a = role" "ta_CreatedBy a = cb"
    by (auto simp: authenticateAPIToken_def split: option.splits if_splits sum.splits)
  from a have "a \<in> set ts" "ta_TokenHash a = HashAPIKey raw"
    by (auto simp: match_token_def dest!: find_SomeD)
  with token_rows [OF ts] obtain t where t: "t \<in> set (api_tokens db)" "pat_RevokedAt t = None"
    "pat_TokenHash t = HashAPIKey raw" "pat_Role t = ta_Role a" "pat_CreatedBy t = ta_CreatedBy a"
    "pat_ExpiresAt t = ta_ExpiresAt a" by metis
  with e r have "token_ok db now raw t" "pat_Role t = role" "pat_CreatedBy t = cb"
    by (simp_all add: token_ok_def)
  moreover have "h = ''Bearer '' @ raw" using raw by (rule CutPrefix_SomeD)
  ultimately show ?thesis by blast
qed

lemma token_served:
  assumes "Guard_token gs now r = Served pr"
  shows "\<exists>secret t. r_Authorization r = ''Bearer '' @ secret \<and> token_ok db now secret t \<and>
    role_allows (pat_Role t) r \<and> pr = Some (token_principal (pat_Role t) (pat_CreatedBy t))"
  using assms by (auto simp: Guard_token_def role_allows_def CanMutate_iff AtLeast_Admin_iff
      split: option.splits if_splits dest!: token_authenticated)

lemma scope_served:
  assumes "scope_principal gs u csrf = Served pr"
  shows "\<exists>p. pr = Some p \<and> p_User p = u \<and> p_CSRFToken p = csrf \<and>
    p_AllCustomers p = unscoped db u \<and> (\<not> unscoped db u \<longrightarrow> set (p_AllowedCustomers p) = granted db u)"
proof (cases "u_Role u = RoleAdmin")
  case True
  then show ?thesis using assms
    by (auto simp: scope_principal_def Let_def unscoped_def AtLeast_Admin_iff)
next
  case False
  with assms obtain cs where cs: "gs_ListUserCustomerIDs gs (u_ID u) = Inr cs"
    by (auto simp: scope_principal_def Let_def AtLeast_Admin_iff split: sum.splits)
  from grants_rows [OF cs] have "set cs = granted db u" by (simp add: granted_def)
  with False cs assms show ?thesis
    by (auto simp: scope_principal_def Let_def unscoped_def AtLeast_Admin_iff split: if_splits)
qed

lemma session_served:
  assumes "Guard_session parse gs rnd r s = (Served pr, s')"
  shows "\<exists>i u p. Sessions_UserID parse s = Some i \<and> u \<in> set (users db) \<and> u_ID u = i \<and> u_DisabledAt u = None \<and>
    role_allows (u_Role u) r \<and> (isMutating (r_Method r) \<longrightarrow> ValidCSRF s (r_CSRF r)) \<and>
    pr = Some p \<and> p_User p = u \<and> p_AllCustomers p = unscoped db u \<and>
    (\<not> unscoped db u \<longrightarrow> set (p_AllowedCustomers p) = granted db u)"
proof -
  from assms obtain i u csrf where i: "Sessions_UserID parse s = Some i" and u: "gs_GetUser gs i = Inr u"
    and en: "u_DisabledAt u = None" and ro: "role_allows (u_Role u) r"
    and cs: "isMutating (r_Method r) \<longrightarrow> ValidCSRF s (r_CSRF r)" and sc: "scope_principal gs u csrf = Served pr"
    by (auto simp: Guard_session_def role_allows_def CanMutate_iff AtLeast_Admin_iff
        split: option.splits sum.splits store_error.splits if_splits prod.splits)
  from scope_served [OF sc] GetUser_row [OF u] i en ro cs show ?thesis by blast
qed

end

interpretation pg: guard_store "pg_guard down db" db for down db
proof (standard, goal_cases)
  case (1 i u)
  then show ?case by (auto simp: pg_guard_def pg_GetUser_def split: if_splits option.splits dest: find_SomeD)
next
  case (2 i cs)
  then show ?case by (force simp: pg_guard_def pg_ListUserCustomerIDs_def split: if_splits)
next
  case (3 p ts a)
  then obtain t where "t \<in> set (api_tokens db)" "pat_RevokedAt t = None"
    "a = \<lparr>ta_ID = pat_ID t, ta_Role = pat_Role t, ta_CreatedBy = pat_CreatedBy t,
       ta_TokenHash = pat_TokenHash t, ta_ExpiresAt = pat_ExpiresAt t\<rparr>"
    by (auto simp: pg_guard_def pg_ActiveAPITokensByPrefix_def split: if_splits)
  then show ?case by (intro bexI [of _ t]) simp_all
qed

section \<open>Properties\<close>

text \<open>An admin, a viewer who is granted one customer, and a management token of the admin; a session of
  each user.\<close>

definition sample_pat :: string where
  "sample_pat = ''otm_pat_00000000_x''"

definition sample_token_row :: api_token_row where
  "sample_token_row = \<lparr>pat_ID = 3, pat_Name = ''ci'', pat_TokenPrefix = ''otm_pat_00000000'',
     pat_TokenHash = HashAPIKey sample_pat, pat_Role = ''operator'', pat_CreatedBy = Some 5, pat_CreatedAt = 0,
     pat_ExpiresAt = None, pat_RevokedAt = None, pat_LastUsedAt = None\<rparr>"

definition sample_guard_db :: db where
  "sample_guard_db = sample_users_db\<lparr>
     users := [sample_admin, sample_admin\<lparr>u_ID := 6, u_Email := ''v@x.de'', u_Role := ''viewer''\<rparr>],
     user_customer_grants := [(6, 1)], api_tokens := [sample_token_row]\<rparr>"

definition sample_session :: session_data where
  "sample_session = [sessUserID \<mapsto> ''u'', sessCSRF \<mapsto> ''c'']"

definition get_request :: request where
  "get_request = \<lparr>r_Path = ''/api/v1/pipelines'', r_Method = ''GET'', r_Authorization = '''', r_CSRF = ''''\<rparr>"

lemmas guard_defs = Guard_def Guard_token_def Guard_session_def Sessions_UserID_def GetString_def
  Sessions_CSRFToken_def ValidCSRF_def scope_principal_def isAdminOnlyPath_def adminPathPrefixes_def
  isMutating_def publicPaths_def logoutPath_def HasPrefix_def looksLikeAPIToken_def CutPrefix_def sessUserID_def
  sessCSRF_def

lemmas sample_guard_defs = sample_guard_db_def sample_session_def get_request_def sample_token_row_def
  sample_users_db_def sample_admin_def db_init_def pg_guard_def pg_GetUser_def pg_ListUserCustomerIDs_def
  pg_ActiveAPITokensByPrefix_def

lemma sample_get:
  "Guard (\<lambda>_. Some 6) (pg_guard (\<lambda>_. False) sample_guard_db) 7 [] get_request sample_session =
   (Served (Some \<lparr>p_User = sample_admin\<lparr>u_ID := 6, u_Email := ''v@x.de'', u_Role := ''viewer''\<rparr>, p_CSRFToken = ''c'',
      p_AllCustomers = False, p_AllowedCustomers = [1]\<rparr>), sample_session)"
  by (simp add: guard_defs sample_guard_defs Let_def AtLeast_def level_def role_defs)

text \<open>C25: who gets past the middleware. Outside the two public paths a request reaches a handler only
  with an unrevoked, unexpired management token of a stored hash, or with the session of a stored user
  who is not disabled; admin areas need the admin role for every method, mutations other than the logout
  the operator or admin role, and mutations by cookie the session's own CSRF token.\<close>

theorem Guard_sound:
  assumes "Guard parse (pg_guard down db) now rnd r s = (Served pr, s')" "r_Path r \<notin> set publicPaths"
  shows "(\<exists>secret t. r_Authorization r = ''Bearer '' @ secret \<and> token_ok db now secret t \<and>
      role_allows (pat_Role t) r \<and> pr = Some (token_principal (pat_Role t) (pat_CreatedBy t)))
    \<or> (\<exists>u p. Sessions_UserID parse s = Some (u_ID u) \<and> u \<in> set (users db) \<and> u_DisabledAt u = None \<and>
      role_allows (u_Role u) r \<and> pr = Some p \<and> p_User p = u \<and>
      (isMutating (r_Method r) \<longrightarrow> r_CSRF r \<noteq> '''' \<and> s sessCSRF = Some (r_CSRF r)))"
proof (cases "looksLikeAPIToken (r_Authorization r)")
  case True
  with assms have "Guard_token (pg_guard down db) now r = Served pr" by (simp add: Guard_def)
  from pg.token_served [OF this] show ?thesis by blast
next
  case False
  with assms have "Guard_session parse (pg_guard down db) rnd r s = (Served pr, s')" by (simp add: Guard_def)
  from pg.session_served [OF this] obtain u p where u: "Sessions_UserID parse s = Some (u_ID u)" "u \<in> set (users db)"
    "u_DisabledAt u = None" "role_allows (u_Role u) r" "pr = Some p" "p_User p = u"
    and c: "isMutating (r_Method r) \<longrightarrow> ValidCSRF s (r_CSRF r)" by blast
  from c have "isMutating (r_Method r) \<longrightarrow> r_CSRF r \<noteq> '''' \<and> s sessCSRF = Some (r_CSRF r)"
    by (auto simp: ValidCSRF_def Let_def GetString_def split: option.splits)
  with u show ?thesis by blast
qed

theorem Guard_sound_witness:
  "\<exists>pr. Guard (\<lambda>_. Some 6) (pg_guard (\<lambda>_. False) sample_guard_db) 7 [] get_request sample_session = (Served pr, sample_session) \<and>
     (\<exists>u \<in> set (users sample_guard_db). u_DisabledAt u = None \<and> role_allows (u_Role u) get_request)"
proof -
  have "r_Path get_request \<notin> set publicPaths" "\<forall>x. r_Authorization get_request \<noteq> ''Bearer '' @ x"
    by (simp_all add: get_request_def publicPaths_def)
  with Guard_sound [OF sample_get] sample_get show ?thesis by blast
qed



text \<open>C27: revoking a management token ends its access. After the revocation, and whatever happens to the
  settings since, a request with the token's secret is answered with 401, provided that no other token
  has the same hash.\<close>

theorem revoked_token_rejected:
  assumes "db_wf db" "pg_RevokeAPIToken t0 i es db = (Inr (), db1)" "settings_step\<^sup>*\<^sup>* db1 db2"
    and "\<forall>t \<in> set (api_tokens db2). pat_TokenHash t = HashAPIKey secret \<longrightarrow> pat_ID t = i"
    and "ParseAPITokenPrefix secret \<noteq> None" "r_Authorization r = ''Bearer '' @ secret" "r_Path r \<notin> set publicPaths"
  shows "Guard parse (pg_guard down db2) now rnd r s = (Rejected 401 ''unauthorized'' ''invalid API token'', s)"
proof -
  have w1: "db_wf db1" using RevokeAPIToken_wf [OF assms(1), of t0 i es] assms(2) by simp
  from assms(3) have "db_wf db2 \<and> token_revoked i db2"
  proof (induction rule: rtranclp_induct)
    case base
    show ?case using w1 RevokeAPIToken_revokes [OF assms(2)] by simp
  next
    case (step y z)
    then show ?case using settings_step_wf settings_step_revoked by blast
  qed
  then have d: "distinct (map pat_ID (api_tokens db2))" and rv: "token_revoked i db2"
    using db_wfD(13) by (auto simp: api_tokens_wf_def)
  from rv obtain t where t: "t \<in> set (api_tokens db2)" "pat_ID t = i" "pat_RevokedAt t \<noteq> None"
    unfolding token_revoked_def list_ex_iff by blast
  have no: "\<not> token_ok db2 now secret x" for x
  proof
    assume x: "token_ok db2 now secret x"
    then have "x = t" using assms(4) t distinct_map_inj [OF d] by (auto simp: token_ok_def)
    with x t show False by (simp add: token_ok_def)
  qed
  have "authenticateAPIToken (pg_guard down db2) now (r_Authorization r) = None"
  proof (rule ccontr)
    assume "authenticateAPIToken (pg_guard down db2) now (r_Authorization r) \<noteq> None"
    then obtain role cb where "authenticateAPIToken (pg_guard down db2) now (r_Authorization r) = Some (role, cb)"
      by auto
    from pg.token_authenticated [OF this] assms(6) no show False by auto
  qed
  then show ?thesis
    using assms(5-7) CutPrefix_append [of "''Bearer ''" secret]
    by (simp add: Guard_def Guard_token_def looksLikeAPIToken_def del: CutPrefix_append)
qed

lemma sample_guard_db_wf: "db_wf (sample_guard_db\<lparr>user_customer_grants := []\<rparr>)"
  by (simp add: db_wf_def sample_guard_db_def sample_token_row_def sample_users_db_def db_init_def table_wf_defs
      id_list_defs ref_ok_def sample_admin_def role_ok_def role_defs)

lemma sample_pat_prefix: "ParseAPITokenPrefix sample_pat = Some ''otm_pat_00000000''"
  unfolding sample_pat_def by code_simp

theorem revoked_token_rejected_witness:
  "\<exists>db1. pg_RevokeAPIToken 4 3 [] (sample_guard_db\<lparr>user_customer_grants := []\<rparr>) = (Inr (), db1) \<and>
     Guard (\<lambda>_. None) (pg_guard (\<lambda>_. False) db1) 7 [] (get_request\<lparr>r_Authorization := ''Bearer '' @ sample_pat\<rparr>)
       (\<lambda>_. None) = (Rejected 401 ''unauthorized'' ''invalid API token'', \<lambda>_. None)"
proof -
  let ?db = "sample_guard_db\<lparr>user_customer_grants := []\<rparr>"
  let ?db1 = "?db\<lparr>api_tokens := [sample_token_row\<lparr>pat_RevokedAt := Some 4\<rparr>]\<rparr>"
  have rv: "pg_RevokeAPIToken 4 3 [] ?db = (Inr (), ?db1)"
    by (simp add: pg_RevokeAPIToken_def inTx_def commit_def sample_guard_db_def sample_token_row_def)
  have h: "\<forall>t \<in> set (api_tokens ?db1). pat_TokenHash t = HashAPIKey sample_pat \<longrightarrow> pat_ID t = 3"
    by (simp add: sample_token_row_def)
  have p: "r_Path (get_request\<lparr>r_Authorization := ''Bearer '' @ sample_pat\<rparr>) \<notin> set publicPaths"
    by (simp add: get_request_def publicPaths_def)
  have q: "ParseAPITokenPrefix sample_pat \<noteq> None" by (simp add: sample_pat_prefix)
  have a: "r_Authorization (get_request\<lparr>r_Authorization := ''Bearer '' @ sample_pat\<rparr>) = ''Bearer '' @ sample_pat"
    by simp
  from revoked_token_rejected [OF sample_guard_db_wf rv rtranclp.rtrancl_refl h q a p] rv show ?thesis by blast
qed

end
