(* ===== verification/PipelineGraph.thy ===== *)
theory PipelineGraph
  imports Slug StoreBase
begin

text \<open>
  The graph a customer builds in the editor, \<open>internal/pipelines/graph.go\<close>, and the names its
  components get in a collector config, \<open>internal/pipelines/naming.go\<close>.
\<close>

section \<open>Graphs\<close>

definition Signals :: "string list" where
  "Signals = [''logs'', ''traces'', ''metrics'']"

definition validSignal :: "string \<Rightarrow> bool" where
  "validSignal s \<longleftrightarrow> s \<in> set Signals"

type_synonym obj = "(string \<times> json) list"

record Node =
  n_Type :: string
  n_Name :: "string option"
  n_Config :: "obj option"

record Graph =
  g_Signals :: "string list"
  g_Processors :: "Node list"
  g_Exporters :: "Node list"

text \<open>Decoding into a struct as \<open>encoding/json\<close> does: an absent field and a \<open>null\<close> leave the zero value,
  the last of several fields counts, other fields are ignored and a value of another type is an error.
  Stored graphs are written by \<open>MarshalGraph\<close>, so field names are compared exactly.\<close>

definition field :: "string \<Rightarrow> obj \<Rightarrow> json" where
  "field k kvs = (case map_of (rev kvs) k of None \<Rightarrow> JNull | Some v \<Rightarrow> v)"

fun decode_list :: "(json \<Rightarrow> 'a option) \<Rightarrow> json \<Rightarrow> 'a list option" where
  "decode_list f JNull = Some []"
| "decode_list f (JArr vs) = those (map f vs)"
| "decode_list f _ = None"

fun decode_string :: "json \<Rightarrow> string option" where
  "decode_string JNull = Some ''''"
| "decode_string (JStr s) = Some s"
| "decode_string _ = None"

fun decode_name :: "json \<Rightarrow> string option option" where
  "decode_name JNull = Some None"
| "decode_name (JStr s) = Some (Some s)"
| "decode_name _ = None"

fun decode_config :: "json \<Rightarrow> obj option option" where
  "decode_config JNull = Some None"
| "decode_config (JObj m) = Some (Some m)"
| "decode_config _ = None"

fun decode_node :: "json \<Rightarrow> Node option" where
  "decode_node JNull = Some \<lparr>n_Type = '''', n_Name = None, n_Config = None\<rparr>"
| "decode_node (JObj kvs) =
    (case (decode_string (field ''type'' kvs), decode_name (field ''name'' kvs), decode_config (field ''config'' kvs)) of
       (Some t, Some n, Some c) \<Rightarrow> Some \<lparr>n_Type = t, n_Name = n, n_Config = c\<rparr>
     | _ \<Rightarrow> None)"
| "decode_node _ = None"

fun ParseGraph :: "json \<Rightarrow> string + Graph" where
  "ParseGraph JNull = Inr \<lparr>g_Signals = [], g_Processors = [], g_Exporters = []\<rparr>"
| "ParseGraph (JObj kvs) =
    (case (decode_list decode_string (field ''signals'' kvs), decode_list decode_node (field ''processors'' kvs),
           decode_list decode_node (field ''exporters'' kvs)) of
       (Some s, Some p, Some e) \<Rightarrow> Inr \<lparr>g_Signals = s, g_Processors = p, g_Exporters = e\<rparr>
     | _ \<Rightarrow> Inl ''parse pipeline graph'')"
| "ParseGraph _ = Inl ''parse pipeline graph''"

definition encode_node :: "Node \<Rightarrow> json" where
  "encode_node n = JObj ((''type'', JStr (n_Type n)) #
     (case n_Name n of None \<Rightarrow> [] | Some s \<Rightarrow> [(''name'', JStr s)]) @
     [(''config'', case n_Config n of None \<Rightarrow> JNull | Some m \<Rightarrow> JObj m)])"

definition MarshalGraph :: "Graph \<Rightarrow> json" where
  "MarshalGraph g = JObj [(''signals'', JArr (map JStr (g_Signals g))),
     (''processors'', JArr (map encode_node (g_Processors g))),
     (''exporters'', JArr (map encode_node (g_Exporters g)))]"

definition hasSignal :: "Graph \<Rightarrow> string \<Rightarrow> bool" where
  "hasSignal g sig \<longleftrightarrow> sig \<in> set (g_Signals g)"

lemma those_map_Some: "those (map (\<lambda>x. Some (f x)) xs) = Some (map f xs)"
  by (induction xs) simp_all

lemma decode_encode_node [simp]: "decode_node (encode_node n) = Some n"
  by (cases n) (auto simp: encode_node_def field_def split: option.splits)

lemma decode_list_map:
  "(\<And>x. f (g x) = Some x) \<Longrightarrow> decode_list f (JArr (map g xs)) = Some xs"
  using those_map_Some [of id xs] by (simp add: o_def)

lemma Parse_Marshal: "ParseGraph (MarshalGraph g) = Inr g"
proof -
  have "decode_list decode_string (JArr (map JStr (g_Signals g))) = Some (g_Signals g)"
    "decode_list decode_node (JArr (map encode_node (g_Processors g))) = Some (g_Processors g)"
    "decode_list decode_node (JArr (map encode_node (g_Exporters g))) = Some (g_Exporters g)"
    by (rule decode_list_map, simp)+
  then show ?thesis by (simp add: MarshalGraph_def field_def del: decode_list.simps)
qed

section \<open>Names\<close>

definition PipelineSlug :: "string \<Rightarrow> string" where
  "PipelineSlug name = DeriveSlug name"

definition pipelineKey :: "string \<Rightarrow> string \<Rightarrow> string" where
  "pipelineKey customerSlug pipelineSlug = customerSlug @ ''__'' @ pipelineSlug"

definition CollectorPipelineID :: "string \<Rightarrow> string \<Rightarrow> string \<Rightarrow> string" where
  "CollectorPipelineID signal customerSlug pipelineSlug = signal @ ''/'' @ pipelineKey customerSlug pipelineSlug"

definition nodeSuffix :: "Node \<Rightarrow> nat \<Rightarrow> string" where
  "nodeSuffix n idx = (case n_Name n of
      Some s \<Rightarrow> if s \<noteq> '''' then s else Itoa (int idx)
    | None \<Rightarrow> Itoa (int idx))"

definition ComponentID :: "Node \<Rightarrow> nat \<Rightarrow> string \<Rightarrow> string \<Rightarrow> string" where
  "ComponentID n idx customerSlug pipelineSlug =
    n_Type n @ ''/'' @ pipelineKey customerSlug pipelineSlug @ ''__'' @ nodeSuffix n idx"

text \<open>\<open>regexp.QuoteMeta\<close>.\<close>

definition QuoteMeta :: "string \<Rightarrow> string" where
  "QuoteMeta s = concat (map (\<lambda>c. if c \<in> set [CHR 0x5C, CHR ''.'', CHR ''+'', CHR ''*'', CHR ''?'', CHR ''('', CHR '')'',
       CHR ''|'', CHR ''['', CHR '']'', CHR ''{'', CHR ''}'', CHR ''^'', CHR ''$''] then [CHR 0x5C, c] else [c]) s)"

definition ExporterLabelRegex :: "string \<Rightarrow> string \<Rightarrow> string" where
  "ExporterLabelRegex customerSlug pipelineSlug =
    ''^[^/]+/'' @ QuoteMeta (pipelineKey customerSlug pipelineSlug) @ ''__.*''"

definition ComponentType :: "string \<Rightarrow> string" where
  "ComponentType i = (case Cut (CHR ''/'') i of None \<Rightarrow> i | Some (a, _) \<Rightarrow> a)"

definition ValidNodeName :: "string \<Rightarrow> bool" where
  "ValidNodeName name \<longleftrightarrow> name \<noteq> '''' \<and> alnum (hd name) \<and> list_all slug_char (tl name) \<and> length (tl name) \<le> 63"

text \<open>A name is read back from its identifier, since slugs have no underscore and types no slash.\<close>

definition slug_like :: "string \<Rightarrow> bool" where
  "slug_like s \<longleftrightarrow> CHR ''_'' \<notin> set s \<and> CHR ''/'' \<notin> set s"

lemma slug_char_like: "list_all slug_char s \<Longrightarrow> slug_like s"
  by (auto simp: slug_like_def list_all_iff slug_char_def alnum_def less_eq_char_def)

lemma PipelineSlug_like: "slug_like (PipelineSlug name)"
  using DeriveSlug_shape by (auto simp: PipelineSlug_def slug_shape_def intro: slug_char_like)

lemma pipelineKey_inj:
  assumes "slug_like c" "slug_like c'" "pipelineKey c p = pipelineKey c' p'"
  shows "c = c' \<and> p = p'"
  using assms span_unique [of c "CHR ''_''" "''_'' @ p" c' "''_'' @ p'"]
  by (simp add: pipelineKey_def slug_like_def)

lemma CollectorPipelineID_inj:
  assumes "CHR ''/'' \<notin> set s" "CHR ''/'' \<notin> set s'" "slug_like c" "slug_like c'"
    "CollectorPipelineID s c p = CollectorPipelineID s' c' p'"
  shows "s = s' \<and> c = c' \<and> p = p'"
  using assms span_unique [of s "CHR ''/''" "pipelineKey c p" s' "pipelineKey c' p'"]
    pipelineKey_inj [of c c' p p'] by (simp add: CollectorPipelineID_def)

lemma ComponentID_inj:
  assumes "CHR ''/'' \<notin> set (n_Type m)" "CHR ''/'' \<notin> set (n_Type n)" "slug_like c" "slug_like c'" "slug_like p" "slug_like p'"
    "ComponentID m i c p = ComponentID n j c' p'"
  shows "n_Type m = n_Type n \<and> c = c' \<and> p = p' \<and> nodeSuffix m i = nodeSuffix n j"
proof -
  have a: "n_Type m = n_Type n \<and> pipelineKey c (p @ ''__'' @ nodeSuffix m i) = pipelineKey c' (p' @ ''__'' @ nodeSuffix n j)"
    using assms(1,2,7) span_unique [of "n_Type m" "CHR ''/''" "pipelineKey c (p @ ''__'' @ nodeSuffix m i)" "n_Type n"
        "pipelineKey c' (p' @ ''__'' @ nodeSuffix n j)"]
    by (simp add: ComponentID_def pipelineKey_def)
  then have b: "c = c' \<and> p @ ''__'' @ nodeSuffix m i = p' @ ''__'' @ nodeSuffix n j"
    using pipelineKey_inj assms(3,4) by blast
  then show ?thesis
    using a assms(5,6) span_unique [of p "CHR ''_''" "''_'' @ nodeSuffix m i" p' "''_'' @ nodeSuffix n j"]
    by (simp add: slug_like_def)
qed

end
