(* ===== verification/Catalog.thy ===== *)
theory Catalog
  imports PipelineGraph
begin

text \<open>
  The curated collector components, \<open>internal/pipelines/catalog/catalog.go\<close>: every entry of the list
  with its JSON Schema and default config. Checking a config against a schema is the job of the package
  jsonschema and is an argument of the validator.
\<close>

definition KindProcessor :: string where
  "KindProcessor = ''processor''"

definition KindExporter :: string where
  "KindExporter = ''exporter''"

record Component =
  c_Type :: string
  c_Kind :: string
  c_DisplayName :: string
  c_Description :: string
  c_DocsURL :: string
  c_Schema :: json
  c_Defaults :: json

section \<open>The list\<close>

definition durationSchema :: json where
  "durationSchema = JObj [(''type'', JStr ''string''), (''pattern'', JStr ''^[0-9]+(ns|us|ms|s|m|h)$''),
    (''description'', JStr ''Go duration, e.g. 5s'')]"

definition headersSchema :: json where
  "headersSchema = JObj [(''type'', JStr ''object''), (''description'',
    JStr ''Additional headers sent with every request.''), (''additionalProperties'', JObj [(''type'',
    JStr ''string''), (''format'', JStr ''password'')])]"

definition sendingQueueSchema :: json where
  "sendingQueueSchema = JObj [(''type'', JStr ''object''), (''additionalProperties'', JBool False),
    (''properties'', JObj [(''enabled'', JObj [(''type'', JStr ''boolean'')]), (''queue_size'',
    JObj [(''type'', JStr ''integer''), (''minimum'', JNum 1)])])]"

definition retryOnFailureSchema :: json where
  "retryOnFailureSchema = JObj [(''type'', JStr ''object''), (''additionalProperties'', JBool False),
    (''properties'', JObj [(''enabled'', JObj [(''type'', JStr ''boolean'')])])]"

definition tlsSchema :: json where
  "tlsSchema = JObj [(''type'', JStr ''object''), (''additionalProperties'', JBool False), (''properties'',
    JObj [(''insecure'', JObj [(''type'', JStr ''boolean''), (''description'',
    JStr ''Disable TLS (plaintext connection).'')]), (''insecure_skip_verify'', JObj [(''type'',
    JStr ''boolean''), (''description'', JStr ''Skip certificate verification.'')])])]"

definition compressionSchema :: json where
  "compressionSchema = JObj [(''type'', JStr ''string''), (''enum'', JArr [JStr ''gzip'', JStr ''zstd'',
    JStr ''snappy'', JStr ''none''])]"

definition errorModeSchema :: json where
  "errorModeSchema = JObj [(''type'', JStr ''string''), (''enum'', JArr [JStr ''ignore'', JStr ''silent'',
    JStr ''propagate''])]"

definition comp_batch :: Component where
  "comp_batch = \<lparr>c_Type = ''batch'', c_Kind = KindProcessor, c_DisplayName = ''Batch'',
    c_Description = ''Batches telemetry before export to reduce request count.'',
    c_DocsURL = ''https://github.com/open-telemetry/opentelemetry-collector/tree/main/processor/batchprocessor'',
    c_Schema = JObj [(''type'', JStr ''object''), (''additionalProperties'', JBool False), (''properties'',
    JObj [(''timeout'', durationSchema), (''send_batch_size'', JObj [(''type'', JStr ''integer''),
    (''minimum'', JNum 0)]), (''send_batch_max_size'', JObj [(''type'', JStr ''integer''), (''minimum'',
    JNum 0)])])], c_Defaults = JObj [(''timeout'', JStr ''5s''), (''send_batch_size'', JNum 8192)]\<rparr>"

definition comp_memory_limiter :: Component where
  "comp_memory_limiter = \<lparr>c_Type = ''memory_limiter'', c_Kind = KindProcessor,
    c_DisplayName = ''Memory Limiter'',
    c_Description = ''Refuses/drops data when the collector approaches its memory limit.'',
    c_DocsURL = ''https://github.com/open-telemetry/opentelemetry-collector/tree/main/processor/memorylimiterprocessor'',
    c_Schema = JObj [(''type'', JStr ''object''), (''additionalProperties'', JBool False), (''required'',
    JArr [JStr ''check_interval'']), (''properties'', JObj [(''check_interval'', durationSchema),
    (''limit_percentage'', JObj [(''type'', JStr ''integer''), (''minimum'', JNum 1), (''maximum'',
    JNum 100)]), (''spike_limit_percentage'', JObj [(''type'', JStr ''integer''), (''minimum'', JNum 0),
    (''maximum'', JNum 100)]), (''limit_mib'', JObj [(''type'', JStr ''integer''), (''minimum'', JNum 0)]),
    (''spike_limit_mib'', JObj [(''type'', JStr ''integer''), (''minimum'', JNum 0)])])],
    c_Defaults = JObj [(''check_interval'', JStr ''1s''), (''limit_percentage'', JNum 80),
    (''spike_limit_percentage'', JNum 20)]\<rparr>"

definition comp_filter :: Component where
  "comp_filter = \<lparr>c_Type = ''filter'', c_Kind = KindProcessor, c_DisplayName = ''Filter'',
    c_Description = ''Drops telemetry matching OTTL conditions.'',
    c_DocsURL = ''https://github.com/open-telemetry/opentelemetry-collector-contrib/tree/main/processor/filterprocessor'',
    c_Schema = JObj [(''type'', JStr ''object''), (''additionalProperties'', JBool False), (''properties'',
    JObj [(''error_mode'', errorModeSchema), (''logs'', JObj [(''type'', JStr ''object''),
    (''additionalProperties'', JBool False), (''properties'', JObj [(''log_record'', JObj [(''type'',
    JStr ''array''), (''items'', JObj [(''type'', JStr ''string'')]), (''description'',
    JStr ''OTTL conditions; matching records are dropped.'')])])]), (''traces'', JObj [(''type'',
    JStr ''object''), (''additionalProperties'', JBool False), (''properties'', JObj [(''span'',
    JObj [(''type'', JStr ''array''), (''items'', JObj [(''type'', JStr ''string'')])]), (''spanevent'',
    JObj [(''type'', JStr ''array''), (''items'', JObj [(''type'', JStr ''string'')])])])]), (''metrics'',
    JObj [(''type'', JStr ''object''), (''additionalProperties'', JBool False), (''properties'',
    JObj [(''metric'', JObj [(''type'', JStr ''array''), (''items'', JObj [(''type'', JStr ''string'')])]),
    (''datapoint'', JObj [(''type'', JStr ''array''), (''items'', JObj [(''type'',
    JStr ''string'')])])])])])], c_Defaults = JObj [(''error_mode'', JStr ''ignore'')]\<rparr>"

definition comp_transform :: Component where
  "comp_transform = \<lparr>c_Type = ''transform'', c_Kind = KindProcessor, c_DisplayName = ''Transform'',
    c_Description = ''Modifies telemetry with OTTL statements.'',
    c_DocsURL = ''https://github.com/open-telemetry/opentelemetry-collector-contrib/tree/main/processor/transformprocessor'',
    c_Schema = JObj [(''type'', JStr ''object''), (''additionalProperties'', JBool False), (''properties'',
    JObj [(''error_mode'', errorModeSchema), (''log_statements'', JObj [(''type'', JStr ''array''),
    (''items'', JObj [(''type'', JStr ''string'')]), (''description'',
    JStr ''Flat OTTL statements applied to logs.'')]), (''trace_statements'', JObj [(''type'',
    JStr ''array''), (''items'', JObj [(''type'', JStr ''string'')])]), (''metric_statements'',
    JObj [(''type'', JStr ''array''), (''items'', JObj [(''type'', JStr ''string'')])])])],
    c_Defaults = JObj [(''error_mode'', JStr ''ignore'')]\<rparr>"

definition comp_attributes :: Component where
  "comp_attributes = \<lparr>c_Type = ''attributes'', c_Kind = KindProcessor,
    c_DisplayName = ''Attributes'', c_Description = ''Inserts, updates,
    deletes or hashes span/log/metric attributes.'',
    c_DocsURL = ''https://github.com/open-telemetry/opentelemetry-collector-contrib/tree/main/processor/attributesprocessor'',
    c_Schema = JObj [(''type'', JStr ''object''), (''additionalProperties'', JBool False), (''required'',
    JArr [JStr ''actions'']), (''properties'', JObj [(''actions'', JObj [(''type'', JStr ''array''),
    (''items'', JObj [(''type'', JStr ''object''), (''additionalProperties'', JBool False), (''required'',
    JArr [JStr ''key'', JStr ''action'']), (''properties'', JObj [(''key'', JObj [(''type'',
    JStr ''string''), (''minLength'', JNum 1)]), (''action'', JObj [(''type'', JStr ''string''), (''enum'',
    JArr [JStr ''insert'', JStr ''update'', JStr ''upsert'', JStr ''delete'', JStr ''hash'',
    JStr ''extract'', JStr ''convert''])]), (''value'', JObj []), (''from_attribute'', JObj [(''type'',
    JStr ''string'')]), (''pattern'', JObj [(''type'', JStr ''string'')]), (''converted_type'',
    JObj [(''type'', JStr ''string''), (''enum'', JArr [JStr ''int'', JStr ''double'',
    JStr ''string''])])])])])])], c_Defaults = JObj [(''actions'', JArr [])]\<rparr>"

definition comp_resource :: Component where
  "comp_resource = \<lparr>c_Type = ''resource'', c_Kind = KindProcessor, c_DisplayName = ''Resource'',
    c_Description = ''Modifies resource attributes (applies to all signals).'',
    c_DocsURL = ''https://github.com/open-telemetry/opentelemetry-collector-contrib/tree/main/processor/resourceprocessor'',
    c_Schema = JObj [(''type'', JStr ''object''), (''additionalProperties'', JBool False), (''required'',
    JArr [JStr ''attributes'']), (''properties'', JObj [(''attributes'', JObj [(''type'', JStr ''array''),
    (''items'', JObj [(''type'', JStr ''object''), (''additionalProperties'', JBool False), (''required'',
    JArr [JStr ''key'', JStr ''action'']), (''properties'', JObj [(''key'', JObj [(''type'',
    JStr ''string''), (''minLength'', JNum 1)]), (''action'', JObj [(''type'', JStr ''string''), (''enum'',
    JArr [JStr ''insert'', JStr ''update'', JStr ''upsert'', JStr ''delete'', JStr ''hash'',
    JStr ''extract'', JStr ''convert''])]), (''value'', JObj []), (''from_attribute'', JObj [(''type'',
    JStr ''string'')]), (''pattern'', JObj [(''type'', JStr ''string'')])])])])])],
    c_Defaults = JObj [(''attributes'', JArr [])]\<rparr>"

definition comp_otlp :: Component where
  "comp_otlp = \<lparr>c_Type = ''otlp'', c_Kind = KindExporter, c_DisplayName = ''OTLP (gRPC)'',
    c_Description = ''Sends telemetry to an OTLP gRPC endpoint.'',
    c_DocsURL = ''https://github.com/open-telemetry/opentelemetry-collector/tree/main/exporter/otlpexporter'',
    c_Schema = JObj [(''type'', JStr ''object''), (''additionalProperties'', JBool False), (''required'',
    JArr [JStr ''endpoint'']), (''properties'', JObj [(''endpoint'', JObj [(''type'', JStr ''string''),
    (''minLength'', JNum 1), (''description'', JStr ''host:port of the OTLP gRPC endpoint.'')]), (''tls'',
    tlsSchema), (''compression'', compressionSchema), (''timeout'', durationSchema), (''headers'',
    headersSchema), (''sending_queue'', sendingQueueSchema), (''retry_on_failure'',
    retryOnFailureSchema)])], c_Defaults = JObj [(''endpoint'', JStr ''backend.example.com:4317''),
    (''tls'', JObj [(''insecure'', JBool False)]), (''compression'', JStr ''gzip'')]\<rparr>"

definition comp_otlphttp :: Component where
  "comp_otlphttp = \<lparr>c_Type = ''otlphttp'', c_Kind = KindExporter, c_DisplayName = ''OTLP (HTTP)'',
    c_Description = ''Sends telemetry to an OTLP/HTTP endpoint.'',
    c_DocsURL = ''https://github.com/open-telemetry/opentelemetry-collector/tree/main/exporter/otlphttpexporter'',
    c_Schema = JObj [(''type'', JStr ''object''), (''additionalProperties'', JBool False), (''required'',
    JArr [JStr ''endpoint'']), (''properties'', JObj [(''endpoint'', JObj [(''type'', JStr ''string''),
    (''minLength'', JNum 1), (''description'', JStr ''Base URL, e.g. https://otlp.example.com:4318.'')]),
    (''tls'', tlsSchema), (''compression'', compressionSchema), (''timeout'', durationSchema),
    (''headers'', headersSchema), (''sending_queue'', sendingQueueSchema), (''retry_on_failure'',
    retryOnFailureSchema)])], c_Defaults = JObj [(''endpoint'', JStr ''https://backend.example.com:4318''),
    (''compression'', JStr ''gzip'')]\<rparr>"

definition comp_debug :: Component where
  "comp_debug = \<lparr>c_Type = ''debug'', c_Kind = KindExporter, c_DisplayName = ''Debug'',
    c_Description = ''Logs telemetry to the collector's stdout (development only).'',
    c_DocsURL = ''https://github.com/open-telemetry/opentelemetry-collector/tree/main/exporter/debugexporter'',
    c_Schema = JObj [(''type'', JStr ''object''), (''additionalProperties'', JBool False), (''properties'',
    JObj [(''verbosity'', JObj [(''type'', JStr ''string''), (''enum'', JArr [JStr ''basic'',
    JStr ''normal'', JStr ''detailed''])]), (''sampling_initial'', JObj [(''type'', JStr ''integer''),
    (''minimum'', JNum 0)]), (''sampling_thereafter'', JObj [(''type'', JStr ''integer''), (''minimum'',
    JNum 0)])])], c_Defaults = JObj [(''verbosity'', JStr ''basic'')]\<rparr>"

definition comp_clickhouse :: Component where
  "comp_clickhouse = \<lparr>c_Type = ''clickhouse'', c_Kind = KindExporter,
    c_DisplayName = ''ClickHouse'', c_Description = ''Writes telemetry to ClickHouse tables.'',
    c_DocsURL = ''https://github.com/open-telemetry/opentelemetry-collector-contrib/tree/main/exporter/clickhouseexporter'',
    c_Schema = JObj [(''type'', JStr ''object''), (''additionalProperties'', JBool False), (''required'',
    JArr [JStr ''endpoint'']), (''properties'', JObj [(''endpoint'', JObj [(''type'', JStr ''string''),
    (''minLength'', JNum 1), (''description'', JStr ''ClickHouse DSN, e.g. tcp://host:9000.'')]),
    (''database'', JObj [(''type'', JStr ''string'')]), (''username'', JObj [(''type'', JStr ''string'')]),
    (''password'', JObj [(''type'', JStr ''string''), (''format'', JStr ''password'')]),
    (''logs_table_name'', JObj [(''type'', JStr ''string'')]), (''traces_table_name'', JObj [(''type'',
    JStr ''string'')]), (''metrics_table_name'', JObj [(''type'', JStr ''string'')]), (''ttl'',
    durationSchema), (''timeout'', durationSchema), (''sending_queue'', sendingQueueSchema),
    (''retry_on_failure'', retryOnFailureSchema)])], c_Defaults = JObj [(''endpoint'',
    JStr ''tcp://clickhouse.example.com:9000''), (''database'', JStr ''otel'')]\<rparr>"

definition comp_prometheusremotewrite :: Component where
  "comp_prometheusremotewrite = \<lparr>c_Type = ''prometheusremotewrite'', c_Kind = KindExporter,
    c_DisplayName = ''Prometheus Remote Write'',
    c_Description = ''Sends metrics to a Prometheus remote-write endpoint (metrics only).'',
    c_DocsURL = ''https://github.com/open-telemetry/opentelemetry-collector-contrib/tree/main/exporter/prometheusremotewriteexporter'',
    c_Schema = JObj [(''type'', JStr ''object''), (''additionalProperties'', JBool False), (''required'',
    JArr [JStr ''endpoint'']), (''properties'', JObj [(''endpoint'', JObj [(''type'', JStr ''string''),
    (''minLength'', JNum 1), (''description'', JStr ''Remote-write URL,
    e.g. https://vm.example.com/api/v1/write.'')]), (''tls'', tlsSchema), (''timeout'', durationSchema),
    (''headers'', headersSchema), (''external_labels'', JObj [(''type'', JStr ''object''),
    (''additionalProperties'', JObj [(''type'', JStr ''string'')])]), (''remote_write_queue'',
    JObj [(''type'', JStr ''object''), (''additionalProperties'', JBool False), (''properties'',
    JObj [(''enabled'', JObj [(''type'', JStr ''boolean'')]), (''queue_size'', JObj [(''type'',
    JStr ''integer''), (''minimum'', JNum 1)]), (''num_consumers'', JObj [(''type'', JStr ''integer''),
    (''minimum'', JNum 1)])])]), (''resource_to_telemetry_conversion'', JObj [(''type'', JStr ''object''),
    (''additionalProperties'', JBool False), (''properties'', JObj [(''enabled'', JObj [(''type'',
    JStr ''boolean'')])])])])], c_Defaults = JObj [(''endpoint'',
    JStr ''https://metrics.example.com/api/v1/write'')]\<rparr>"

definition comp_file :: Component where
  "comp_file = \<lparr>c_Type = ''file'', c_Kind = KindExporter, c_DisplayName = ''File'',
    c_Description = ''Writes telemetry to a file on the forwarding collector.'',
    c_DocsURL = ''https://github.com/open-telemetry/opentelemetry-collector-contrib/tree/main/exporter/fileexporter'',
    c_Schema = JObj [(''type'', JStr ''object''), (''additionalProperties'', JBool False), (''required'',
    JArr [JStr ''path'']), (''properties'', JObj [(''path'', JObj [(''type'', JStr ''string''),
    (''minLength'', JNum 1)]), (''format'', JObj [(''type'', JStr ''string''), (''enum'',
    JArr [JStr ''json'', JStr ''proto''])]), (''flush_interval'', durationSchema), (''rotation'',
    JObj [(''type'', JStr ''object''), (''additionalProperties'', JBool False), (''properties'',
    JObj [(''max_megabytes'', JObj [(''type'', JStr ''integer''), (''minimum'', JNum 1)]), (''max_days'',
    JObj [(''type'', JStr ''integer''), (''minimum'', JNum 1)]), (''max_backups'', JObj [(''type'',
    JStr ''integer''), (''minimum'', JNum 0)])])])])], c_Defaults = JObj [(''path'',
    JStr ''/var/lib/otelcol/export.json''), (''format'', JStr ''json'')]\<rparr>"

definition catalog_all :: "Component list" where
  "catalog_all = [comp_batch, comp_memory_limiter, comp_filter, comp_transform, comp_attributes,
    comp_resource, comp_otlp, comp_otlphttp, comp_debug, comp_clickhouse, comp_prometheusremotewrite,
    comp_file]"

section \<open>Looking up a component\<close>

definition Lookup :: "string \<Rightarrow> string \<Rightarrow> Component option" where
  "Lookup kind typ = find (\<lambda>c. c_Kind c = kind \<and> c_Type c = typ) catalog_all"

definition Processors :: "Component list" where
  "Processors = filter (\<lambda>c. c_Kind c = KindProcessor) catalog_all"

definition Exporters :: "Component list" where
  "Exporters = filter (\<lambda>c. c_Kind c = KindExporter) catalog_all"

lemmas catalog_defs = catalog_all_def KindProcessor_def KindExporter_def
  comp_batch_def comp_memory_limiter_def comp_filter_def comp_transform_def comp_attributes_def
  comp_resource_def comp_otlp_def comp_otlphttp_def comp_debug_def comp_clickhouse_def
  comp_prometheusremotewrite_def comp_file_def

lemma catalog_types: "list_all (\<lambda>c. CHR ''/'' \<notin> set (c_Type c)) catalog_all"
  by (simp add: catalog_defs)

lemma Lookup_SomeD:
  assumes "Lookup kind typ = Some c"
  shows "c \<in> set catalog_all \<and> c_Kind c = kind \<and> c_Type c = typ \<and> CHR ''/'' \<notin> set typ"
proof -
  from find_SomeD [OF assms [unfolded Lookup_def]] have c: "c \<in> set catalog_all" "c_Kind c = kind" "c_Type c = typ"
    by auto
  moreover from catalog_types c(1) have "CHR ''/'' \<notin> set (c_Type c)" unfolding list_all_iff by blast
  ultimately show ?thesis by simp
qed

end
