(* ===== verification/Render.thy ===== *)
theory Render
  imports Catalog "HOL-Library.Multiset"
begin

text \<open>
  Rendering collector configs: \<open>internal/pipelines/render.go\<close> (the forwarding tier) and
  \<open>internal/pipelines/render_edge.go\<close> (one customer's edge agents). The renderer builds a tree of
  \<open>yaml.Node\<close> values; the package yaml that prints the tree is the argument \<open>marshal\<close>.

  The second half reads a rendered forwarding config the way the collector does, from the routing
  connector through the pipelines to the exporters.
\<close>

section \<open>YAML nodes\<close>

text \<open>A scalar keeps the Go value it encodes; a float is the number literal it was read from. A sequence
  says whether it is in flow style.\<close>

datatype yval = YNull | YBool bool | YInt int | YFloat string | YStr string

datatype ynode =
    YScalar yval
  | YSeq bool "ynode list"
  | YMap "(string \<times> ynode) list"

text \<open>Which JSON numbers \<open>json.Number.Float64\<close> accepts: those that round to a finite float64.\<close>

definition float64_bound :: nat where
  "float64_bound = 2 ^ 1024 - 2 ^ 970"

definition digits_value :: "string \<Rightarrow> nat" where
  "digits_value s = foldl (\<lambda>n c. 10 * n + (of_char c - 48)) 0 s"

definition exponent_value :: "string \<Rightarrow> int" where
  "exponent_value s = (if HasPrefix s ''-'' then - int (digits_value (tl s))
     else if HasPrefix s ''+'' then int (digits_value (tl s)) else int (digits_value s))"

definition float64_ok :: "string \<Rightarrow> bool" where
  "float64_ok lit =
    (let s = (if HasPrefix lit ''-'' then tl lit else lit);
         mant = takeWhile (\<lambda>c. c \<noteq> CHR ''e'' \<and> c \<noteq> CHR ''E'') s;
         ex = drop (length mant + 1) s;
         (ip, fp) = (case Cut (CHR ''.'') mant of None \<Rightarrow> (mant, []) | Some (a, b) \<Rightarrow> (a, b));
         m = digits_value (ip @ fp);
         e = exponent_value ex - int (length fp)
     in if 0 \<le> e then m * 10 ^ nat e < float64_bound else m < float64_bound * 10 ^ nat (- e))"

definition number_node :: "string \<Rightarrow> ynode" where
  "number_node lit = YScalar (if float64_ok lit then YFloat lit else YStr lit)"

primrec toNode :: "json \<Rightarrow> ynode" where
  "toNode JNull = YScalar YNull"
| "toNode (JBool b) = YScalar (YBool b)"
| "toNode (JNum i) = (if int8_ok i then YScalar (YInt i) else number_node (Itoa i))"
| "toNode (JDec lit) = number_node lit"
| "toNode (JStr s) = YScalar (YStr s)"
| "toNode (JArr vs) = YSeq False (map toNode vs)"
| "toNode (JObj kvs) = YMap (sort_key fst (map (map_prod id toNode) kvs))"

definition strNode :: "string \<Rightarrow> ynode" where
  "strNode s = YScalar (YStr s)"

definition strSeq :: "string list \<Rightarrow> ynode" where
  "strSeq xs = YSeq True (map strNode xs)"

definition configNode :: "obj option \<Rightarrow> ynode" where
  "configNode c = toNode (JObj (case c of None \<Rightarrow> [] | Some m \<Rightarrow> m))"

section \<open>The forwarding tier\<close>

record RenderPipeline =
  rp_CustomerSlug :: string
  rp_ClientID :: string
  rp_PipelineSlug :: string
  rp_Graph :: Graph

definition rp_key :: "RenderPipeline \<Rightarrow> string" where
  "rp_key p = pipelineKey (rp_CustomerSlug p) (rp_PipelineSlug p)"

definition rp_pipelineID :: "string \<Rightarrow> RenderPipeline \<Rightarrow> string" where
  "rp_pipelineID sig p = CollectorPipelineID sig (rp_CustomerSlug p) (rp_PipelineSlug p)"

definition routingConnectorID :: "string \<Rightarrow> string" where
  "routingConnectorID signal = ''routing/tenants_'' @ signal"

definition sort_pipelines :: "RenderPipeline list \<Rightarrow> RenderPipeline list" where
  "sort_pipelines ps = sort_key (\<lambda>p. (rp_CustomerSlug p, rp_PipelineSlug p)) ps"

fun dup_key :: "string list \<Rightarrow> RenderPipeline list \<Rightarrow> string option" where
  "dup_key seen [] = None"
| "dup_key seen (p # ps) = (if rp_key p \<in> set seen then Some (rp_key p) else dup_key (rp_key p # seen) ps)"

definition signalsWith :: "RenderPipeline list \<Rightarrow> string \<Rightarrow> RenderPipeline list" where
  "signalsWith ps sig = [p. p \<leftarrow> ps, s \<leftarrow> g_Signals (rp_Graph p), s = sig]"

definition nodeIDs :: "RenderPipeline \<Rightarrow> Node list \<Rightarrow> string list" where
  "nodeIDs p ns = map (\<lambda>(i, n). ComponentID n i (rp_CustomerSlug p) (rp_PipelineSlug p)) (enumerate 0 ns)"

definition nodeEntries :: "RenderPipeline \<Rightarrow> Node list \<Rightarrow> (string \<times> ynode) list" where
  "nodeEntries p ns = zip (nodeIDs p ns) (map (\<lambda>n. configNode (n_Config n)) ns)"

definition receiversNode :: ynode where
  "receiversNode = YMap [(''otlp'', toNode (JObj [(''protocols'', JObj [
     (''grpc'', JObj [(''endpoint'', JStr ''0.0.0.0:4317'')]),
     (''http'', JObj [(''endpoint'', JStr ''0.0.0.0:4318'')])])]))]"

definition render_processors :: "RenderPipeline list \<Rightarrow> (string \<times> ynode) list" where
  "render_processors ps = [
     (''memory_limiter'', toNode (JObj [(''check_interval'', JStr ''1s''), (''limit_percentage'', JNum 80),
        (''spike_limit_percentage'', JNum 20)])),
     (''batch'', toNode (JObj [(''send_batch_size'', JNum 8192), (''timeout'', JStr ''5s'')]))] @
     concat (map (\<lambda>p. nodeEntries p (g_Processors (rp_Graph p))) ps)"

text \<open>\<open>clientOrder\<close>, the client IDs in the order of their first pipeline, and \<open>byClient\<close>.\<close>

definition first_seen :: "string list \<Rightarrow> string list" where
  "first_seen xs = foldl (\<lambda>acc x. if x \<in> set acc then acc else acc @ [x]) [] xs"

definition byClient :: "string \<Rightarrow> RenderPipeline list \<Rightarrow> string \<Rightarrow> string list" where
  "byClient sig routed c = map (rp_pipelineID sig) (filter (\<lambda>p. rp_ClientID p = c) routed)"

text \<open>The verb \<open>%q\<close> of fmt for text whose non-ASCII characters are printable.\<close>

definition quote_char :: "char \<Rightarrow> string" where
  "quote_char c =
    (case map_of [(CHR 0x22, [CHR 0x5C, CHR 0x22]), (CHR 0x5C, [CHR 0x5C, CHR 0x5C]), (CHR 0x07, CHR 0x5C # ''a''),
        (CHR 0x08, CHR 0x5C # ''b''), (CHR 0x0C, CHR 0x5C # ''f''), (CHR 0x0A, CHR 0x5C # ''n''),
        (CHR 0x0D, CHR 0x5C # ''r''), (CHR 0x09, CHR 0x5C # ''t''), (CHR 0x0B, CHR 0x5C # ''v'')] c of
       Some s \<Rightarrow> s
     | None \<Rightarrow> if c < CHR 0x20 \<or> c = CHR 0x7F then CHR 0x5C # CHR ''x'' # hexEncode [c] else [c])"

definition go_quote :: "string \<Rightarrow> string" where
  "go_quote s = CHR 0x22 # concat (map quote_char s) @ [CHR 0x22]"

definition tenant_condition :: "string \<Rightarrow> string" where
  "tenant_condition clientID = ''resource.attributes['' @ go_quote ''tenant.id'' @ ''] == '' @ go_quote clientID"

definition routing_table :: "string \<Rightarrow> RenderPipeline list \<Rightarrow> ynode list" where
  "routing_table sig routed = map (\<lambda>c. YMap [(''condition'', strNode (tenant_condition c)),
     (''pipelines'', strSeq (byClient sig routed c))]) (first_seen (map rp_ClientID routed))"

definition render_connectors :: "RenderPipeline list \<Rightarrow> (string \<times> ynode) list" where
  "render_connectors ps = [(routingConnectorID sig, YMap [(''default_pipelines'', strSeq []),
       (''error_mode'', strNode ''ignore''), (''table'', YSeq False (routing_table sig (signalsWith ps sig)))]).
     sig \<leftarrow> Signals, signalsWith ps sig \<noteq> []]"

definition render_exporters :: "RenderPipeline list \<Rightarrow> (string \<times> ynode) list" where
  "render_exporters ps =
    (if list_ex (\<lambda>sig. signalsWith ps sig = []) Signals then [(''debug'', toNode (JObj []))] else []) @
    concat (map (\<lambda>p. nodeEntries p (g_Exporters (rp_Graph p))) ps)"

definition extensionsNode :: ynode where
  "extensionsNode = YMap [(''health_check'', toNode (JObj [(''endpoint'', JStr ''0.0.0.0:13133'')]))]"

definition telemetryNode :: ynode where
  "telemetryNode = toNode (JObj [(''logs'', JObj [(''level'', JStr ''info'')]),
     (''metrics'', JObj [(''readers'', JArr [JObj [(''pull'', JObj [(''exporter'', JObj [(''prometheus'',
        JObj [(''host'', JStr ''0.0.0.0''), (''port'', JNum 8888)])])])]])])])"

definition entry_pipeline :: "string \<Rightarrow> string \<Rightarrow> string \<times> ynode" where
  "entry_pipeline sig sink = (sig @ ''/in'', YMap [(''receivers'', strSeq [''otlp'']),
     (''processors'', strSeq [''memory_limiter'', ''batch'']), (''exporters'', strSeq [sink])])"

definition customer_pipeline :: "string \<Rightarrow> RenderPipeline \<Rightarrow> string \<times> ynode" where
  "customer_pipeline sig p = (rp_pipelineID sig p, YMap (
     [(''receivers'', strSeq [routingConnectorID sig])] @
     (if g_Processors (rp_Graph p) \<noteq> [] then [(''processors'', strSeq (nodeIDs p (g_Processors (rp_Graph p))))] else []) @
     [(''exporters'', strSeq (nodeIDs p (g_Exporters (rp_Graph p))))]))"

definition customer_pipelines :: "RenderPipeline \<Rightarrow> (string \<times> ynode) list" where
  "customer_pipelines p = map (\<lambda>sig. customer_pipeline sig p) (filter (hasSignal (rp_Graph p)) Signals)"

definition render_pipelines :: "RenderPipeline list \<Rightarrow> (string \<times> ynode) list" where
  "render_pipelines ps =
    map (\<lambda>sig. entry_pipeline sig (if signalsWith ps sig \<noteq> [] then routingConnectorID sig else ''debug'')) Signals @
    concat (map customer_pipelines ps)"

definition serviceNode :: "(string \<times> ynode) list \<Rightarrow> ynode" where
  "serviceNode pipes = YMap [(''extensions'', strSeq [''health_check'']), (''telemetry'', telemetryNode),
     (''pipelines'', YMap pipes)]"

definition forwarding_root :: "RenderPipeline list \<Rightarrow> ynode" where
  "forwarding_root ps = YMap (
     [(''receivers'', receiversNode), (''processors'', YMap (render_processors ps))] @
     (if render_connectors ps \<noteq> [] then [(''connectors'', YMap (render_connectors ps))] else []) @
     [(''exporters'', YMap (render_exporters ps)), (''extensions'', extensionsNode),
      (''service'', serviceNode (render_pipelines ps))])"

definition RenderForwardingConfig :: "(ynode \<Rightarrow> string + 'a) \<Rightarrow> RenderPipeline list \<Rightarrow> string + 'a" where
  "RenderForwardingConfig marshal ps0 =
    (let ps = sort_pipelines ps0 in case dup_key [] ps of
       Some k \<Rightarrow> Inl (''duplicate pipeline key '' @ go_quote k @ '' in rendered config'')
     | None \<Rightarrow> marshal (forwarding_root ps))"

definition fragment_root :: "(RenderPipeline \<Rightarrow> (string \<times> ynode) list) \<Rightarrow> RenderPipeline \<Rightarrow> ynode" where
  "fragment_root pipes p = YMap (
     (if g_Processors (rp_Graph p) \<noteq> [] then [(''processors'', YMap (nodeEntries p (g_Processors (rp_Graph p))))] else []) @
     [(''exporters'', YMap (nodeEntries p (g_Exporters (rp_Graph p)))),
      (''service'', YMap [(''pipelines'', YMap (pipes p))])])"

definition RenderFragment :: "(ynode \<Rightarrow> string + 'a) \<Rightarrow> RenderPipeline \<Rightarrow> string + 'a" where
  "RenderFragment marshal p = marshal (fragment_root customer_pipelines p)"

section \<open>Edge agents\<close>

definition edgeProcessorIDs :: "RenderPipeline \<Rightarrow> string list" where
  "edgeProcessorIDs p = [''memory_limiter'', ''batch''] @ nodeIDs p (g_Processors (rp_Graph p))"

definition edge_pipelines :: "RenderPipeline \<Rightarrow> (string \<times> ynode) list" where
  "edge_pipelines p = map (\<lambda>sig. (rp_pipelineID sig p, YMap [(''receivers'', strSeq [''otlp'']),
      (''processors'', strSeq (edgeProcessorIDs p)), (''exporters'', strSeq (nodeIDs p (g_Exporters (rp_Graph p))))]))
    (filter (hasSignal (rp_Graph p)) Signals)"

definition edge_exporters :: "RenderPipeline list \<Rightarrow> (string \<times> ynode) list" where
  "edge_exporters ps = (if ps = [] then [(''debug'', toNode (JObj []))] else []) @
     concat (map (\<lambda>p. nodeEntries p (g_Exporters (rp_Graph p))) ps)"

definition edge_root :: "RenderPipeline list \<Rightarrow> ynode" where
  "edge_root ps = YMap [(''receivers'', receiversNode), (''processors'', YMap (render_processors ps)),
     (''exporters'', YMap (edge_exporters ps)), (''extensions'', extensionsNode),
     (''service'', serviceNode ((if ps = [] then map (\<lambda>sig. entry_pipeline sig ''debug'') Signals else []) @
        concat (map edge_pipelines ps)))]"

definition RenderEdgeConfig :: "(ynode \<Rightarrow> string + 'a) \<Rightarrow> RenderPipeline list \<Rightarrow> string + 'a" where
  "RenderEdgeConfig marshal ps0 =
    (let ps = sort_pipelines ps0 in case dup_key [] ps of
       Some k \<Rightarrow> Inl (''duplicate pipeline key '' @ go_quote k @ '' in rendered edge config'')
     | None \<Rightarrow> marshal (edge_root ps))"

definition RenderEdgeFragment :: "(ynode \<Rightarrow> string + 'a) \<Rightarrow> RenderPipeline \<Rightarrow> string + 'a" where
  "RenderEdgeFragment marshal p = marshal (fragment_root edge_pipelines p)"

section \<open>Reading a config\<close>

text \<open>A path into a tree, and the strings of a sequence. \<open>tenant_routes\<close> follows the entry pipeline of a
  signal to its routing connector and takes the table entries whose condition is that of the tenant;
  \<open>delivers\<close> resolves those pipelines to the processors and exporters they name, with their configs.\<close>

fun yget :: "string list \<Rightarrow> ynode \<Rightarrow> ynode option" where
  "yget [] n = Some n"
| "yget (k # ks) (YMap kvs) = Option.bind (map_of kvs k) (yget ks)"
| "yget (k # ks) _ = None"

fun yseq :: "ynode option \<Rightarrow> ynode list" where
  "yseq (Some (YSeq b xs)) = xs"
| "yseq _ = []"

fun ystr :: "ynode \<Rightarrow> string list" where
  "ystr (YScalar (YStr s)) = [s]"
| "ystr _ = []"

definition ystrings :: "ynode option \<Rightarrow> string list" where
  "ystrings n = concat (map ystr (yseq n))"

definition tenant_routes :: "ynode \<Rightarrow> string \<Rightarrow> string \<Rightarrow> string list" where
  "tenant_routes root sig tenant =
    [i. sink \<leftarrow> ystrings (yget [''service'', ''pipelines'', sig @ ''/in'', ''exporters''] root),
        e \<leftarrow> yseq (yget [''connectors'', sink, ''table''] root),
        yget [''condition''] e = Some (strNode (tenant_condition tenant)),
        i \<leftarrow> ystrings (yget [''pipelines''] e)]"

definition resolve :: "ynode \<Rightarrow> string \<Rightarrow> string list \<Rightarrow> (string \<times> ynode) list" where
  "resolve root section ids = [(i, n). i \<leftarrow> ids, n \<leftarrow> (case yget [section, i] root of None \<Rightarrow> [] | Some n \<Rightarrow> [n])]"

definition delivers :: "ynode \<Rightarrow> string \<Rightarrow> string \<Rightarrow> ((string \<times> ynode) list \<times> (string \<times> ynode) list) list" where
  "delivers root sig tenant =
    map (\<lambda>i. (resolve root ''processors'' (ystrings (yget [''service'', ''pipelines'', i, ''processors''] root)),
              resolve root ''exporters'' (ystrings (yget [''service'', ''pipelines'', i, ''exporters''] root))))
      (tenant_routes root sig tenant)"

lemma ystrings_strSeq [simp]: "ystrings (Some (strSeq xs)) = xs"
  by (induction xs) (simp_all add: ystrings_def strSeq_def strNode_def)

lemma ystrings_None [simp]: "ystrings None = []"
  by (simp add: ystrings_def)

section \<open>Keys are unique\<close>

definition nodes_ok :: "Node list \<Rightarrow> bool" where
  "nodes_ok ns \<longleftrightarrow> list_all (\<lambda>n. CHR ''/'' \<notin> set (n_Type n)) ns \<and>
     distinct (map (\<lambda>(i, n). (n_Type n, nodeSuffix n i)) (enumerate 0 ns))"

definition graph_ok :: "Graph \<Rightarrow> bool" where
  "graph_ok g \<longleftrightarrow> distinct (g_Signals g) \<and> set (g_Signals g) \<subseteq> set Signals \<and>
     nodes_ok (g_Processors g) \<and> nodes_ok (g_Exporters g)"

definition rp_ok :: "RenderPipeline \<Rightarrow> bool" where
  "rp_ok p \<longleftrightarrow> slug_like (rp_CustomerSlug p) \<and> slug_like (rp_PipelineSlug p) \<and> graph_ok (rp_Graph p)"

lemma distinct_concat_map:
  assumes "distinct (map k xs)" "\<And>x. x \<in> set xs \<Longrightarrow> distinct (f x)"
    and "\<And>x y z. x \<in> set xs \<Longrightarrow> y \<in> set xs \<Longrightarrow> z \<in> set (f x) \<Longrightarrow> z \<in> set (f y) \<Longrightarrow> k x = k y"
  shows "distinct (concat (map f xs))"
  using assms
proof (induction xs)
  case Nil
  then show ?case by simp
next
  case (Cons x xs)
  have "distinct (concat (map f xs))"
    by (rule Cons.IH) (use Cons.prems in auto)
  moreover have "set (f x) \<inter> set (concat (map f xs)) = {}"
  proof (rule ccontr)
    assume "set (f x) \<inter> set (concat (map f xs)) \<noteq> {}"
    then obtain y z where "y \<in> set xs" "z \<in> set (f x)" "z \<in> set (f y)" by auto
    with Cons.prems(1) Cons.prems(3) [of x y z] show False by (auto simp: image_iff)
  qed
  ultimately show ?case using Cons.prems(2) [of x] by simp
qed

lemma dup_key_None: "dup_key seen ps = None \<Longrightarrow> distinct (map rp_key ps) \<and> set seen \<inter> set (map rp_key ps) = {}"
proof (induction ps arbitrary: seen)
  case Nil
  then show ?case by simp
next
  case (Cons p ps)
  then have "rp_key p \<notin> set seen" "dup_key (rp_key p # seen) ps = None" by (simp_all split: if_splits)
  with Cons.IH [OF this(2)] show ?case by auto
qed

lemma signal_no_slash: "sig \<in> set Signals \<Longrightarrow> CHR ''/'' \<notin> set sig"
  by (auto simp: Signals_def)

lemma nodeIDs_inj:
  assumes "rp_ok p" "rp_ok q" "i \<in> set (nodeIDs p ms)" "i \<in> set (nodeIDs q ns)"
    "list_all (\<lambda>n. CHR ''/'' \<notin> set (n_Type n)) ms" "list_all (\<lambda>n. CHR ''/'' \<notin> set (n_Type n)) ns"
  shows "rp_key p = rp_key q"
proof -
  from assms(3) obtain a m where m: "(a, m) \<in> set (enumerate 0 ms)" "i = ComponentID m a (rp_CustomerSlug p) (rp_PipelineSlug p)"
    by (auto simp: nodeIDs_def)
  from assms(4) obtain b n where n: "(b, n) \<in> set (enumerate 0 ns)" "i = ComponentID n b (rp_CustomerSlug q) (rp_PipelineSlug q)"
    by (auto simp: nodeIDs_def)
  from m n assms(5,6) have "CHR ''/'' \<notin> set (n_Type m)" "CHR ''/'' \<notin> set (n_Type n)"
    by (auto simp: list_all_iff in_set_enumerate_eq)
  from ComponentID_inj [OF this _ _ _ _ trans [OF m(2) [symmetric] n(2)]] assms(1,2) show ?thesis
    by (auto simp: rp_ok_def rp_key_def)
qed

lemma nodeIDs_distinct:
  assumes "rp_ok p" "nodes_ok ns"
  shows "distinct (nodeIDs p ns)"
proof -
  have "inj_on (\<lambda>(i, n). ComponentID n i (rp_CustomerSlug p) (rp_PipelineSlug p)) (set (enumerate 0 ns))"
  proof (rule inj_onI, clarify)
    fix a m b n
    assume mn: "(a, m) \<in> set (enumerate 0 ns)" "(b, n) \<in> set (enumerate 0 ns)"
      and eq: "ComponentID m a (rp_CustomerSlug p) (rp_PipelineSlug p) = ComponentID n b (rp_CustomerSlug p) (rp_PipelineSlug p)"
    then have "CHR ''/'' \<notin> set (n_Type m)" "CHR ''/'' \<notin> set (n_Type n)"
      using assms(2) by (auto simp: nodes_ok_def list_all_iff in_set_enumerate_eq)
    from ComponentID_inj [OF this _ _ _ _ eq] assms(1)
    have "(n_Type m, nodeSuffix m a) = (n_Type n, nodeSuffix n b)" by (simp add: rp_ok_def)
    moreover have "inj_on (\<lambda>(i, n). (n_Type n, nodeSuffix n i)) (set (enumerate 0 ns))"
      using assms(2) by (simp add: nodes_ok_def distinct_map)
    ultimately have "(a, m) = (b, n)" using mn by (intro inj_onD [of "\<lambda>(i, n). (n_Type n, nodeSuffix n i)" _ "(a, m)" "(b, n)"]) simp_all
    then show "a = b \<and> m = n" by simp
  qed
  then show ?thesis by (simp add: nodeIDs_def distinct_map)
qed

lemma length_nodeIDs [simp]: "length (nodeIDs p ns) = length ns"
  by (simp add: nodeIDs_def)

lemma fst_nodeEntries [simp]: "map fst (nodeEntries p ns) = nodeIDs p ns"
  by (simp add: nodeEntries_def)

lemma node_entries_distinct:
  assumes "distinct (map rp_key ps)" "list_all rp_ok ps" "\<And>p. p \<in> set ps \<Longrightarrow> nodes_ok (f p)"
  shows "distinct (map fst (concat (map (\<lambda>p. nodeEntries p (f p)) ps)))"
proof -
  have "map fst (concat (map (\<lambda>p. nodeEntries p (f p)) ps)) = concat (map (\<lambda>p. nodeIDs p (f p)) ps)"
    by (simp add: map_concat o_def)
  moreover have "distinct (concat (map (\<lambda>p. nodeIDs p (f p)) ps))"
  proof (rule distinct_concat_map [OF assms(1)])
    show "distinct (nodeIDs x (f x))" if "x \<in> set ps" for x
      using that assms(2,3) by (auto simp: list_all_iff intro: nodeIDs_distinct)
    show "rp_key x = rp_key y"
      if "x \<in> set ps" "y \<in> set ps" "z \<in> set (nodeIDs x (f x))" "z \<in> set (nodeIDs y (f y))" for x y z
      using that assms(2,3) nodeIDs_inj [of x y z "f x" "f y"] by (auto simp: list_all_iff nodes_ok_def)
  qed
  ultimately show ?thesis by simp
qed

lemma nodeID_slash: "i \<in> set (nodeIDs p ns) \<Longrightarrow> CHR ''/'' \<in> set i"
  by (auto simp: nodeIDs_def ComponentID_def)

lemma entries_slash: "(i, n) \<in> set (nodeEntries p ns) \<Longrightarrow> CHR ''/'' \<in> set i"
  by (auto simp: nodeEntries_def dest!: set_zip_leftD nodeID_slash)

lemma processors_distinct:
  assumes "distinct (map rp_key ps)" "list_all rp_ok ps"
  shows "distinct (map fst (render_processors ps))"
proof -
  have "distinct (map fst (concat (map (\<lambda>p. nodeEntries p (g_Processors (rp_Graph p))) ps)))"
    using assms by (intro node_entries_distinct) (auto simp: list_all_iff rp_ok_def graph_ok_def)
  then show ?thesis by (auto simp: render_processors_def dest!: entries_slash)
qed

lemma exporters_distinct:
  assumes "distinct (map rp_key ps)" "list_all rp_ok ps"
  shows "distinct (map fst (render_exporters ps))" "distinct (map fst (edge_exporters ps))"
proof -
  have "distinct (map fst (concat (map (\<lambda>p. nodeEntries p (g_Exporters (rp_Graph p))) ps)))"
    using assms by (intro node_entries_distinct) (auto simp: list_all_iff rp_ok_def graph_ok_def)
  then show "distinct (map fst (render_exporters ps))" "distinct (map fst (edge_exporters ps))"
    by (auto simp: render_exporters_def edge_exporters_def dest!: entries_slash)
qed

lemma rp_pipelineID_inj:
  assumes "rp_ok p" "rp_ok q" "s \<in> set Signals" "t \<in> set Signals" "rp_pipelineID s p = rp_pipelineID t q"
  shows "s = t \<and> rp_key p = rp_key q"
  using CollectorPipelineID_inj [OF signal_no_slash [OF assms(3)] signal_no_slash [OF assms(4)] _ _
      assms(5) [unfolded rp_pipelineID_def]] assms(1,2)
  by (simp add: rp_ok_def rp_key_def)

lemma entry_not_customer:
  assumes "rp_ok p" "s \<in> set Signals" "t \<in> set Signals"
  shows "rp_pipelineID s p \<noteq> t @ ''/in''"
proof
  assume "rp_pipelineID s p = t @ ''/in''"
  then have "rp_key p = ''in''"
    using span_unique [of s "CHR ''/''" "rp_key p" t "''in''"] signal_no_slash [OF assms(2)] signal_no_slash [OF assms(3)]
    by (simp add: rp_pipelineID_def CollectorPipelineID_def rp_key_def)
  moreover have "CHR ''_'' \<in> set (rp_key p)" by (simp add: rp_key_def pipelineKey_def)
  ultimately show False by simp
qed

lemma pipelines_distinct:
  assumes "distinct (map rp_key ps)" "list_all rp_ok ps"
  shows "distinct (map fst (render_pipelines ps))"
proof -
  let ?f = "\<lambda>p. map (\<lambda>sig. rp_pipelineID sig p) (filter (hasSignal (rp_Graph p)) Signals)"
  have eq: "map fst (concat (map customer_pipelines ps)) = concat (map ?f ps)"
    by (simp add: map_concat o_def customer_pipelines_def customer_pipeline_def)
  have "distinct (concat (map ?f ps))"
  proof (rule distinct_concat_map [OF assms(1)])
    fix x assume x: "x \<in> set ps"
    with assms(2) have "rp_ok x" by (simp add: list_all_iff)
    then have "inj_on (\<lambda>sig. rp_pipelineID sig x) (set Signals)"
      by (intro inj_onI) (use rp_pipelineID_inj in blast)
    moreover have "distinct Signals" by (simp add: Signals_def)
    ultimately show "distinct (?f x)" by (auto simp: distinct_map intro: inj_on_subset)
  next
    fix x y z assume "x \<in> set ps" "y \<in> set ps" "z \<in> set (?f x)" "z \<in> set (?f y)"
    with assms(2) show "rp_key x = rp_key y" by (auto simp: list_all_iff dest: rp_pipelineID_inj)
  qed
  moreover have entries: "map fst (map (\<lambda>sig. entry_pipeline sig (snk sig)) Signals) = map (\<lambda>t. t @ ''/in'') Signals" for snk
    by (simp add: entry_pipeline_def)
  moreover have "distinct (map (\<lambda>t. t @ ''/in'') Signals)" by (simp add: Signals_def)
  moreover have "set (map (\<lambda>t. t @ ''/in'') Signals) \<inter> set (concat (map ?f ps)) = {}"
  proof -
    have "z \<noteq> t @ ''/in''" if "z \<in> set (concat (map ?f ps))" "t \<in> set Signals" for z t
      using that assms(2) entry_not_customer by (auto simp: list_all_iff)
    then show ?thesis by force
  qed
  ultimately show ?thesis unfolding render_pipelines_def map_append eq entries distinct_append by blast
qed

section \<open>Where a tenant's data goes\<close>

lemma signalsWith_filter:
  assumes "list_all rp_ok ps"
  shows "signalsWith ps sig = filter (\<lambda>p. hasSignal (rp_Graph p) sig) ps"
proof -
  have one: "[p. s \<leftarrow> ss, s = sig] = (if sig \<in> set ss then [p] else [])" if "distinct ss" for ss and p :: RenderPipeline
    using that by (induction ss) (auto simp: filter_empty_conv)
  show ?thesis using assms
  proof (induction ps)
    case Nil
    then show ?case by (simp add: signalsWith_def)
  next
    case (Cons p ps)
    then have "distinct (g_Signals (rp_Graph p))" by (simp add: rp_ok_def graph_ok_def)
    from one [OF this] Cons show ?case by (simp add: signalsWith_def hasSignal_def)
  qed
qed

lemma first_seen_snoc:
  "first_seen (xs @ [x]) = (if x \<in> set (first_seen xs) then first_seen xs else first_seen xs @ [x])"
  by (simp add: first_seen_def)

lemma first_seen_set: "set (first_seen xs) = set xs \<and> distinct (first_seen xs)"
  by (induction xs rule: rev_induct) (auto simp: first_seen_snoc, simp_all add: first_seen_def)

text \<open>Quoting loses nothing, so two conditions are equal only for the same tenant.\<close>

lemma quote_char_cases:
  obtains (plain) "quote_char c = [c]" "c \<noteq> CHR 0x5C" "c \<noteq> CHR 0x22"
  | (special) d where "quote_char c = [CHR 0x5C, d]" "d \<noteq> CHR ''x''"
      "map_of [(CHR 0x22, CHR 0x22), (CHR 0x5C, CHR 0x5C), (CHR ''a'', CHR 0x07), (CHR ''b'', CHR 0x08),
         (CHR ''f'', CHR 0x0C), (CHR ''n'', CHR 0x0A), (CHR ''r'', CHR 0x0D), (CHR ''t'', CHR 0x09), (CHR ''v'', CHR 0x0B)] d = Some c"
  | (hex) "quote_char c = CHR 0x5C # CHR ''x'' # hexEncode [c]"
proof -
  have "quote_char c = [c] \<and> c \<noteq> CHR 0x5C \<and> c \<noteq> CHR 0x22 \<or>
    (\<exists>d. quote_char c = [CHR 0x5C, d] \<and> d \<noteq> CHR ''x'' \<and>
      map_of [(CHR 0x22, CHR 0x22), (CHR 0x5C, CHR 0x5C), (CHR ''a'', CHR 0x07), (CHR ''b'', CHR 0x08),
         (CHR ''f'', CHR 0x0C), (CHR ''n'', CHR 0x0A), (CHR ''r'', CHR 0x0D), (CHR ''t'', CHR 0x09), (CHR ''v'', CHR 0x0B)] d = Some c) \<or>
    quote_char c = CHR 0x5C # CHR ''x'' # hexEncode [c]"
    unfolding quote_char_def by (auto simp del: hexEncode_simps split: if_splits)
  then show ?thesis using plain special hex by blast
qed

lemma quote_char_prefix:
  assumes "quote_char c @ r = quote_char d @ r'"
  shows "c = d \<and> r = r'"
proof (cases rule: quote_char_cases [of c])
  case plain
  with assms show ?thesis by (cases rule: quote_char_cases [of d]) auto
next
  case (special x)
  with assms show ?thesis by (cases rule: quote_char_cases [of d]) auto
next
  case hex
  have len: "length (hexEncode [c]) = 2" "length (hexEncode [d]) = 2" by simp_all
  from hex assms show ?thesis
  proof (cases rule: quote_char_cases [of d])
    case hex': hex
    from hex hex' assms have "hexEncode [c] @ r = hexEncode [d] @ r'" by (simp del: hexEncode_simps)
    with len have "hexEncode [c] = hexEncode [d]" "r = r'" by (simp_all del: hexEncode_simps)
    then show ?thesis using hexEncode_inj [of "[c]" "[d]"] by simp
  qed (auto simp del: hexEncode_simps)
qed

lemma quote_chars_inj:
  "concat (map quote_char s) @ [CHR 0x22] = concat (map quote_char t) @ [CHR 0x22] \<Longrightarrow> s = t"
proof (induction s arbitrary: t)
  case Nil
  then show ?case by (cases t; cases rule: quote_char_cases [of "hd t"]) auto
next
  case (Cons c s)
  show ?case
  proof (cases t)
    case Nil
    with Cons.prems show ?thesis by (cases rule: quote_char_cases [of c]) auto
  next
    case (Cons d u)
    with Cons.prems Cons.IH [of u] quote_char_prefix [of c "concat (map quote_char s) @ [CHR 0x22]" d
        "concat (map quote_char u) @ [CHR 0x22]"] show ?thesis by simp
  qed
qed

lemma tenant_condition_inj: "tenant_condition s = tenant_condition t \<longleftrightarrow> s = t"
  using quote_chars_inj by (auto simp: tenant_condition_def go_quote_def)

lemma bind_yget_Nil [simp]: "Option.bind x (yget []) = x"
  by (cases x) simp_all

lemma yget_root:
  "yget [''service'', ''pipelines'', i, k] (forwarding_root ps) = Option.bind (map_of (render_pipelines ps) i) (yget [k])"
  "yget [''exporters'', i] (forwarding_root ps) = map_of (render_exporters ps) i"
  "yget [''processors'', i] (forwarding_root ps) = map_of (render_processors ps) i"
  "yget [''connectors'', i, k] (forwarding_root ps) = Option.bind (map_of (render_connectors ps) i) (yget [k])"
  by (simp_all add: forwarding_root_def serviceNode_def)

lemma connector_lookup:
  assumes "sig \<in> set Signals"
  shows "yseq (Option.bind (map_of (render_connectors ps) (routingConnectorID sig)) (yget [''table''])) =
    routing_table sig (signalsWith ps sig)"
proof -
  let ?n = "\<lambda>s. YMap [(''default_pipelines'', strSeq []), (''error_mode'', strNode ''ignore''),
     (''table'', YSeq False (routing_table s (signalsWith ps s)))]"
  have r: "routingConnectorID s = routingConnectorID t \<longleftrightarrow> s = t" for s t
    by (simp add: routingConnectorID_def)
  have m: "map_of (concat (map (\<lambda>s. if signalsWith ps s \<noteq> [] then [(routingConnectorID s, ?n s)] else []) ss))
      (routingConnectorID sig) = (if sig \<in> set ss \<and> signalsWith ps sig \<noteq> [] then Some (?n sig) else None)" for ss
    by (induction ss) (auto simp: r)
  have "render_connectors ps = concat (map (\<lambda>s. if signalsWith ps s \<noteq> [] then [(routingConnectorID s, ?n s)] else []) Signals)"
    by (simp add: render_connectors_def)
  with m [of Signals] assms show ?thesis
    by (simp add: routing_table_def first_seen_def)
qed

lemma table_lookup:
  "[i. e \<leftarrow> routing_table sig routed, yget [''condition''] e = Some (strNode (tenant_condition t)),
     i \<leftarrow> ystrings (yget [''pipelines''] e)] = byClient sig routed t"
proof -
  let ?g = "\<lambda>c. if c = t then byClient sig routed c else []"
  have g: "concat (map ?g cs) = (if t \<in> set cs then byClient sig routed t else [])" if "distinct cs" for cs
    using that by (induction cs) auto
  have "[i. e \<leftarrow> routing_table sig routed, yget [''condition''] e = Some (strNode (tenant_condition t)),
     i \<leftarrow> ystrings (yget [''pipelines''] e)] = concat (map ?g (first_seen (map rp_ClientID routed)))"
    by (auto simp: routing_table_def o_def strNode_def tenant_condition_inj intro!: arg_cong [where f = concat] map_cong)
  also have "\<dots> = (if t \<in> rp_ClientID ` set routed then byClient sig routed t else [])"
    using g first_seen_set by simp
  also have "\<dots> = byClient sig routed t"
    by (auto simp: byClient_def filter_empty_conv)
  finally show ?thesis .
qed

lemma entry_lookup:
  assumes "distinct (map fst (render_pipelines ps))" "sig \<in> set Signals"
  shows "ystrings (Option.bind (map_of (render_pipelines ps) (sig @ ''/in'')) (yget [''exporters''])) =
    [if signalsWith ps sig \<noteq> [] then routingConnectorID sig else ''debug'']"
proof -
  let ?s = "if signalsWith ps sig \<noteq> [] then routingConnectorID sig else ''debug''"
  have "entry_pipeline sig ?s \<in> set (render_pipelines ps)"
    using assms(2) by (auto simp: render_pipelines_def)
  then have "map_of (render_pipelines ps) (sig @ ''/in'') = Some (snd (entry_pipeline sig ?s))"
    using assms(1) by (intro map_of_is_SomeI) (simp_all add: entry_pipeline_def)
  then show ?thesis by (simp add: entry_pipeline_def)
qed

lemma debug_no_connector: "map_of (render_connectors ps) ''debug'' = None"
  by (auto simp: map_of_eq_None_iff render_connectors_def routingConnectorID_def)

lemma tenant_routes_root:
  assumes "distinct (map fst (render_pipelines ps))" "sig \<in> set Signals"
  shows "tenant_routes (forwarding_root ps) sig t = byClient sig (signalsWith ps sig) t"
proof (cases "signalsWith ps sig = []")
  case True
  then show ?thesis
    using entry_lookup [OF assms] by (simp add: tenant_routes_def yget_root debug_no_connector byClient_def)
next
  case False
  then show ?thesis
    using entry_lookup [OF assms] table_lookup [of t sig "signalsWith ps sig"]
    by (simp add: tenant_routes_def yget_root connector_lookup [OF assms(2)])
qed

lemma resolve_entries:
  assumes "distinct (map fst kvs)" "set (nodeEntries p ns) \<subseteq> set kvs" "\<And>i. yget [sec, i] root = map_of kvs i"
  shows "resolve root sec (nodeIDs p ns) = nodeEntries p ns"
proof -
  have "resolve root sec (map fst es) = es" if "set es \<subseteq> set kvs" for es
    using that
  proof (induction es)
    case Nil
    then show ?case by (simp add: resolve_def)
  next
    case (Cons e es)
    then have "map_of kvs (fst e) = Some (snd e)" using assms(1) by (intro map_of_is_SomeI) auto
    with Cons show ?case by (simp add: resolve_def assms(3))
  qed
  from this [OF assms(2)] show ?thesis by simp
qed

lemma delivers_root:
  assumes "distinct (map rp_key ps)" "list_all rp_ok ps" "sig \<in> set Signals"
  shows "delivers (forwarding_root ps) sig t =
    map (\<lambda>p. (nodeEntries p (g_Processors (rp_Graph p)), nodeEntries p (g_Exporters (rp_Graph p))))
      (filter (\<lambda>p. hasSignal (rp_Graph p) sig \<and> rp_ClientID p = t) ps)"
proof -
  let ?root = "forwarding_root ps"
  let ?d = "\<lambda>i. (resolve ?root ''processors'' (ystrings (yget [''service'', ''pipelines'', i, ''processors''] ?root)),
              resolve ?root ''exporters'' (ystrings (yget [''service'', ''pipelines'', i, ''exporters''] ?root)))"
  note dp = pipelines_distinct [OF assms(1,2)]
  have d: "?d (rp_pipelineID sig p) =
      (nodeEntries p (g_Processors (rp_Graph p)), nodeEntries p (g_Exporters (rp_Graph p)))"
    if p: "p \<in> set ps" "hasSignal (rp_Graph p) sig" for p
  proof -
    have "customer_pipeline sig p \<in> set (render_pipelines ps)"
      using p assms(3) by (auto simp: render_pipelines_def customer_pipelines_def)
    then have l: "map_of (render_pipelines ps) (rp_pipelineID sig p) = Some (snd (customer_pipeline sig p))"
      using dp by (intro map_of_is_SomeI) (simp_all add: customer_pipeline_def)
    have pr: "ystrings (yget [''service'', ''pipelines'', rp_pipelineID sig p, ''processors''] ?root) =
        nodeIDs p (g_Processors (rp_Graph p))"
      unfolding yget_root l
      by (cases "g_Processors (rp_Graph p) = []") (simp_all add: customer_pipeline_def nodeIDs_def [of _ "[]"])
    have ex: "ystrings (yget [''service'', ''pipelines'', rp_pipelineID sig p, ''exporters''] ?root) =
        nodeIDs p (g_Exporters (rp_Graph p))"
      unfolding yget_root l by (simp add: customer_pipeline_def)
    have "resolve ?root ''processors'' (nodeIDs p (g_Processors (rp_Graph p))) = nodeEntries p (g_Processors (rp_Graph p))"
      by (rule resolve_entries [OF processors_distinct [OF assms(1,2)] _ yget_root(3)])
        (use p(1) in \<open>auto simp: render_processors_def\<close>)
    moreover have "resolve ?root ''exporters'' (nodeIDs p (g_Exporters (rp_Graph p))) = nodeEntries p (g_Exporters (rp_Graph p))"
      by (rule resolve_entries [OF exporters_distinct(1) [OF assms(1,2)] _ yget_root(2)])
        (use p(1) in \<open>auto simp: render_exporters_def\<close>)
    ultimately show ?thesis unfolding pr ex by simp
  qed
  have "tenant_routes ?root sig t =
      map (rp_pipelineID sig) (filter (\<lambda>p. hasSignal (rp_Graph p) sig \<and> rp_ClientID p = t) ps)"
    using tenant_routes_root [OF dp assms(3)] signalsWith_filter [OF assms(2)]
    by (simp add: byClient_def conj_commute)
  then show ?thesis unfolding delivers_def by (simp add: o_def d)
qed

section \<open>Rendering does not depend on the order of its input\<close>

lemma dup_key_cong: "map rp_key ps = map rp_key qs \<Longrightarrow> dup_key seen ps = dup_key seen qs"
proof (induction ps arbitrary: qs seen)
  case Nil
  then show ?case by simp
next
  case (Cons p ps)
  then obtain q qs' where q: "qs = q # qs'" "rp_key p = rp_key q" "map rp_key ps = map rp_key qs'"
    by (cases qs) auto
  with Cons.IH [OF q(3)] show ?case by simp
qed

lemma sorted_keys_eq:
  fixes f :: "'a \<Rightarrow> 'k :: linorder"
  assumes "mset xs = mset ys"
  shows "map f (sort_key f xs) = map f (sort_key f ys)"
proof -
  have "mset (map f (sort_key f xs)) = mset (map f (sort_key f ys))" using assms by (simp add: mset_map)
  then show ?thesis by (rule properties_for_sort [THEN sym, THEN trans, OF _ _ properties_for_sort]) simp_all
qed

lemma sort_pipelines_eq:
  assumes "mset ps = mset qs" "distinct (map rp_key (sort_pipelines ps))"
  shows "sort_pipelines ps = sort_pipelines qs"
proof -
  let ?f = "\<lambda>p. (rp_CustomerSlug p, rp_PipelineSlug p)"
  have "distinct (map rp_key ps)" using assms(2) by (simp add: sort_pipelines_def distinct_map)
  then have "inj_on ?f (set ps)" by (auto simp: distinct_map rp_key_def intro!: inj_onI elim!: inj_onD)
  then show ?thesis unfolding sort_pipelines_def using assms(1) by (intro sort_key_inj_key_eq) simp_all
qed

lemma render_order_irrelevant:
  assumes "mset ps = mset qs"
  shows "dup_key [] (sort_pipelines ps) = dup_key [] (sort_pipelines qs) \<and>
    (dup_key [] (sort_pipelines ps) = None \<longrightarrow> sort_pipelines ps = sort_pipelines qs)"
proof
  have "map (\<lambda>(c, p). pipelineKey c p) (map (\<lambda>p. (rp_CustomerSlug p, rp_PipelineSlug p)) (sort_pipelines ps)) =
     map (\<lambda>(c, p). pipelineKey c p) (map (\<lambda>p. (rp_CustomerSlug p, rp_PipelineSlug p)) (sort_pipelines qs))"
    unfolding sort_pipelines_def sorted_keys_eq [OF assms] ..
  then have "map rp_key (sort_pipelines ps) = map rp_key (sort_pipelines qs)"
    by (simp add: comp_def rp_key_def [abs_def])
  then show "dup_key [] (sort_pipelines ps) = dup_key [] (sort_pipelines qs)" by (rule dup_key_cong)
  show "dup_key [] (sort_pipelines ps) = None \<longrightarrow> sort_pipelines ps = sort_pipelines qs"
    using dup_key_None sort_pipelines_eq [OF assms] by blast
qed

definition sample_rp :: "string \<Rightarrow> RenderPipeline" where
  "sample_rp c = \<lparr>rp_CustomerSlug = c, rp_ClientID = c, rp_PipelineSlug = ''main'',
     rp_Graph = \<lparr>g_Signals = [''logs''], g_Processors = [], g_Exporters = []\<rparr>\<rparr>"

text \<open>C34: the rendered configs are a function of which pipelines are active, not of the order in which the
  database lists them: two listings of the same pipelines give the same forwarding config and the same
  edge config, or the same error. So a config hash changes only when a pipeline does.\<close>

theorem rendering_deterministic:
  assumes "mset ps = mset qs"
  shows "RenderForwardingConfig marshal ps = RenderForwardingConfig marshal qs \<and>
    RenderEdgeConfig marshal ps = RenderEdgeConfig marshal qs"
proof (cases "dup_key [] (sort_pipelines qs)")
  case None
  then have "sort_pipelines ps = sort_pipelines qs" using render_order_irrelevant [OF assms] by simp
  then show ?thesis by (simp only: RenderForwardingConfig_def RenderEdgeConfig_def)
next
  case (Some k)
  then have "dup_key [] (sort_pipelines ps) = Some k" using render_order_irrelevant [OF assms] by simp
  with Some show ?thesis by (simp add: RenderForwardingConfig_def RenderEdgeConfig_def Let_def)
qed

theorem rendering_deterministic_witness:
  "RenderForwardingConfig (Inr :: ynode \<Rightarrow> string + ynode) [sample_rp ''b'', sample_rp ''a''] =
    RenderForwardingConfig Inr [sample_rp ''a'', sample_rp ''b'']"
  using rendering_deterministic [of "[sample_rp ''b'', sample_rp ''a'']" "[sample_rp ''a'', sample_rp ''b'']" Inr]
  by (simp add: add_mset_commute)

end
