(* ===== verification/Validate.thy ===== *)
theory Validate
  imports Render
begin

text \<open>
  Validation of a pipeline graph, \<open>internal/pipelines/validate.go\<close>: the structural checks against the
  catalog, then the collector's own \<open>validate\<close> command over the rendered config. The package jsonschema is
  the argument \<open>check\<close>, which answers for a schema and a config; the collector binary is an argument too.
\<close>

section \<open>Issues\<close>

record Issue =
  i_Path :: "string option"
  i_Message :: string

definition issueAt :: "string \<Rightarrow> string \<Rightarrow> Issue" where
  "issueAt path message = \<lparr>i_Path = Some path, i_Message = message\<rparr>"

definition plainIssue :: "string \<Rightarrow> Issue" where
  "plainIssue message = \<lparr>i_Path = None, i_Message = message\<rparr>"

text \<open>A \<open>jsonschema.ValidationError\<close>: its causes, its location in the instance and its kind,
  with the missing properties or only the localised message.\<close>

datatype error_kind = KRequired "string list" string | KOther string

datatype ValidationError = ValidationError "ValidationError list" "string list" error_kind

datatype config_check = CheckOk | CheckInvalid ValidationError | CheckError string

fun schemaIssues :: "string \<Rightarrow> ValidationError \<Rightarrow> Issue list" where
  "schemaIssues base (ValidationError (c # cs) loc kind) = concat (map (schemaIssues base) (c # cs))"
| "schemaIssues base (ValidationError [] loc kind) =
    (let path = base @ concat (map (\<lambda>seg. ''.'' @ seg) loc)
     in case kind of
       KRequired (m # ms) _ \<Rightarrow> map (\<lambda>missing. issueAt (path @ ''.'' @ missing) ''required property is missing'') (m # ms)
     | KRequired [] msg \<Rightarrow> [issueAt path msg]
     | KOther msg \<Rightarrow> [issueAt path msg])"

section \<open>Structural checks\<close>

definition at_index :: "string \<Rightarrow> nat \<Rightarrow> string" where
  "at_index fld i = fld @ ''['' @ Itoa (int i) @ '']''"

fun signal_issues :: "string list \<Rightarrow> nat \<Rightarrow> string list \<Rightarrow> Issue list" where
  "signal_issues seen i [] = []"
| "signal_issues seen i (sig # sigs) =
    (if \<not> validSignal sig
     then [issueAt (at_index ''signals'' i) (''unknown signal '' @ go_quote sig @ '' (want logs, traces or metrics)'')]
     else if sig \<in> set seen then [issueAt (at_index ''signals'' i) (''duplicate signal '' @ go_quote sig)]
     else []) @ signal_issues (sig # seen) (Suc i) sigs"

definition config_issues :: "(json \<Rightarrow> obj \<Rightarrow> config_check) \<Rightarrow> string \<Rightarrow> Component \<Rightarrow> obj option \<Rightarrow> Issue list" where
  "config_issues check base cm config =
    (case check (c_Schema cm) (case config of None \<Rightarrow> [] | Some m \<Rightarrow> m) of
       CheckOk \<Rightarrow> []
     | CheckInvalid verr \<Rightarrow> schemaIssues (base @ ''.config'') verr
     | CheckError msg \<Rightarrow> [issueAt (base @ ''.config'') msg])"

text \<open>\<open>seenID\<close> maps a component ID to the index of its last node.\<close>

fun node_issues ::
    "(json \<Rightarrow> obj \<Rightarrow> config_check) \<Rightarrow> string \<Rightarrow> string \<Rightarrow> (string \<Rightarrow> nat option) \<Rightarrow> nat \<Rightarrow> Node list \<Rightarrow> Issue list" where
  "node_issues check fld kind seenID i [] = []"
| "node_issues check fld kind seenID i (n # ns) =
    (let base = at_index fld i;
         name_issue = (case n_Name n of
             Some s \<Rightarrow> if s \<noteq> '''' \<and> \<not> ValidNodeName s
               then [issueAt (base @ ''.name'') ''node name must match ^[a-z0-9][a-z0-9-]{0,63}$''] else []
           | None \<Rightarrow> [])
     in case Lookup kind (n_Type n) of
       None \<Rightarrow> name_issue @ [issueAt (base @ ''.type'') (''unknown '' @ kind @ '' type '' @ go_quote (n_Type n))] @
         node_issues check fld kind seenID (Suc i) ns
     | Some cm \<Rightarrow>
         (let cid = ComponentID n i ''c'' ''p'';
              dup = (case seenID cid of
                  Some prev \<Rightarrow> [issueAt base (''duplicate '' @ kind @ '' instance (same type and name as '' @
                    at_index fld prev @ ''); set a distinct name'')]
                | None \<Rightarrow> [])
          in name_issue @ dup @ config_issues check base cm (n_Config n) @
             node_issues check fld kind (seenID(cid \<mapsto> i)) (Suc i) ns))"

definition validateNodes :: "(json \<Rightarrow> obj \<Rightarrow> config_check) \<Rightarrow> string \<Rightarrow> string \<Rightarrow> Node list \<Rightarrow> Issue list" where
  "validateNodes check fld kind nodes = node_issues check fld kind (\<lambda>_. None) 0 nodes"

definition ValidateStructural :: "(json \<Rightarrow> obj \<Rightarrow> config_check) \<Rightarrow> Graph \<Rightarrow> Issue list" where
  "ValidateStructural check g =
    (if g_Signals g = [] then [issueAt ''signals'' ''at least one signal is required''] else []) @
    signal_issues [] 0 (g_Signals g) @
    (if g_Exporters g = [] then [issueAt ''exporters'' ''at least one exporter is required''] else []) @
    validateNodes check ''processors'' KindProcessor (g_Processors g) @
    validateNodes check ''exporters'' KindExporter (g_Exporters g)"

section \<open>The collector's own check\<close>

record Result =
  res_Valid :: bool
  res_Issues :: "Issue list"
  res_RenderedYAML :: "string option"

text \<open>What running the binary may give: the temporary file cannot be written, or the process ends with its
  output on stdout and stderr and, if it failed, an error.\<close>

datatype run_result = TempError string | Ran string string "string option"

definition LastIndex :: "string \<Rightarrow> string \<Rightarrow> nat option" where
  "LastIndex s p = (case filter (\<lambda>i. HasPrefix (drop i s) p) [0..<Suc (length s)] of
      [] \<Rightarrow> None
    | xs \<Rightarrow> Some (last xs))"

definition condenseValidateOutput :: "string \<Rightarrow> string" where
  "condenseValidateOutput out = (case LastIndex out ''Error:'' of
      Some i \<Rightarrow> TrimSpace (drop i out)
    | None \<Rightarrow> out)"

text \<open>\<^term>\<open>None\<close> is success; otherwise the output to report.\<close>

definition runValidate :: "run_result \<Rightarrow> string option" where
  "runValidate r = (case r of
      TempError e \<Rightarrow> Some ''''
    | Ran stdout stderr None \<Rightarrow> None
    | Ran stdout stderr (Some e) \<Rightarrow>
        (let out = TrimSpace stderr;
             out = (if out = '''' then TrimSpace stdout else out);
             out = (if out = '''' then e else out)
         in Some (condenseValidateOutput out)))"

record Validator =
  v_Check :: "json \<Rightarrow> obj \<Rightarrow> config_check"
  v_Marshal :: "ynode \<Rightarrow> string + string"
  v_BinPath :: string
  v_HasBin :: bool
  v_Run :: "string \<Rightarrow> run_result"

definition render_fragment :: "Validator \<Rightarrow> string \<Rightarrow> RenderPipeline \<Rightarrow> string + string" where
  "render_fragment v targetClass =
    (if targetClass = ClassEdge then RenderEdgeFragment (v_Marshal v) else RenderFragment (v_Marshal v))"

definition render_full :: "Validator \<Rightarrow> string \<Rightarrow> RenderPipeline list \<Rightarrow> string + string" where
  "render_full v targetClass =
    (if targetClass = ClassEdge then RenderEdgeConfig (v_Marshal v) else RenderForwardingConfig (v_Marshal v))"

definition Validate :: "Validator \<Rightarrow> string \<Rightarrow> RenderPipeline \<Rightarrow> RenderPipeline list \<Rightarrow> Result" where
  "Validate v targetClass candidate activeOthers =
    (let issues = ValidateStructural (v_Check v) (rp_Graph candidate)
     in if issues \<noteq> [] then \<lparr>res_Valid = False, res_Issues = issues, res_RenderedYAML = None\<rparr>
        else (case render_fragment v targetClass candidate of
          Inl e \<Rightarrow> \<lparr>res_Valid = False, res_Issues = [plainIssue (''render: '' @ e)], res_RenderedYAML = None\<rparr>
        | Inr fragment \<Rightarrow> (case render_full v targetClass (activeOthers @ [candidate]) of
            Inl e \<Rightarrow> \<lparr>res_Valid = False, res_Issues = [plainIssue (''render '' @ targetClass @ '' config: '' @ e)],
              res_RenderedYAML = Some fragment\<rparr>
          | Inr full \<Rightarrow>
              if \<not> v_HasBin v then \<lparr>res_Valid = True, res_Issues = [plainIssue
                 (''warning: otelcol validate skipped: collector binary unavailable at '' @ v_BinPath v)],
                 res_RenderedYAML = Some fragment\<rparr>
              else (case runValidate (v_Run v full) of
                Some out \<Rightarrow> \<lparr>res_Valid = False, res_Issues = [plainIssue (''otelcol validate failed: '' @ out)],
                  res_RenderedYAML = Some fragment\<rparr>
              | None \<Rightarrow> \<lparr>res_Valid = True, res_Issues = [], res_RenderedYAML = Some fragment\<rparr>))))"

section \<open>What a validated graph is\<close>

lemma signal_issues_Nil:
  "signal_issues seen i sigs = [] \<Longrightarrow> distinct sigs \<and> set sigs \<subseteq> set Signals \<and> set sigs \<inter> set seen = {}"
proof (induction sigs arbitrary: seen i)
  case Nil
  then show ?case by simp
next
  case (Cons sig sigs)
  then have "validSignal sig" "sig \<notin> set seen" "signal_issues (sig # seen) (Suc i) sigs = []"
    by (simp_all split: if_splits)
  with Cons.IH [OF this(3)] show ?case by (auto simp: validSignal_def)
qed

lemma node_issues_Nil:
  assumes "node_issues check fld kind seen i ns = []"
  shows "list_all (\<lambda>n. CHR ''/'' \<notin> set (n_Type n)) ns
    \<and> distinct (map (\<lambda>(i, n). ComponentID n i ''c'' ''p'') (enumerate i ns))
    \<and> dom seen \<inter> set (map (\<lambda>(i, n). ComponentID n i ''c'' ''p'') (enumerate i ns)) = {}"
  using assms
proof (induction ns arbitrary: seen i)
  case Nil
  then show ?case by simp
next
  case (Cons n ns)
  let ?c = "ComponentID n i ''c'' ''p''"
  from Cons.prems obtain cm where c: "Lookup kind (n_Type n) = Some cm" and s: "seen ?c = None"
    and r: "node_issues check fld kind (seen(?c \<mapsto> i)) (Suc i) ns = []"
    by (auto simp: Let_def split: option.splits)
  define ids where "ids = map (\<lambda>(i, n). ComponentID n i ''c'' ''p'') (enumerate (Suc i) ns)"
  have ih: "list_all (\<lambda>n. CHR ''/'' \<notin> set (n_Type n)) ns" "distinct ids" "dom (seen(?c \<mapsto> i)) \<inter> set ids = {}"
    using Cons.IH [OF r] unfolding ids_def by blast+
  have "map (\<lambda>(i, n). ComponentID n i ''c'' ''p'') (enumerate i (n # ns)) = ?c # ids" by (simp add: ids_def)
  moreover have "?c \<notin> dom seen" using s by (simp add: domIff)
  moreover have "?c \<notin> set ids" "dom seen \<inter> set ids = {}" 
    using ih(3) by (simp_all add: disjoint_iff)
  ultimately show ?case using ih(1,2) Lookup_SomeD [OF c] by simp
qed

lemma validateNodes_ok: "validateNodes check fld kind ns = [] \<Longrightarrow> nodes_ok ns"
proof -
  assume a: "validateNodes check fld kind ns = []"
  note n = node_issues_Nil [OF a [unfolded validateNodes_def]]
  have "map (\<lambda>(i, n). ComponentID n i ''c'' ''p'') (enumerate 0 ns) =
      map (\<lambda>(t, s). t @ ''/'' @ pipelineKey ''c'' ''p'' @ ''__'' @ s)
        (map (\<lambda>(i, n). (n_Type n, nodeSuffix n i)) (enumerate 0 ns))"
    by (simp add: ComponentID_def split_beta)
  with n have "distinct (map (\<lambda>(t, s). t @ ''/'' @ pipelineKey ''c'' ''p'' @ ''__'' @ s)
      (map (\<lambda>(i, n). (n_Type n, nodeSuffix n i)) (enumerate 0 ns)))" by simp
  then have "distinct (map (\<lambda>(i, n). (n_Type n, nodeSuffix n i)) (enumerate 0 ns))"
    by (simp only: distinct_map)
  with n show ?thesis by (simp add: nodes_ok_def)
qed

lemma ValidateStructural_ok:
  assumes "ValidateStructural check g = []"
  shows "graph_ok g \<and> g_Signals g \<noteq> [] \<and> g_Exporters g \<noteq> []"
proof -
  from assms have "signal_issues [] 0 (g_Signals g) = []" "g_Signals g \<noteq> []" "g_Exporters g \<noteq> []"
    "validateNodes check ''processors'' KindProcessor (g_Processors g) = []"
    "validateNodes check ''exporters'' KindExporter (g_Exporters g) = []"
    by (simp_all add: ValidateStructural_def split: if_splits)
  with signal_issues_Nil validateNodes_ok show ?thesis by (auto simp: graph_ok_def)
qed

lemma Validate_valid:
  assumes "res_Valid (Validate v cls p others)"
  shows "ValidateStructural (v_Check v) (rp_Graph p) = [] \<and> (\<exists>y. render_fragment v cls p = Inr y) \<and>
    (\<exists>full. render_full v cls (others @ [p]) = Inr full \<and> (v_HasBin v \<longrightarrow> runValidate (v_Run v full) = None))"
  using assms by (auto simp: Validate_def Let_def split: if_splits sum.splits option.splits)

end
