(* ===== verification/AesGcm.thy ===== *)
theory AesGcm
  imports GoCrypto
begin

unbundle bit_operations_syntax

text \<open>
  The functions of \<open>crypto/aes\<close> and \<open>crypto/cipher\<close> behind \<open>cipher.NewGCM\<close> with a 32-byte key: the
  block cipher AES-256 of FIPS 197 (encryption only, which is all the counter mode needs) and the mode
  GCM of NIST SP 800-38D with 12-byte nonces, 16-byte tags and no additional data. The limit of GCM on
  the length of one message (64 GiB) is not modelled.
\<close>

section \<open>AES-256\<close>

type_synonym w8 = "8 word"

definition aes_sbox :: "w8 list" where
  "aes_sbox =
    [0x63, 0x7C, 0x77, 0x7B, 0xF2, 0x6B, 0x6F, 0xC5, 0x30, 0x01, 0x67, 0x2B, 0xFE, 0xD7, 0xAB, 0x76,
     0xCA, 0x82, 0xC9, 0x7D, 0xFA, 0x59, 0x47, 0xF0, 0xAD, 0xD4, 0xA2, 0xAF, 0x9C, 0xA4, 0x72, 0xC0,
     0xB7, 0xFD, 0x93, 0x26, 0x36, 0x3F, 0xF7, 0xCC, 0x34, 0xA5, 0xE5, 0xF1, 0x71, 0xD8, 0x31, 0x15,
     0x04, 0xC7, 0x23, 0xC3, 0x18, 0x96, 0x05, 0x9A, 0x07, 0x12, 0x80, 0xE2, 0xEB, 0x27, 0xB2, 0x75,
     0x09, 0x83, 0x2C, 0x1A, 0x1B, 0x6E, 0x5A, 0xA0, 0x52, 0x3B, 0xD6, 0xB3, 0x29, 0xE3, 0x2F, 0x84,
     0x53, 0xD1, 0x00, 0xED, 0x20, 0xFC, 0xB1, 0x5B, 0x6A, 0xCB, 0xBE, 0x39, 0x4A, 0x4C, 0x58, 0xCF,
     0xD0, 0xEF, 0xAA, 0xFB, 0x43, 0x4D, 0x33, 0x85, 0x45, 0xF9, 0x02, 0x7F, 0x50, 0x3C, 0x9F, 0xA8,
     0x51, 0xA3, 0x40, 0x8F, 0x92, 0x9D, 0x38, 0xF5, 0xBC, 0xB6, 0xDA, 0x21, 0x10, 0xFF, 0xF3, 0xD2,
     0xCD, 0x0C, 0x13, 0xEC, 0x5F, 0x97, 0x44, 0x17, 0xC4, 0xA7, 0x7E, 0x3D, 0x64, 0x5D, 0x19, 0x73,
     0x60, 0x81, 0x4F, 0xDC, 0x22, 0x2A, 0x90, 0x88, 0x46, 0xEE, 0xB8, 0x14, 0xDE, 0x5E, 0x0B, 0xDB,
     0xE0, 0x32, 0x3A, 0x0A, 0x49, 0x06, 0x24, 0x5C, 0xC2, 0xD3, 0xAC, 0x62, 0x91, 0x95, 0xE4, 0x79,
     0xE7, 0xC8, 0x37, 0x6D, 0x8D, 0xD5, 0x4E, 0xA9, 0x6C, 0x56, 0xF4, 0xEA, 0x65, 0x7A, 0xAE, 0x08,
     0xBA, 0x78, 0x25, 0x2E, 0x1C, 0xA6, 0xB4, 0xC6, 0xE8, 0xDD, 0x74, 0x1F, 0x4B, 0xBD, 0x8B, 0x8A,
     0x70, 0x3E, 0xB5, 0x66, 0x48, 0x03, 0xF6, 0x0E, 0x61, 0x35, 0x57, 0xB9, 0x86, 0xC1, 0x1D, 0x9E,
     0xE1, 0xF8, 0x98, 0x11, 0x69, 0xD9, 0x8E, 0x94, 0x9B, 0x1E, 0x87, 0xE9, 0xCE, 0x55, 0x28, 0xDF,
     0x8C, 0xA1, 0x89, 0x0D, 0xBF, 0xE6, 0x42, 0x68, 0x41, 0x99, 0x2D, 0x0F, 0xB0, 0x54, 0xBB, 0x16]"

definition sub_byte :: "w8 \<Rightarrow> w8" where
  "sub_byte b = aes_sbox ! unat b"

definition xtime :: "w8 \<Rightarrow> w8" where
  "xtime b = push_bit 1 b XOR (if bit b 7 then 0x1B else 0)"

definition xor_bytes :: "w8 list \<Rightarrow> w8 list \<Rightarrow> w8 list" where
  "xor_bytes xs ys = map2 (XOR) xs ys"

text \<open>The key schedule: eight words of the key, extended to sixty.\<close>

definition aes_rcon :: "w8 list" where
  "aes_rcon = [0x01, 0x02, 0x04, 0x08, 0x10, 0x20, 0x40]"

definition aes_extend :: "w8 list list \<Rightarrow> w8 list list" where
  "aes_extend ws =
    (let i = length ws; t = last ws;
         u = (if i mod 8 = 0 then xor_bytes (map sub_byte (rotate1 t)) [aes_rcon ! (i div 8 - 1), 0, 0, 0]
              else if i mod 8 = 4 then map sub_byte t else t)
     in ws @ [xor_bytes (ws ! (i - 8)) u])"

definition aes_schedule :: "w8 list \<Rightarrow> w8 list list" where
  "aes_schedule key = (aes_extend ^^ 52) (map (\<lambda>i. take 4 (drop (4 * i) key)) [0..<8])"

definition round_key :: "w8 list list \<Rightarrow> nat \<Rightarrow> w8 list" where
  "round_key ws r = concat (take 4 (drop (4 * r) ws))"

text \<open>The state is its sixteen bytes column by column.\<close>

definition shift_rows :: "w8 list \<Rightarrow> w8 list" where
  "shift_rows st = map (\<lambda>k. st ! ((k + 4 * (k mod 4)) mod 16)) [0..<16]"

fun mix_columns :: "w8 list \<Rightarrow> w8 list" where
  "mix_columns (a # b # c # d # r) =
    [(xtime a XOR (xtime b XOR b)) XOR (c XOR d), (a XOR xtime b) XOR ((xtime c XOR c) XOR d),
     (a XOR b) XOR (xtime c XOR (xtime d XOR d)), ((xtime a XOR a) XOR b) XOR (c XOR xtime d)] @ mix_columns r"
| "mix_columns _ = []"

definition aes_block :: "w8 list \<Rightarrow> w8 list \<Rightarrow> w8 list" where
  "aes_block key blk =
    (let ws = aes_schedule key;
         st = foldl (\<lambda>st r. xor_bytes (mix_columns (shift_rows (map sub_byte st))) (round_key ws r))
                (xor_bytes blk (round_key ws 0)) [1..<14]
     in xor_bytes (shift_rows (map sub_byte st)) (round_key ws 14))"

section \<open>GCM\<close>

type_synonym w128 = "128 word"

definition w128_of :: "w8 list \<Rightarrow> w128" where
  "w128_of bs = foldl (\<lambda>v b. push_bit 8 v OR ucast b) 0 bs"

definition bytes_of_w128 :: "w128 \<Rightarrow> w8 list" where
  "bytes_of_w128 v = map (\<lambda>k. ucast (drop_bit (8 * k) v)) (rev [0..<16])"

definition gf_step :: "w128 \<Rightarrow> w128 \<times> w128 \<Rightarrow> nat \<Rightarrow> w128 \<times> w128" where
  "gf_step x zv i = (case zv of (z, v) \<Rightarrow>
     (if bit x (127 - i) then z XOR v else z,
      if bit v 0 then drop_bit 1 v XOR push_bit 120 0xE1 else drop_bit 1 v))"

definition gf_mult :: "w128 \<Rightarrow> w128 \<Rightarrow> w128" where
  "gf_mult x y = fst (foldl (gf_step x) (0, y) [0..<128])"

definition blocks16 :: "w8 list \<Rightarrow> w8 list list" where
  "blocks16 bs = map (\<lambda>i. take 16 (drop (16 * i) bs)) [0..<(length bs + 15) div 16]"

definition pad16 :: "w8 list \<Rightarrow> w8 list" where
  "pad16 b = b @ replicate (16 - length b) 0"

definition ghash :: "w128 \<Rightarrow> w128 list \<Rightarrow> w128" where
  "ghash h xs = foldl (\<lambda>y x. gf_mult (y XOR x) h) 0 xs"

definition gcm_counter :: "w8 list \<Rightarrow> nat \<Rightarrow> w8 list" where
  "gcm_counter nonce i = nonce @ map (\<lambda>k. of_nat (i div 256 ^ k mod 256)) [3, 2, 1, 0]"

definition gcm_keystream :: "w8 list \<Rightarrow> w8 list \<Rightarrow> nat \<Rightarrow> w8 list" where
  "gcm_keystream key nonce n =
    take n (concat (map (\<lambda>i. aes_block key (gcm_counter nonce (i + 2))) [0..<(n + 15) div 16]))"

definition gcm_tag :: "w8 list \<Rightarrow> w8 list \<Rightarrow> w8 list \<Rightarrow> w8 list" where
  "gcm_tag key nonce ct =
    (let h = w128_of (aes_block key (replicate 16 0));
         s = ghash h (map (\<lambda>b. w128_of (pad16 b)) (blocks16 ct) @ [of_nat (8 * length ct)])
     in xor_bytes (bytes_of_w128 s) (aes_block key (gcm_counter nonce 1)))"

definition to_w8 :: "bytes \<Rightarrow> w8 list" where
  "to_w8 bs = map of_char bs"

definition of_w8 :: "w8 list \<Rightarrow> bytes" where
  "of_w8 ws = map (\<lambda>w. char_of (unat w)) ws"

text \<open>\<open>aead.Seal\<close> (what it appends) and \<open>aead.Open\<close>, by key and nonce.\<close>

definition gcm_Seal :: "bytes \<Rightarrow> bytes \<Rightarrow> bytes \<Rightarrow> bytes" where
  "gcm_Seal key nonce pt =
    (let k = to_w8 key; n = to_w8 nonce; ct = xor_bytes (to_w8 pt) (gcm_keystream k n (length pt))
     in of_w8 (ct @ gcm_tag k n ct))"

definition gcm_Open :: "bytes \<Rightarrow> bytes \<Rightarrow> bytes \<Rightarrow> bytes option" where
  "gcm_Open key nonce data =
    (if length data < 16 then None
     else (let k = to_w8 key; n = to_w8 nonce; d = to_w8 data;
               ct = take (length d - 16) d; tag = drop (length d - 16) d
           in if tag \<noteq> gcm_tag k n ct then None
              else Some (of_w8 (xor_bytes ct (gcm_keystream k n (length ct))))))"

section \<open>Lengths\<close>

lemma length_xor_bytes [simp]: "length (xor_bytes xs ys) = min (length xs) (length ys)"
  by (simp add: xor_bytes_def)

lemma aes_extend_shape:
  assumes "length ws = n" "8 \<le> n" "\<forall>w \<in> set ws. length w = 4"
  shows "length (aes_extend ws) = Suc n" "\<forall>w \<in> set (aes_extend ws). length w = 4"
proof -
  have "ws \<noteq> []" using assms by auto
  then have "length (last ws) = 4" "length (ws ! (n - 8)) = 4" using assms by simp_all
  then show "length (aes_extend ws) = Suc n" "\<forall>w \<in> set (aes_extend ws). length w = 4"
    using assms by (auto simp: aes_extend_def Let_def)
qed

lemma aes_schedule_shape:
  assumes "length key = 32"
  shows "length (aes_schedule key) = 60 \<and> (\<forall>w \<in> set (aes_schedule key). length w = 4)"
proof -
  define w0 where "w0 = map (\<lambda>i. take 4 (drop (4 * i) key)) [0..<8]"
  have w0: "length w0 = 8" "\<forall>w \<in> set w0. length w = 4" using assms by (auto simp: w0_def)
  have "length ((aes_extend ^^ n) w0) = 8 + n \<and> (\<forall>w \<in> set ((aes_extend ^^ n) w0). length w = 4)" for n
  proof (induction n)
    case 0
    then show ?case using w0 by simp
  next
    case (Suc n)
    then show ?case using aes_extend_shape [of "(aes_extend ^^ n) w0" "8 + n"] by simp
  qed
  from this [of 52] have "length (aes_schedule key) = 8 + 52 \<and> (\<forall>w \<in> set (aes_schedule key). length w = 4)"
    unfolding aes_schedule_def w0_def .
  then show ?thesis by simp
qed

lemma length_concat_four: "\<forall>w \<in> set ws. length w = 4 \<Longrightarrow> length (concat ws) = 4 * length ws"
  by (induction ws) simp_all

lemma length_round_key:
  assumes "length key = 32" "r \<le> 14"
  shows "length (round_key (aes_schedule key) r) = 16"
proof -
  let ?ws = "take 4 (drop (4 * r) (aes_schedule key))"
  have "length ?ws = 4" "\<forall>w \<in> set ?ws. length w = 4"
    using aes_schedule_shape [OF assms(1)] assms(2) by (auto dest!: in_set_takeD in_set_dropD)
  with length_concat_four [of ?ws] show ?thesis by (simp add: round_key_def)
qed

lemma length_mix_columns: "length (mix_columns st) = 4 * (length st div 4)"
proof (induction st rule: mix_columns.induct)
  case (1 a b c d r)
  have "(4 + length r) div 4 = Suc (length r div 4)" by simp
  with 1 show ?case by (simp del: div_add_self1)
qed simp_all

lemma length_aes_block:
  assumes "length key = 32" "length blk = 16"
  shows "length (aes_block key blk) = 16"
proof -
  let ?ws = "aes_schedule key"
  let ?f = "\<lambda>st r. xor_bytes (mix_columns (shift_rows (map sub_byte st))) (round_key ?ws r)"
  have "length (foldl ?f st rs) = 16" if "length st = 16" "\<forall>r \<in> set rs. r \<le> 14" for st rs
    using that by (induction rs arbitrary: st)
      (simp_all add: length_round_key [OF assms(1)] length_mix_columns shift_rows_def)
  from this [of "xor_bytes blk (round_key ?ws 0)" "[1..<14]"] assms show ?thesis
    by (simp add: aes_block_def Let_def length_round_key shift_rows_def)
qed

lemma length_keystream:
  assumes "length key = 32" "length nonce = 12"
  shows "length (gcm_keystream key nonce n) = n"
proof -
  have b: "length (aes_block key (gcm_counter nonce i)) = 16" for i
    using length_aes_block [OF assms(1)] assms(2) by (simp add: gcm_counter_def)
  have c: "length (concat (map (\<lambda>i. aes_block key (gcm_counter nonce (i + 2))) is)) = 16 * length is" for "is"
    by (induction "is") (simp_all add: b)
  have "n \<le> 16 * ((n + 15) div 16)" by simp
  with c [of "[0..<(n + 15) div 16]"] show ?thesis by (simp add: gcm_keystream_def)
qed

lemma length_gcm_tag:
  assumes "length key = 32" "length nonce = 12"
  shows "length (gcm_tag key nonce ct) = 16"
proof -
  have "length (aes_block key (gcm_counter nonce 1)) = 16"
    using length_aes_block [OF assms(1)] assms(2) by (simp add: gcm_counter_def)
  then show ?thesis by (simp add: gcm_tag_def Let_def bytes_of_w128_def)
qed

section \<open>Opening what was sealed\<close>

lemma xor_bytes_twice: "length xs \<le> length ks \<Longrightarrow> xor_bytes (xor_bytes xs ks) ks = xs"
proof (induction xs arbitrary: ks)
  case Nil
  then show ?case by (simp add: xor_bytes_def)
next
  case (Cons x xs)
  then obtain k ks' where "ks = k # ks'" by (cases ks) auto
  with Cons show ?case by (simp add: xor_bytes_def xor.assoc)
qed

lemma length_to_w8 [simp]: "length (to_w8 bs) = length bs"
  by (simp add: to_w8_def)

lemma length_of_w8 [simp]: "length (of_w8 ws) = length ws"
  by (simp add: of_w8_def)

lemma of_to_w8 [simp]: "of_w8 (to_w8 bs) = bs"
proof -
  have "char_of (unat (of_char c :: w8)) = c" for c
  proof -
    have "unat (of_char c :: w8) = unat (word_of_nat (of_char c) :: w8)" by (simp only: of_nat_of_char)
    also have "\<dots> = of_char c" by (simp add: unat_of_nat del: of_nat_of_char)
    finally show ?thesis by simp
  qed
  then show ?thesis by (simp add: of_w8_def to_w8_def o_def)
qed

lemma to_of_w8 [simp]: "to_w8 (of_w8 ws) = ws"
proof -
  have "(of_char (char_of (unat w) :: char) :: w8) = w" for w
  proof -
    have "(of_char (char_of (unat w) :: char) :: w8) = word_of_nat (of_char (char_of (unat w) :: char))"
      by (simp only: of_nat_of_char)
    also have "(of_char (char_of (unat w) :: char) :: nat) = unat w"
    proof -
      have "unat w < 2 ^ LENGTH(8)" by (rule unsigned_less)
      then show ?thesis by (simp add: of_char_of)
    qed
    finally show ?thesis by simp
  qed
  then show ?thesis by (simp add: of_w8_def to_w8_def o_def)
qed

text \<open>What a client of an AEAD relies on.\<close>

locale aead =
  fixes seal :: "bytes \<Rightarrow> bytes \<Rightarrow> bytes \<Rightarrow> bytes" and opn :: "bytes \<Rightarrow> bytes \<Rightarrow> bytes \<Rightarrow> bytes option"
    and key_size nonce_size overhead :: nat
  assumes open_seal: "length k = key_size \<Longrightarrow> length n = nonce_size \<Longrightarrow> opn k n (seal k n p) = Some p"
    and seal_length: "length k = key_size \<Longrightarrow> length n = nonce_size \<Longrightarrow> length (seal k n p) = length p + overhead"
    and open_seal_only: "length k = key_size \<Longrightarrow> length n = nonce_size \<Longrightarrow> opn k n c = Some p \<Longrightarrow> c = seal k n p"
begin

lemma seal_inj: "length k = key_size \<Longrightarrow> length n = nonce_size \<Longrightarrow> seal k n p = seal k n q \<longleftrightarrow> p = q"
  by (metis open_seal option.inject)

end

interpretation gcm: aead gcm_Seal gcm_Open 32 12 16
proof (standard, goal_cases)
  case (1 k n p)
  let ?ct = "xor_bytes (to_w8 p) (gcm_keystream (to_w8 k) (to_w8 n) (length p))"
  have l: "length ?ct = length p" "length (gcm_tag (to_w8 k) (to_w8 n) ?ct) = 16"
    using 1 by (simp_all add: length_keystream length_gcm_tag)
  then show ?case using 1
    by (simp add: gcm_Open_def gcm_Seal_def Let_def xor_bytes_twice length_keystream)
next
  case (2 k n p)
  then show ?case by (simp add: gcm_Seal_def Let_def length_keystream length_gcm_tag)
next
  case (3 k n c p)
  let ?d = "to_w8 c"
  let ?ct = "take (length ?d - 16) ?d"
  have d: "16 \<le> length c" "drop (length ?d - 16) ?d = gcm_tag (to_w8 k) (to_w8 n) ?ct"
    and p: "p = of_w8 (xor_bytes ?ct (gcm_keystream (to_w8 k) (to_w8 n) (length ?ct)))"
    using 3 by (auto simp: gcm_Open_def Let_def split: if_splits)
  have "length p = length ?ct" using p 3 by (simp add: length_keystream)
  moreover have "xor_bytes (to_w8 p) (gcm_keystream (to_w8 k) (to_w8 n) (length ?ct)) = ?ct"
    using p 3 by (simp add: xor_bytes_twice length_keystream)
  ultimately have "gcm_Seal k n p = of_w8 (?ct @ gcm_tag (to_w8 k) (to_w8 n) ?ct)"
    by (simp add: gcm_Seal_def Let_def)
  also have "\<dots> = of_w8 (?ct @ drop (length ?d - 16) ?d)" using d(2) by simp
  also have "\<dots> = c" by simp
  finally show ?case by simp
qed

end
