(* ===== verification/Envelope.thy ===== *)
theory Envelope
  imports AesGcm
begin

text \<open>
  Envelope encryption of secrets at rest, \<open>internal/crypto/crypto.go\<close>, with \<open>base64.StdEncoding\<close>. A
  \<open>*Cipher\<close> is its master key, \<^term>\<open>None\<close> the nil pointer. The nonce is an argument of \<open>Encrypt\<close>,
  \<^term>\<open>None\<close> when it cannot be drawn.
\<close>

section \<open>base64.StdEncoding\<close>

definition b64_alphabet :: string where
  "b64_alphabet = ''ABCDEFGHIJKLMNOPQRSTUVWXYZabcdefghijklmnopqrstuvwxyz0123456789+/''"

definition b64s_char :: "nat \<Rightarrow> char" where
  "b64s_char n = b64_alphabet ! n"

definition b64s_index :: "char \<Rightarrow> nat option" where
  "b64s_index c = map_of (zip b64_alphabet [0..<64]) c"

fun base64Std :: "bytes \<Rightarrow> string" where
  "base64Std [] = []"
| "base64Std [a] = [b64s_char (of_char a div 4), b64s_char (of_char a mod 4 * 16), CHR ''='', CHR ''='']"
| "base64Std [a, b] =
    [b64s_char (of_char a div 4), b64s_char (of_char a mod 4 * 16 + of_char b div 16),
     b64s_char (of_char b mod 16 * 4), CHR ''='']"
| "base64Std (a # b # c # r) =
    b64s_char (of_char a div 4) # b64s_char (of_char a mod 4 * 16 + of_char b div 16)
    # b64s_char (of_char b mod 16 * 4 + of_char c div 64) # b64s_char (of_char c mod 64) # base64Std r"

text \<open>Decoding skips line breaks; the unused bits before the padding are not checked.\<close>

fun b64_groups :: "string \<Rightarrow> bytes option" where
  "b64_groups [] = Some []"
| "b64_groups (p # q # r # s # rest) =
    (case (b64s_index p, b64s_index q) of
       (Some x, Some y) \<Rightarrow>
         if r = CHR ''='' then
           (if s = CHR ''='' \<and> rest = [] then Some [char_of (x * 4 + y div 16)] else None)
         else (case b64s_index r of
             None \<Rightarrow> None
           | Some z \<Rightarrow>
               if s = CHR ''='' then
                 (if rest = [] then Some [char_of (x * 4 + y div 16), char_of (y mod 16 * 16 + z div 4)] else None)
               else (case (b64s_index s, b64_groups rest) of
                   (Some w, Some bs) \<Rightarrow>
                     Some (char_of (x * 4 + y div 16) # char_of (y mod 16 * 16 + z div 4) # char_of (z mod 4 * 64 + w) # bs)
                 | _ \<Rightarrow> None))
     | _ \<Rightarrow> None)"
| "b64_groups _ = None"

definition base64StdDecode :: "string \<Rightarrow> bytes option" where
  "base64StdDecode s = b64_groups (filter (\<lambda>c. c \<noteq> CHR 0x0D \<and> c \<noteq> CHR 0x0A) s)"

lemma b64s_index_char: "n < 64 \<Longrightarrow> b64s_index (b64s_char n) = Some n"
proof -
  have "\<forall>n \<in> set [0..<64]. b64s_index (b64s_char n) = Some n" by code_simp
  then show "n < 64 \<Longrightarrow> b64s_index (b64s_char n) = Some n" by simp
qed

lemma b64s_char_plain: "n < 64 \<Longrightarrow> b64s_char n \<noteq> CHR ''='' \<and> b64s_char n \<noteq> CHR 0x0D \<and> b64s_char n \<noteq> CHR 0x0A"
proof -
  have "\<forall>n \<in> set [0..<64]. b64s_char n \<noteq> CHR ''='' \<and> b64s_char n \<noteq> CHR 0x0D \<and> b64s_char n \<noteq> CHR 0x0A" by code_simp
  then show "n < 64 \<Longrightarrow> b64s_char n \<noteq> CHR ''='' \<and> b64s_char n \<noteq> CHR 0x0D \<and> b64s_char n \<noteq> CHR 0x0A" by simp
qed

lemma sextets:
  assumes "a < 256" "b < 256" "c < (256 :: nat)"
  shows "a div 4 < 64" "a mod 4 * 16 + b div 16 < 64" "b mod 16 * 4 + c div 64 < 64" "c mod 64 < 64"
    "a div 4 * 4 + (a mod 4 * 16 + b div 16) div 16 = a"
    "(a mod 4 * 16 + b div 16) mod 16 * 16 + (b mod 16 * 4 + c div 64) div 4 = b"
    "(b mod 16 * 4 + c div 64) mod 4 * 64 + c mod 64 = c"
proof -
  have lt: "b div 16 < 16" "c div 64 < 4" "a mod 4 < 4" "b mod 16 < 16" using assms by simp_all
  then show "a div 4 < 64" "a mod 4 * 16 + b div 16 < 64" "b mod 16 * 4 + c div 64 < 64" "c mod 64 < 64"
    using assms by linarith+
  have "(a mod 4 * 16 + b div 16) div 16 = a mod 4" "(a mod 4 * 16 + b div 16) mod 16 = b div 16"
    "(b mod 16 * 4 + c div 64) div 4 = b mod 16" "(b mod 16 * 4 + c div 64) mod 4 = c div 64"
    using lt(1,2) by simp_all
  then show "a div 4 * 4 + (a mod 4 * 16 + b div 16) div 16 = a"
    "(a mod 4 * 16 + b div 16) mod 16 * 16 + (b mod 16 * 4 + c div 64) div 4 = b"
    "(b mod 16 * 4 + c div 64) mod 4 * 64 + c mod 64 = c"
    by (simp_all only: div_mult_mod_eq)
qed

lemma base64_no_breaks: "filter (\<lambda>c. c \<noteq> CHR 0x0D \<and> c \<noteq> CHR 0x0A) (base64Std bs) = base64Std bs"
proof (induction bs rule: base64Std.induct)
  case (2 a)
  then show ?case using sextets [of "of_char a" 0 0] by (simp add: b64s_char_plain)
next
  case (3 a b)
  then show ?case using sextets [of "of_char a" "of_char b" 0] by (simp add: b64s_char_plain)
next
  case (4 a b c r)
  then show ?case using sextets [of "of_char a" "of_char b" "of_char c"] by (simp add: b64s_char_plain)
qed simp

lemma b64_group1: "x < 64 \<Longrightarrow> y < 64 \<Longrightarrow>
    b64_groups [b64s_char x, b64s_char y, CHR ''='', CHR ''=''] = Some [char_of (x * 4 + y div 16)]"
  by (simp add: b64s_index_char)

lemma b64_group2: "x < 64 \<Longrightarrow> y < 64 \<Longrightarrow> z < 64 \<Longrightarrow>
    b64_groups [b64s_char x, b64s_char y, b64s_char z, CHR ''=''] =
    Some [char_of (x * 4 + y div 16), char_of (y mod 16 * 16 + z div 4)]"
  by (simp add: b64s_index_char b64s_char_plain)

lemma b64_group3: "x < 64 \<Longrightarrow> y < 64 \<Longrightarrow> z < 64 \<Longrightarrow> w < 64 \<Longrightarrow> b64_groups r = Some bs \<Longrightarrow>
    b64_groups (b64s_char x # b64s_char y # b64s_char z # b64s_char w # r) =
    Some (char_of (x * 4 + y div 16) # char_of (y mod 16 * 16 + z div 4) # char_of (z mod 4 * 64 + w) # bs)"
  by (simp add: b64s_index_char b64s_char_plain)

lemma b64_groups_encode: "b64_groups (base64Std bs) = Some bs"
proof (induction bs rule: base64Std.induct)
  case 1
  then show ?case by simp
next
  case (2 a)
  have a: "of_char a < (256 :: nat)" "(0 :: nat) < 256" by simp_all
  note s = sextets [OF a a(2), unfolded div_0 add_0_right]
  show ?case by (simp only: base64Std.simps b64_group1 [OF s(1,2)] s(5) char_of_char)
next
  case (3 a b)
  have a: "of_char a < (256 :: nat)" "of_char b < (256 :: nat)" "(0 :: nat) < 256" by simp_all
  note s = sextets [OF a, unfolded div_0 add_0_right]
  show ?case by (simp only: base64Std.simps b64_group2 [OF s(1-3)] s(5,6) char_of_char)
next
  case (4 a b c r)
  have a: "of_char a < (256 :: nat)" "of_char b < (256 :: nat)" "of_char c < (256 :: nat)" by simp_all
  note s = sextets [OF a]
  show ?case by (simp only: base64Std.simps b64_group3 [OF s(1-4) 4] s(5-7) char_of_char)
qed

lemma base64_round_trip [simp]: "base64StdDecode (base64Std bs) = Some bs"
  by (simp add: base64StdDecode_def base64_no_breaks b64_groups_encode)

section \<open>The cipher\<close>

datatype crypto_error = ErrNotConfigured | ErrDecrypt | ErrNonce | ErrKey string

type_synonym Cipher = "bytes option"

definition version1 :: char where
  "version1 = CHR 0x01"

definition KeySize :: nat where
  "KeySize = 32"

definition crypto_New :: "string \<Rightarrow> crypto_error + Cipher" where
  "crypto_New keyBase64 = (case base64StdDecode keyBase64 of
      None \<Rightarrow> Inl (ErrKey ''master key is not valid base64'')
    | Some key \<Rightarrow>
        if length key \<noteq> KeySize then Inl (ErrKey ''master key must be 32 bytes after base64 decoding'')
        else Inr (Some key))"

definition Configured :: "Cipher \<Rightarrow> bool" where
  "Configured c \<longleftrightarrow> c \<noteq> None"

definition Encrypt :: "Cipher \<Rightarrow> bytes option \<Rightarrow> bytes \<Rightarrow> crypto_error + bytes" where
  "Encrypt c rnd plaintext = (case c of
      None \<Rightarrow> Inl ErrNotConfigured
    | Some key \<Rightarrow> (case rnd of
          None \<Rightarrow> Inl ErrNonce
        | Some nonce \<Rightarrow> Inr (version1 # nonce @ gcm_Seal key nonce plaintext)))"

definition Decrypt :: "Cipher \<Rightarrow> bytes \<Rightarrow> crypto_error + bytes" where
  "Decrypt c ciphertext = (case c of
      None \<Rightarrow> Inl ErrNotConfigured
    | Some key \<Rightarrow>
        if length ciphertext < 1 + 12 then Inl ErrDecrypt
        else if hd ciphertext \<noteq> version1 then Inl ErrDecrypt
        else (case gcm_Open key (take 12 (drop 1 ciphertext)) (drop 13 ciphertext) of
            None \<Rightarrow> Inl ErrDecrypt
          | Some plaintext \<Rightarrow> Inr plaintext))"

definition NewRandomKeyBase64 :: "bytes \<Rightarrow> string" where
  "NewRandomKeyBase64 key = base64Std key"

definition cipher_ok :: "Cipher \<Rightarrow> bool" where
  "cipher_ok c \<longleftrightarrow> (case c of None \<Rightarrow> True | Some key \<Rightarrow> length key = KeySize)"

lemma crypto_New_ok:
  assumes "crypto_New s = Inr c"
  shows "cipher_ok c \<and> c \<noteq> None"
proof -
  from assms obtain key where "length key = KeySize" "c = Some key"
    by (cases "base64StdDecode s") (simp_all add: crypto_New_def split: if_splits)
  then show ?thesis by (simp add: cipher_ok_def)
qed

lemma Decrypt_Encrypt:
  assumes "cipher_ok c" "length nonce = 12" "Encrypt c (Some nonce) p = Inr ct"
  shows "Decrypt c ct = Inr p"
  using assms gcm.open_seal by (auto simp: Encrypt_def Decrypt_def cipher_ok_def KeySize_def split: option.splits)

lemma Decrypt_only_Encrypt:
  assumes "cipher_ok c" "Decrypt c ct = Inr p"
  shows "\<exists>nonce. length nonce = 12 \<and> Encrypt c (Some nonce) p = Inr ct"
proof -
  from assms obtain key where k: "c = Some key" "length key = 32" "13 \<le> length ct" "hd ct = version1"
    and o: "gcm_Open key (take 12 (drop 1 ct)) (drop 13 ct) = Some p"
    by (auto simp: Decrypt_def cipher_ok_def KeySize_def split: option.splits if_splits)
  have n: "length (take 12 (drop 1 ct)) = 12" using k(3) by simp
  from gcm.open_seal_only [OF k(2) n o] have "drop 13 ct = gcm_Seal key (take 12 (drop 1 ct)) p" .
  moreover have "ct = hd ct # take 12 (drop 1 ct) @ drop 13 ct"
  proof (cases ct)
    case (Cons x xs)
    then show ?thesis using append_take_drop_id [of 12 xs] by simp
  qed (use k in simp)
  ultimately have "ct = version1 # take 12 (drop 1 ct) @ gcm_Seal key (take 12 (drop 1 ct)) p" using k(4) by metis
  then have "Encrypt c (Some (take 12 (drop 1 ct))) p = Inr ct" using k(1) by (simp add: Encrypt_def)
  with n show ?thesis by blast
qed

section \<open>Property\<close>

text \<open>C30: a secret encrypted under a master key is read back with that key; every text the cipher decrypts
  is one that it could have produced for exactly that secret, so changed or truncated data, data of another
  version and data sealed under other keys and nonces are refused; without a key both operations fail.\<close>

theorem envelope_round_trip:
  assumes "crypto_New k = Inr c"
  shows "(\<forall>nonce p. length nonce = 12 \<longrightarrow> (\<exists>ct. Encrypt c (Some nonce) p = Inr ct \<and> Decrypt c ct = Inr p))
    \<and> (\<forall>ct p. Decrypt c ct = Inr p \<longrightarrow> (\<exists>nonce. length nonce = 12 \<and> Encrypt c (Some nonce) p = Inr ct))
    \<and> Encrypt None rnd p = Inl ErrNotConfigured \<and> Decrypt None ct = Inl ErrNotConfigured"
proof -
  from crypto_New_ok [OF assms] obtain key where c: "c = Some key" "cipher_ok c" by auto
  have "\<exists>ct. Encrypt c (Some nonce) p = Inr ct \<and> Decrypt c ct = Inr p" if "length nonce = 12" for nonce p
    using Decrypt_Encrypt [OF c(2) that] c(1) by (simp add: Encrypt_def)
  then show ?thesis using Decrypt_only_Encrypt [OF c(2)] by (simp add: Encrypt_def Decrypt_def)
qed

theorem envelope_round_trip_witness:
  "\<exists>c ct. crypto_New (base64Std (replicate 32 (CHR ''k''))) = Inr c \<and>
     Encrypt c (Some (replicate 12 (CHR ''n''))) ''s3cret'' = Inr ct \<and> Decrypt c ct = Inr ''s3cret''"
proof -
  have c: "crypto_New (base64Std (replicate 32 (CHR ''k''))) = Inr (Some (replicate 32 (CHR ''k'')))"
    by (simp add: crypto_New_def KeySize_def del: replicate.simps)
  have "length (replicate 12 (CHR ''n'')) = 12" by simp
  with envelope_round_trip [OF c] c show ?thesis by blast
qed

end
