(* ===== verification/Secrets.thy ===== *)
theory Secrets
  imports Validate Envelope
begin

text \<open>
  Secret fields of a graph, \<open>internal/pipelines/secrets.go\<close>: values the catalog's schemas mark as
  passwords are encrypted before a graph is stored, redacted before it leaves the backend and decrypted
  for rendering.

  The callback of the walk is a function on a state: the random draws used and the issues found so far.
  The fields of an object are visited in the order of its list, which stands for the order Go's map
  iteration happens to take.
\<close>

definition RedactedSentinel :: string where
  "RedactedSentinel = ''__otelfleet_redacted__''"

definition encKey :: string where
  "encKey = ''$enc''"

fun encValue :: "json \<Rightarrow> bytes option" where
  "encValue (JObj [(k, JStr s)]) = (if k = encKey then base64StdDecode s else None)"
| "encValue _ = None"

definition newEncValue :: "bytes \<Rightarrow> json" where
  "newEncValue ciphertext = JObj [(encKey, JStr (base64Std ciphertext))]"

lemma encValue_new [simp]: "encValue (newEncValue ct) = Some ct"
  by (simp add: newEncValue_def)

lemma newEncValue_not_string [simp]: "newEncValue ct \<noteq> JStr s"
  by (simp add: newEncValue_def)

section \<open>The walk\<close>

text \<open>Reading a schema: the sub-schema under a key if it is an object.\<close>

fun as_object :: "json \<Rightarrow> obj option" where
  "as_object (JObj m) = Some m"
| "as_object _ = None"

definition sub_schema :: "string \<Rightarrow> obj \<Rightarrow> obj option" where
  "sub_schema k schema = as_object (field k schema)"

definition is_password :: "obj \<Rightarrow> bool" where
  "is_password schema \<longleftrightarrow> field ''format'' schema = JStr ''password''"

definition property_schema :: "obj \<Rightarrow> string \<Rightarrow> obj option" where
  "property_schema schema k =
    (case Option.bind (sub_schema ''properties'' schema) (sub_schema k) of
       Some sub \<Rightarrow> Some sub
     | None \<Rightarrow> sub_schema ''additionalProperties'' schema)"

type_synonym 's walker = "string \<Rightarrow> json \<Rightarrow> 's \<Rightarrow> string + json \<times> 's"

function (sequential)
  transformSecrets :: "'s walker \<Rightarrow> string \<Rightarrow> obj option \<Rightarrow> json \<Rightarrow> 's \<Rightarrow> string + json \<times> 's"
and transform_fields :: "'s walker \<Rightarrow> string \<Rightarrow> obj \<Rightarrow> obj \<Rightarrow> 's \<Rightarrow> string + obj \<times> 's"
and transform_items :: "'s walker \<Rightarrow> string \<Rightarrow> obj \<Rightarrow> nat \<Rightarrow> json list \<Rightarrow> 's \<Rightarrow> string + json list \<times> 's"
  where
  "transformSecrets fn path schema v s =
    (case schema of
       None \<Rightarrow> Inr (v, s)
     | Some sch \<Rightarrow>
         if is_password sch then fn path v s
         else (case v of
             JObj kvs \<Rightarrow> (case transform_fields fn path sch kvs s of
                 Inl e \<Rightarrow> Inl e
               | Inr (kvs', s') \<Rightarrow> Inr (JObj kvs', s'))
           | JArr vs \<Rightarrow> (case sub_schema ''items'' sch of
                 None \<Rightarrow> Inr (v, s)
               | Some sub \<Rightarrow> (case transform_items fn path sub 0 vs s of
                   Inl e \<Rightarrow> Inl e
                 | Inr (vs', s') \<Rightarrow> Inr (JArr vs', s')))
           | _ \<Rightarrow> Inr (v, s)))"
| "transform_fields fn path sch [] s = Inr ([], s)"
| "transform_fields fn path sch ((k, v) # kvs) s =
    (case transformSecrets fn (path @ ''.'' @ k) (property_schema sch k) v s of
       Inl e \<Rightarrow> Inl e
     | Inr (v', s') \<Rightarrow> (case transform_fields fn path sch kvs s' of
           Inl e \<Rightarrow> Inl e
         | Inr (kvs', s'') \<Rightarrow> Inr ((k, v') # kvs', s'')))"
| "transform_items fn path sub i [] s = Inr ([], s)"
| "transform_items fn path sub i (v # vs) s =
    (case transformSecrets fn (at_index path i) (Some sub) v s of
       Inl e \<Rightarrow> Inl e
     | Inr (v', s') \<Rightarrow> (case transform_items fn path sub (Suc i) vs s' of
           Inl e \<Rightarrow> Inl e
         | Inr (vs', s'') \<Rightarrow> Inr (v' # vs', s'')))"
  by pat_completeness auto
termination
  by (relation "measure (case_sum (\<lambda>(_, _, _, v, _). size v)
       (case_sum (\<lambda>(_, _, _, kvs, _). size_list (size_prod (\<lambda>_. 0) size) kvs) (\<lambda>(_, _, _, _, vs, _). size_list size vs)))")
    auto

definition transform_node :: "'s walker \<Rightarrow> string \<Rightarrow> string \<Rightarrow> nat \<Rightarrow> Node \<Rightarrow> 's \<Rightarrow> string + Node \<times> 's" where
  "transform_node fn name kind i n s = (case (Lookup kind (n_Type n), n_Config n) of
      (Some cm, Some config) \<Rightarrow>
        (case transformSecrets fn (at_index name i @ ''.config'') (as_object (c_Schema cm)) (JObj config) s of
           Inl e \<Rightarrow> Inl e
         | Inr (v, s') \<Rightarrow> Inr (n\<lparr>n_Config := as_object v\<rparr>, s'))
    | _ \<Rightarrow> Inr (n, s))"

fun transform_nodes :: "'s walker \<Rightarrow> string \<Rightarrow> string \<Rightarrow> nat \<Rightarrow> Node list \<Rightarrow> 's \<Rightarrow> string + Node list \<times> 's" where
  "transform_nodes fn name kind i [] s = Inr ([], s)"
| "transform_nodes fn name kind i (n # ns) s =
    (case transform_node fn name kind i n s of
       Inl e \<Rightarrow> Inl e
     | Inr (n', s') \<Rightarrow> (case transform_nodes fn name kind (Suc i) ns s' of
           Inl e \<Rightarrow> Inl e
         | Inr (ns', s'') \<Rightarrow> Inr (n' # ns', s'')))"

definition transformGraphSecrets :: "'s walker \<Rightarrow> Graph \<Rightarrow> 's \<Rightarrow> string + Graph \<times> 's" where
  "transformGraphSecrets fn g s =
    (case transform_nodes fn ''processors'' KindProcessor 0 (g_Processors g) s of
       Inl e \<Rightarrow> Inl e
     | Inr (ps, s1) \<Rightarrow> (case transform_nodes fn ''exporters'' KindExporter 0 (g_Exporters g) s1 of
           Inl e \<Rightarrow> Inl e
         | Inr (es, s2) \<Rightarrow> Inr (g\<lparr>g_Processors := ps, g_Exporters := es\<rparr>, s2)))"

section \<open>Encrypting, redacting, decrypting\<close>

definition collect :: "(string \<times> json) list walker" where
  "collect path v acc = Inr (v, (path, v) # acc)"

text \<open>\<open>prevSecrets\<close>: the secret fields of a graph by path, the last one first.\<close>

definition graph_secrets :: "Graph \<Rightarrow> (string \<times> json) list" where
  "graph_secrets g = (case transformGraphSecrets collect g [] of Inl _ \<Rightarrow> [] | Inr (_, acc) \<Rightarrow> acc)"

record enc_state =
  es_Draws :: nat
  es_Issues :: "Issue list"

text \<open>\<open>rnd\<close> gives the successive draws from \<open>crypto/rand\<close>: a nonce of 12 bytes for an encryption, a key of
  32 bytes for the hint.\<close>

definition encrypt_field ::
    "Cipher \<Rightarrow> (nat \<Rightarrow> bytes option) \<Rightarrow> (string \<times> json) list \<Rightarrow> enc_state walker" where
  "encrypt_field cipher rnd prevSecrets path v st =
    (let seal = (\<lambda>s. case Encrypt cipher (rnd (es_Draws st)) s of
             Inr ct \<Rightarrow> Inr (newEncValue ct, st\<lparr>es_Draws := es_Draws st + 1\<rparr>)
           | Inl e \<Rightarrow>
               if Configured cipher then Inl (''encrypt secret at '' @ path)
               else (case rnd (es_Draws st) of
                   None \<Rightarrow> Inl ''crypto/rand unavailable''
                 | Some k \<Rightarrow> Inr (v, st\<lparr>es_Draws := es_Draws st + 1, es_Issues := es_Issues st @ [issueAt path
                     (''master key not configured (set OTELFLEET_MASTER_KEY); secret fields cannot be stored without it (example key: '' @
                      NewRandomKeyBase64 k @ '')'')]\<rparr>)))
     in if encValue v \<noteq> None then Inr (v, st)
        else (case v of
            JStr s \<Rightarrow>
              if s \<noteq> RedactedSentinel then seal s
              else (case map_of prevSecrets path of
                  None \<Rightarrow> Inr (v, st\<lparr>es_Issues := es_Issues st @ [issueAt path
                    ''value is redacted but no stored secret exists at this path; provide the actual value'']\<rparr>)
                | Some prevVal \<Rightarrow>
                    if encValue prevVal \<noteq> None then Inr (prevVal, st)
                    else seal (case prevVal of JStr p \<Rightarrow> p | _ \<Rightarrow> ''''))
          | _ \<Rightarrow> Inr (v, st)))"

definition EncryptGraphSecrets ::
    "Cipher \<Rightarrow> (nat \<Rightarrow> bytes option) \<Rightarrow> Graph \<Rightarrow> Graph option \<Rightarrow> string + Graph \<times> Issue list" where
  "EncryptGraphSecrets cipher rnd g prev =
    (let prevSecrets = (case prev of None \<Rightarrow> [] | Some pg \<Rightarrow> graph_secrets pg)
     in case transformGraphSecrets (encrypt_field cipher rnd prevSecrets) g \<lparr>es_Draws = 0, es_Issues = []\<rparr> of
       Inl e \<Rightarrow> Inl e
     | Inr (out, st) \<Rightarrow>
         if es_Issues st \<noteq> [] then Inr (\<lparr>g_Signals = [], g_Processors = [], g_Exporters = []\<rparr>, es_Issues st)
         else Inr (out, []))"

definition redact_field :: "unit walker" where
  "redact_field path v s = (if v = JNull then Inr (v, s) else Inr (JStr RedactedSentinel, s))"

definition RedactGraphSecrets :: "Graph \<Rightarrow> Graph" where
  "RedactGraphSecrets g = (case transformGraphSecrets redact_field g () of
      Inl _ \<Rightarrow> \<lparr>g_Signals = [], g_Processors = [], g_Exporters = []\<rparr>
    | Inr (out, _) \<Rightarrow> out)"

definition decrypt_field :: "Cipher \<Rightarrow> unit walker" where
  "decrypt_field cipher path v s = (case encValue v of
      None \<Rightarrow> Inr (v, s)
    | Some ct \<Rightarrow> (case Decrypt cipher ct of
          Inl e \<Rightarrow> Inl (''decrypt secret at '' @ path)
        | Inr pt \<Rightarrow> Inr (JStr pt, s)))"

definition DecryptGraphSecrets :: "Cipher \<Rightarrow> Graph \<Rightarrow> string + Graph" where
  "DecryptGraphSecrets cipher g = (case transformGraphSecrets (decrypt_field cipher) g () of
      Inl e \<Rightarrow> Inl e
    | Inr (out, _) \<Rightarrow> Inr out)"

section \<open>Two walks in a row\<close>

declare transformSecrets.simps(1) [simp del]

definition check_field :: "(string \<Rightarrow> json \<Rightarrow> bool) \<Rightarrow> unit walker" where
  "check_field P path v s = (if P path v then Inr (v, s) else Inl path)"

text \<open>Every secret field of a value, of a node list and of a graph satisfies \<open>P\<close>.\<close>

definition all_secrets :: "(string \<Rightarrow> json \<Rightarrow> bool) \<Rightarrow> Graph \<Rightarrow> bool" where
  "all_secrets P g \<longleftrightarrow> isl (transformGraphSecrets (check_field P) g ()) = False"

text \<open>A walk \<open>h\<close> over the result of a walk \<open>f\<close>, where for each field \<open>h\<close> keeps what \<open>f\<close> returned (\<open>b\<close> false) or
  gives back what \<open>f\<close> was called with (\<open>b\<close> true).\<close>

definition follows :: "bool \<Rightarrow> (string \<Rightarrow> json \<Rightarrow> bool) \<Rightarrow> ('s \<Rightarrow> bool) \<Rightarrow> 's walker \<Rightarrow> 't walker \<Rightarrow> 't \<Rightarrow> bool" where
  "follows b P ok f h t \<longleftrightarrow> (\<forall>p x s y s'. f p x s = Inr (y, s') \<longrightarrow> ok s' \<longrightarrow>
     ok s \<and> (P p x \<longrightarrow> h p y t = Inr (if b then x else y, t)))"

lemma walk_after:
  shows "follows b P ok f h t \<Longrightarrow> transformSecrets f path schema v s = Inr (v', s') \<Longrightarrow> ok s' \<Longrightarrow>
      ok s \<and> (\<not> isl (transformSecrets (check_field P) path schema v ()) \<longrightarrow>
        transformSecrets h path schema v' t = Inr (if b then v else v', t))"
    and "follows b P ok f h t \<Longrightarrow> transform_fields f path sch kvs s = Inr (kvs', s') \<Longrightarrow> ok s' \<Longrightarrow>
      ok s \<and> (\<not> isl (transform_fields (check_field P) path sch kvs ()) \<longrightarrow>
        transform_fields h path sch kvs' t = Inr (if b then kvs else kvs', t))"
    and "follows b P ok f h t \<Longrightarrow> transform_items f path sub i vs s = Inr (vs', s') \<Longrightarrow> ok s' \<Longrightarrow>
      ok s \<and> (\<not> isl (transform_items (check_field P) path sub i vs ()) \<longrightarrow>
        transform_items h path sub i vs' t = Inr (if b then vs else vs', t))"
proof (induction f path schema v s and f path sch kvs s and f path sub i vs s
    arbitrary: v' s' and kvs' s' and vs' s' rule: transformSecrets_transform_fields_transform_items.induct)
  case (1 fn path schema v s)
  show ?case
  proof (cases schema)
    case None
    then show ?thesis using 1 by (simp add: transformSecrets.simps)
  next
    case (Some sch)
    show ?thesis
    proof (cases "is_password sch")
      case True
      then show ?thesis using 1(3-5) Some
        by (auto simp: transformSecrets.simps follows_def check_field_def split: if_splits)
    next
      case False
      then show ?thesis using 1 Some
        by (cases v) (auto simp: transformSecrets.simps split: sum.splits option.splits)
    qed
  qed
next
  case (3 fn path sch k v kvs s)
  then show ?case by (auto split: sum.splits)
next
  case (5 fn path sub i v vs s)
  then show ?case by (auto split: sum.splits)
qed simp_all

lemma catalog_schemas:
  "list_all (\<lambda>c. case as_object (c_Schema c) of None \<Rightarrow> False | Some sch \<Rightarrow> \<not> is_password sch) catalog_all"
  by code_simp

lemma Lookup_schema:
  assumes "Lookup kind typ = Some c"
  obtains sch where "as_object (c_Schema c) = Some sch" "\<not> is_password sch"
proof -
  from Lookup_SomeD [OF assms] have "c \<in> set catalog_all" by simp
  with catalog_schemas show ?thesis using that by (auto simp: list_all_iff split: option.splits)
qed

lemma transform_config_object:
  assumes "\<not> is_password sch" "transformSecrets f path (Some sch) (JObj kvs) s = Inr (v, s')"
  shows "\<exists>kvs'. v = JObj kvs'"
  using assms by (auto simp: transformSecrets.simps split: sum.splits)

lemma transform_node_skip:
  "Lookup kind (n_Type n) = None \<or> n_Config n = None \<Longrightarrow> transform_node w name kind i n t = Inr (n, t)"
  by (auto simp: transform_node_def split: option.splits)

lemma node_after:
  assumes "follows b P ok f h t" "transform_node f name kind i n s = Inr (n', s')" "ok s'"
  shows "ok s \<and> (\<not> isl (transform_node (check_field P) name kind i n ()) \<longrightarrow>
      transform_node h name kind i n' t = Inr (if b then n else n', t))"
proof (cases "Lookup kind (n_Type n) = None \<or> n_Config n = None")
  case True
  with assms show ?thesis by (auto simp: transform_node_skip)
next
  case False
  then obtain cm config where c: "Lookup kind (n_Type n) = Some cm" "n_Config n = Some config" by auto
  from Lookup_schema [OF c(1)] obtain sch where sch: "as_object (c_Schema cm) = Some sch" "\<not> is_password sch" .
  let ?path = "at_index name i @ ''.config''"
  from assms(2) c sch obtain v where v: "transformSecrets f ?path (Some sch) (JObj config) s = Inr (v, s')"
    and n': "n' = n\<lparr>n_Config := as_object v\<rparr>"
    by (auto simp: transform_node_def split: sum.splits)
  from transform_config_object [OF sch(2) v] obtain kvs' where kv: "v = JObj kvs'" by blast
  from walk_after(1) [OF assms(1) v assms(3)] have ok0: "ok s"
    and w: "\<not> isl (transformSecrets (check_field P) ?path (Some sch) (JObj config) ()) \<longrightarrow>
      transformSecrets h ?path (Some sch) (JObj kvs') t = Inr (if b then JObj config else JObj kvs', t)"
    by (simp_all add: kv)
  have same: "n\<lparr>n_Config := Some config\<rparr> = n" using c(2) by simp
  show ?thesis using ok0 w c sch same by (auto simp: transform_node_def n' kv split: sum.splits if_splits)
qed

lemma nodes_after:
  assumes "follows b P ok f h t"
  shows "transform_nodes f name kind i ns s = Inr (ns', s') \<Longrightarrow> ok s' \<Longrightarrow>
    ok s \<and> (\<not> isl (transform_nodes (check_field P) name kind i ns ()) \<longrightarrow>
      transform_nodes h name kind i ns' t = Inr (if b then ns else ns', t))"
proof (induction ns arbitrary: i s ns')
  case Nil
  then show ?case by simp
next
  case (Cons n ns)
  from Cons.prems(1) obtain n' s1 ns1 where n': "transform_node f name kind i n s = Inr (n', s1)"
    and ns1: "transform_nodes f name kind (Suc i) ns s1 = Inr (ns1, s')" and eq: "ns' = n' # ns1"
    by (auto split: sum.splits)
  from Cons.IH [OF ns1 Cons.prems(2)] node_after [OF assms n'] show ?case
    by (auto simp: eq split: sum.splits)
qed

lemma graph_after:
  assumes "follows b P ok f h t" "transformGraphSecrets f g s = Inr (g', s')" "ok s'" "all_secrets P g"
  shows "transformGraphSecrets h g' t = Inr (if b then g else g', t)"
proof -
  from assms(2) obtain ps s1 es where ps: "transform_nodes f ''processors'' KindProcessor 0 (g_Processors g) s = Inr (ps, s1)"
    and es: "transform_nodes f ''exporters'' KindExporter 0 (g_Exporters g) s1 = Inr (es, s')"
    and g': "g' = g\<lparr>g_Processors := ps, g_Exporters := es\<rparr>"
    by (auto simp: transformGraphSecrets_def split: sum.splits)
  from assms(4) have al: "\<not> isl (transform_nodes (check_field P) ''processors'' KindProcessor 0 (g_Processors g) ())"
    "\<not> isl (transform_nodes (check_field P) ''exporters'' KindExporter 0 (g_Exporters g) ())"
    by (auto simp: all_secrets_def transformGraphSecrets_def split: sum.splits)
  from nodes_after [OF assms(1) es assms(3)] al have s1: "ok s1"
    and e: "transform_nodes h ''exporters'' KindExporter 0 es t = Inr (if b then g_Exporters g else es, t)" by blast+
  from nodes_after [OF assms(1) ps s1] al
  have p: "transform_nodes h ''processors'' KindProcessor 0 ps t = Inr (if b then g_Processors g else ps, t)" by blast
  show ?thesis by (simp add: transformGraphSecrets_def g' p e)
qed

text \<open>A walk whose callback never fails does not fail.\<close>

lemma walk_total:
  shows "(\<And>p x s. \<not> isl (f p x s)) \<Longrightarrow> \<not> isl (transformSecrets f path schema v s)"
    and "(\<And>p x s. \<not> isl (f p x s)) \<Longrightarrow> \<not> isl (transform_fields f path sch kvs s)"
    and "(\<And>p x s. \<not> isl (f p x s)) \<Longrightarrow> \<not> isl (transform_items f path sub i vs s)"
proof (induction f path schema v s and f path sch kvs s and f path sub i vs s
    rule: transformSecrets_transform_fields_transform_items.induct)
  case (1 fn path schema v s)
  show ?case
  proof (cases schema)
    case None
    then show ?thesis by (simp add: transformSecrets.simps)
  next
    case (Some sch)
    show ?thesis
    proof (cases "is_password sch")
      case True
      then show ?thesis using 1(3) Some by (simp add: transformSecrets.simps)
    next
      case False
      show ?thesis
      proof (cases v)
        case (JArr vs)
        then show ?thesis using 1(1) [OF Some False JArr] 1(3) False Some
          by (cases "sub_schema ''items'' sch") (auto simp: transformSecrets.simps isl_def split: sum.splits)
      next
        case (JObj kvs)
        then show ?thesis using 1(2) [OF Some False JObj] 1(3) False Some
          by (auto simp: transformSecrets.simps isl_def split: sum.splits)
      qed (simp_all add: transformSecrets.simps Some False)
    qed
  qed
next
  case (3 fn path sch k v kvs s)
  then show ?case by (fastforce simp: isl_def split: sum.splits)
next
  case (5 fn path sub i v vs s)
  then show ?case by (fastforce simp: isl_def split: sum.splits)
qed simp_all

lemma graph_total:
  assumes "\<And>p x s. \<not> isl (f p x s)"
  shows "\<not> isl (transformGraphSecrets f g s)"
proof -
  have w: "\<exists>v' s'. transformSecrets f p sch v s = Inr (v', s')" for p sch v s
    using walk_total(1) [where f = f and path = p and schema = sch and v = v and s = s] assms by (cases "transformSecrets f p sch v s") auto
  have node: "\<exists>n' s'. transform_node f name kind i n s = Inr (n', s')" for name kind i n s
  proof (cases "Lookup kind (n_Type n) = None \<or> n_Config n = None")
    case False
    then obtain cm config where c: "Lookup kind (n_Type n) = Some cm" "n_Config n = Some config" by auto
    from w [of "at_index name i @ ''.config''" "as_object (c_Schema cm)" "JObj config" s] c show ?thesis
      by (auto simp: transform_node_def)
  qed (simp add: transform_node_skip)
  have nodes: "\<exists>ns' s'. transform_nodes f name kind i ns s = Inr (ns', s')" for name kind i ns s
  proof (induction ns arbitrary: i s)
    case (Cons n ns)
    from node [of name kind i n s] obtain n' s1 where n: "transform_node f name kind i n s = Inr (n', s1)" by blast
    from Cons [of "Suc i" s1] n show ?case by auto
  qed simp
  from nodes [of "''processors''" KindProcessor 0 "g_Processors g" s] obtain ps s1
    where p: "transform_nodes f ''processors'' KindProcessor 0 (g_Processors g) s = Inr (ps, s1)" by blast
  from nodes [of "''exporters''" KindExporter 0 "g_Exporters g" s1] p show ?thesis
    by (auto simp: transformGraphSecrets_def)
qed

lemma all_secrets_True: "all_secrets (\<lambda>_ _. True) g"
  unfolding all_secrets_def by (simp add: graph_total check_field_def)

text \<open>A callback that keeps every value leaves the graph as it is.\<close>

lemma graph_same:
  assumes "\<And>p x s y s'. f p x s = Inr (y, s') \<Longrightarrow> y = x" "transformGraphSecrets f g s = Inr (g', s')"
  shows "g' = g"
proof -
  let ?c = "check_field (\<lambda>_ _. True)"
  have "follows b (\<lambda>_ _. True) (\<lambda>_. True) f ?c ()" for b
    using assms(1) by (auto simp: follows_def check_field_def)
  from graph_after [OF this assms(2) TrueI all_secrets_True, of True]
    graph_after [OF this assms(2) TrueI all_secrets_True, of False] show ?thesis by simp
qed

lemma all_secrets_run: "all_secrets P g \<Longrightarrow> transformGraphSecrets (check_field P) g () = Inr (g, ())"
proof -
  assume "all_secrets P g"
  then obtain g' where g': "transformGraphSecrets (check_field P) g () = Inr (g', ())"
    by (cases "transformGraphSecrets (check_field P) g ()") (auto simp: all_secrets_def)
  have "g' = g" by (rule graph_same [OF _ g']) (simp add: check_field_def split: if_splits)
  with g' show ?thesis by simp
qed

text \<open>What a callback establishes on every field it returns, unless it leaves a state that is not \<open>ok\<close>.\<close>

lemma graph_establishes:
  assumes "\<And>p x s y s'. f p x s = Inr (y, s') \<Longrightarrow> ok s' \<Longrightarrow> ok s \<and> Q p y"
    and "transformGraphSecrets f g s = Inr (g', s')" "ok s'"
  shows "all_secrets Q g'"
proof -
  have "follows False (\<lambda>_ _. True) ok f (check_field Q) ()"
    using assms(1) by (auto simp: follows_def check_field_def)
  from graph_after [OF this assms(2,3) all_secrets_True] show ?thesis by (simp add: all_secrets_def)
qed

lemma all_secrets_conj:
  assumes "all_secrets P g" "all_secrets Q g"
  shows "all_secrets (\<lambda>p v. P p v \<and> Q p v) g"
proof -
  have "follows False Q (\<lambda>_. True) (check_field P) (check_field (\<lambda>p v. P p v \<and> Q p v)) ()"
    by (auto simp: follows_def check_field_def split: if_splits)
  from graph_after [OF this all_secrets_run [OF assms(1)] TrueI assms(2)] show ?thesis
    by (simp add: all_secrets_def)
qed

lemma graph_secrets_complete: "all_secrets (\<lambda>p v. (p, v) \<in> set (graph_secrets g)) g"
proof -
  have "\<not> isl (transformGraphSecrets collect g [])" by (rule graph_total) (simp add: collect_def)
  then obtain g' acc where g': "transformGraphSecrets collect g [] = Inr (g', acc)"
    by (cases "transformGraphSecrets collect g []") auto
  have "g' = g" by (rule graph_same [OF _ g']) (simp add: collect_def)
  moreover have "all_secrets (\<lambda>p v. (p, v) \<in> set acc) g'"
    by (rule graph_establishes [OF _ g', where ok = "\<lambda>s. set s \<subseteq> set acc"]) (auto simp: collect_def)
  ultimately show ?thesis by (simp add: graph_secrets_def g')
qed

section \<open>Properties\<close>

lemma encrypt_issues:
  "encrypt_field c rnd prev p x st = Inr (y, st') \<Longrightarrow> es_Issues st' = [] \<Longrightarrow> es_Issues st = []"
  by (auto simp: encrypt_field_def Let_def split: if_splits json.splits option.splits sum.splits)

lemma encrypt_field_result:
  assumes "encrypt_field c rnd prev p x st = Inr (y, st')" "es_Issues st' = []"
  shows "encValue y \<noteq> None \<or> (\<forall>s. y \<noteq> JStr s)"
  using assms by (auto simp: encrypt_field_def Let_def split: if_splits json.splits option.splits sum.splits)

lemma encrypt_field_plain:
  assumes "encrypt_field c rnd prev p x st = Inr (y, st')" "es_Issues st' = []" "encValue x = None"
    "x \<noteq> JStr RedactedSentinel"
  shows "(\<exists>s ct. x = JStr s \<and> Encrypt c (rnd (es_Draws st)) s = Inr ct \<and> y = newEncValue ct) \<or> y = x \<and> (\<forall>s. x \<noteq> JStr s)"
  using assms by (auto simp: encrypt_field_def Let_def split: if_splits json.splits option.splits sum.splits)

text \<open>C28: secrets survive storage and are never stored in the clear. If a graph whose secret fields are new
  values is accepted, then decrypting the stored graph gives the graph back, and no secret field of the
  stored graph is a plain string. The draws are 12-byte nonces.\<close>

theorem secrets_round_trip:
  assumes "cipher_ok c" "\<And>i n. rnd i = Some n \<Longrightarrow> length n = 12"
    "all_secrets (\<lambda>_ v. encValue v = None \<and> v \<noteq> JStr RedactedSentinel) g"
    "EncryptGraphSecrets c rnd g prev = Inr (stored, [])"
  shows "DecryptGraphSecrets c stored = Inr g
    \<and> all_secrets (\<lambda>_ v. encValue v \<noteq> None \<or> (\<forall>s. v \<noteq> JStr s)) stored"
proof -
  let ?prev = "case prev of None \<Rightarrow> [] | Some pg \<Rightarrow> graph_secrets pg"
  let ?f = "encrypt_field c rnd ?prev"
  let ?ok = "\<lambda>st. es_Issues st = []"
  from assms(4) obtain st where st: "transformGraphSecrets ?f g \<lparr>es_Draws = 0, es_Issues = []\<rparr> = Inr (stored, st)" "?ok st"
    by (auto simp: EncryptGraphSecrets_def Let_def split: sum.splits if_splits)
  have "follows True (\<lambda>_ v. encValue v = None \<and> v \<noteq> JStr RedactedSentinel) ?ok ?f (decrypt_field c) ()"
    unfolding follows_def
  proof (intro allI impI conjI)
    fix p x s y s'
    assume f: "?f p x s = Inr (y, s')" and ok: "?ok s'"
    show "?ok s" by (rule encrypt_issues [OF f ok])
    assume x: "encValue x = None \<and> x \<noteq> JStr RedactedSentinel"
    show "decrypt_field c p y () = Inr (if True then x else y, ())"
    proof (cases "y = x")
      case True
      with x show ?thesis by (simp add: decrypt_field_def)
    next
      case False
      with encrypt_field_plain [OF f ok conjunct1 [OF x] conjunct2 [OF x]] obtain u ct
        where u: "x = JStr u" "Encrypt c (rnd (es_Draws s)) u = Inr ct" "y = newEncValue ct" by auto
      from u(2) obtain n where n: "rnd (es_Draws s) = Some n" by (auto simp: Encrypt_def split: option.splits)
      from Decrypt_Encrypt [OF assms(1) assms(2) [OF n] u(2) [unfolded n]] u show ?thesis
        by (simp add: decrypt_field_def)
    qed
  qed
  from graph_after [OF this st assms(3)] have "DecryptGraphSecrets c stored = Inr g"
    by (simp add: DecryptGraphSecrets_def)
  moreover have "all_secrets (\<lambda>_ v. encValue v \<noteq> None \<or> (\<forall>s. v \<noteq> JStr s)) stored"
    by (rule graph_establishes [OF _ st(1), where ok = ?ok])
      (use encrypt_issues encrypt_field_result st(2) in blast)+
  ultimately show ?thesis by blast
qed

text \<open>C29: redaction. No secret leaves the backend: every secret field of a redacted graph is the sentinel or
  null. And a client that sends a redacted graph back unchanged keeps every stored secret, byte for
  byte, provided the paths of the secret fields are distinct.\<close>

theorem redacted_graph_restores:
  assumes "all_secrets (\<lambda>_ v. encValue v \<noteq> None \<or> v = JNull) g" "distinct (map fst (graph_secrets g))"
  shows "all_secrets (\<lambda>_ v. v = JStr RedactedSentinel \<or> v = JNull) (RedactGraphSecrets g)
    \<and> EncryptGraphSecrets c rnd (RedactGraphSecrets g) (Some g) = Inr (g, [])"
proof -
  have "\<not> isl (transformGraphSecrets redact_field g ())" by (rule graph_total) (simp add: redact_field_def)
  then obtain r where r: "transformGraphSecrets redact_field g () = Inr (r, ())"
    by (cases "transformGraphSecrets redact_field g ()") auto
  then have red: "RedactGraphSecrets g = r" by (simp add: RedactGraphSecrets_def)
  have "all_secrets (\<lambda>_ v. v = JStr RedactedSentinel \<or> v = JNull) r"
    by (rule graph_establishes [OF _ r, where ok = "\<lambda>_. True"]) (auto simp: redact_field_def split: if_splits)
  moreover have "follows True (\<lambda>p v. (p, v) \<in> set (graph_secrets g) \<and> (encValue v \<noteq> None \<or> v = JNull)) (\<lambda>_. True) redact_field
      (encrypt_field c rnd (graph_secrets g)) st" for st
  proof -
    have "map_of (graph_secrets g) p = Some v" if "(p, v) \<in> set (graph_secrets g)" for p v
      using that assms(2) by simp
    then show ?thesis
      by (auto simp: follows_def redact_field_def encrypt_field_def Let_def split: if_splits)
  qed
  from graph_after [OF this r TrueI all_secrets_conj [OF graph_secrets_complete assms(1)]]
  have "EncryptGraphSecrets c rnd r (Some g) = Inr (g, [])" by (simp add: EncryptGraphSecrets_def)
  ultimately show ?thesis by (simp add: red)
qed

text \<open>An OTLP exporter with an authorization header, and a graph of such exporters.\<close>

definition otlp_node :: "string \<Rightarrow> json \<Rightarrow> Node" where
  "otlp_node endpoint header = \<lparr>n_Type = ''otlp'', n_Name = None,
     n_Config = Some [(''endpoint'', JStr endpoint), (''headers'', JObj [(''authorization'', header)])]\<rparr>"

definition otlp_graph :: "Node list \<Rightarrow> Graph" where
  "otlp_graph ns = \<lparr>g_Signals = [''logs''], g_Processors = [], g_Exporters = ns\<rparr>"

lemma Lookup_otlp: "Lookup KindExporter ''otlp'' = Some comp_otlp"
  by code_simp

lemma transform_otlp_node:
  "transform_node f name KindExporter i (otlp_node ep v) s =
    (case f (at_index name i @ ''.config.headers.authorization'') v s of
       Inl e \<Rightarrow> Inl e
     | Inr (v', s') \<Rightarrow> Inr (otlp_node ep v', s'))"
  by (simp add: transform_node_def otlp_node_def Lookup_otlp comp_otlp_def transformSecrets.simps is_password_def
      field_def property_schema_def sub_schema_def headersSchema_def split: sum.split)

lemma transform_otlp_graph:
  "transformGraphSecrets f (otlp_graph ns) s =
    (case transform_nodes f ''exporters'' KindExporter 0 ns s of
       Inl e \<Rightarrow> Inl e
     | Inr (ns', s') \<Rightarrow> Inr (otlp_graph ns', s'))"
  by (simp add: transformGraphSecrets_def otlp_graph_def split: sum.split)

lemmas otlp_simps = transform_otlp_graph transform_otlp_node all_secrets_def check_field_def graph_secrets_def
  collect_def

lemma newEncValue_not_null [simp]: "newEncValue ct \<noteq> JNull"
  by (simp add: newEncValue_def)

theorem secrets_round_trip_witness:
  "\<exists>stored. EncryptGraphSecrets (Some (replicate 32 (CHR ''k''))) (\<lambda>_. Some (replicate 12 (CHR ''n'')))
       (otlp_graph [otlp_node ''a:1'' (JStr ''s3cret'')]) None = Inr (stored, []) \<and>
     DecryptGraphSecrets (Some (replicate 32 (CHR ''k''))) stored = Inr (otlp_graph [otlp_node ''a:1'' (JStr ''s3cret'')])"
proof -
  let ?c = "Some (replicate 32 (CHR ''k''))" and ?rnd = "\<lambda>_ :: nat. Some (replicate 12 (CHR ''n''))"
  let ?g = "otlp_graph [otlp_node ''a:1'' (JStr ''s3cret'')]"
  have c: "cipher_ok ?c" by (simp add: cipher_ok_def KeySize_def del: replicate.simps replicate_Suc)
  have r: "length n = 12" if "?rnd i = Some n" for i n using that by auto
  have a: "all_secrets (\<lambda>_ v. encValue v = None \<and> v \<noteq> JStr RedactedSentinel) ?g"
    by (simp add: otlp_simps RedactedSentinel_def)
  obtain ct where ct: "Encrypt ?c (?rnd 0) ''s3cret'' = Inr ct"
    by (simp add: Encrypt_def)
  have e: "EncryptGraphSecrets ?c ?rnd ?g None = Inr (otlp_graph [otlp_node ''a:1'' (newEncValue ct)], [])"
    using ct by (simp add: EncryptGraphSecrets_def otlp_simps encrypt_field_def RedactedSentinel_def)
  from secrets_round_trip [OF c r a e] e show ?thesis by blast
qed

theorem redacted_graph_restores_witness:
  "EncryptGraphSecrets None (\<lambda>_. None) (RedactGraphSecrets (otlp_graph [otlp_node ''a:1'' (newEncValue ''x'')]))
     (Some (otlp_graph [otlp_node ''a:1'' (newEncValue ''x'')])) = Inr (otlp_graph [otlp_node ''a:1'' (newEncValue ''x'')], [])"
proof -
  let ?g = "otlp_graph [otlp_node ''a:1'' (newEncValue ''x'')]"
  have "all_secrets (\<lambda>_ v. encValue v \<noteq> None \<or> v = JNull) ?g" "distinct (map fst (graph_secrets ?g))"
    by (simp_all add: otlp_simps)
  from redacted_graph_restores [OF this] show ?thesis by blast
qed

text \<open>C31: stored secrets are found by position. A client that removes the first of two exporters and sends
  the second one back with its secret redacted gets the first exporter's secret stored for the second
  exporter's endpoint.\<close>

theorem removed_exporter_moves_secret:
  "EncryptGraphSecrets c rnd (otlp_graph [otlp_node b (JStr RedactedSentinel)])
     (Some (otlp_graph [otlp_node a (newEncValue sa), otlp_node b (newEncValue sb)]))
   = Inr (otlp_graph [otlp_node b (newEncValue sa)], [])"
proof -
  have "at_index ''exporters'' 0 \<noteq> at_index ''exporters'' (Suc 0)" by (simp add: at_index_def Itoa_def digits_nat.simps digit_char_def)
  then show ?thesis by (simp add: EncryptGraphSecrets_def otlp_simps encrypt_field_def)
qed

end
