(* ===== verification/PipelineService.thy ===== *)
theory PipelineService
  imports Secrets StoreFleet Tenants
begin

text \<open>
  The pipeline service, \<open>internal/pipelines/service.go\<close>, with the default distributor
  (\<open>distributor.go\<close>): validation, versions, activation and the rendered configs, on top of the store.
  The state is the database and the config the distributor has published last. The edge notifier is the
  answer of its one call: \<^term>\<open>None\<close> when no notifier is attached, else the error it returns, if any.
  The random draws, the clock and the fresh identifiers are arguments.
\<close>

datatype pipe_error =
    PErrInvalidName
  | PErrSlugTaken
  | PErrStore store_error
  | PErr string

record PipelineSvc =
  sv_Validator :: Validator
  sv_Cipher :: Cipher
  sv_Edge :: "(uuid \<Rightarrow> string option) option"

record svc_state =
  ss_db :: db
  ss_current :: string

section \<open>Distribution\<close>

definition StateApplied :: string where
  "StateApplied = ''applied''"

definition StatePendingRestart :: string where
  "StatePendingRestart = ''pending_restart''"

definition Distribute :: "string \<Rightarrow> svc_state \<Rightarrow> (string \<times> string) \<times> svc_state" where
  "Distribute rendered st =
    ((StatePendingRestart, ''restart the forwarding collector to apply (docker compose restart forwarding)''),
     st\<lparr>ss_current := rendered\<rparr>)"

definition Distributor_Current :: "svc_state \<Rightarrow> string" where
  "Distributor_Current st = ss_current st"

section \<open>Rendering from database state\<close>

definition toRender :: "Cipher \<Rightarrow> ActivePipeline \<Rightarrow> string + RenderPipeline" where
  "toRender cipher ap = (case ParseGraph (act_Graph ap) of
      Inl e \<Rightarrow> Inl (''pipeline '' @ uuid_String (act_PipelineID ap) @ '': '' @ e)
    | Inr g \<Rightarrow> (case DecryptGraphSecrets cipher g of
          Inl e \<Rightarrow> Inl (''pipeline '' @ uuid_String (act_PipelineID ap) @ '': '' @ e)
        | Inr plain \<Rightarrow> Inr \<lparr>rp_CustomerSlug = act_CustomerSlug ap, rp_ClientID = act_ClientID ap,
            rp_PipelineSlug = PipelineSlug (act_PipelineName ap), rp_Graph = plain\<rparr>))"

fun toRender_list :: "Cipher \<Rightarrow> uuid option \<Rightarrow> ActivePipeline list \<Rightarrow> string + RenderPipeline list" where
  "toRender_list cipher exclude [] = Inr []"
| "toRender_list cipher exclude (ap # aps) =
    (if exclude = Some (act_PipelineID ap) then toRender_list cipher exclude aps
     else (case toRender cipher ap of
         Inl e \<Rightarrow> Inl e
       | Inr rp \<Rightarrow> (case toRender_list cipher exclude aps of
             Inl e \<Rightarrow> Inl e
           | Inr rps \<Rightarrow> Inr (rp # rps))))"

definition activeRenderPipelines ::
    "Cipher \<Rightarrow> string \<Rightarrow> uuid option \<Rightarrow> uuid option \<Rightarrow> db \<Rightarrow> string + RenderPipeline list" where
  "activeRenderPipelines cipher targetClass customerID exclude db =
    toRender_list cipher exclude (pg_ListActivePipelines targetClass customerID db)"

definition RenderCurrent :: "(ynode \<Rightarrow> string + 'a) \<Rightarrow> Cipher \<Rightarrow> db \<Rightarrow> string + 'a" where
  "RenderCurrent marshal cipher db =
    (case activeRenderPipelines cipher ClassForwarding None None db of
       Inl e \<Rightarrow> Inl e
     | Inr inputs \<Rightarrow> RenderForwardingConfig marshal inputs)"

definition RenderEdgeCurrent :: "(ynode \<Rightarrow> string + 'a) \<Rightarrow> Cipher \<Rightarrow> uuid \<Rightarrow> db \<Rightarrow> string + 'a" where
  "RenderEdgeCurrent marshal cipher customerID db =
    (case activeRenderPipelines cipher ClassEdge (Some customerID) None db of
       Inl e \<Rightarrow> Inl e
     | Inr inputs \<Rightarrow> RenderEdgeConfig marshal inputs)"

definition ValidateDraft :: "PipelineSvc \<Rightarrow> string \<Rightarrow> Graph \<Rightarrow> db \<Rightarrow> Result" where
  "ValidateDraft sv targetClass g db =
    (let candidate = \<lparr>rp_CustomerSlug = ''draft-validation'', rp_ClientID = ''cust_draft_validation'',
           rp_PipelineSlug = ''draft'', rp_Graph = g\<rparr>;
         others = (if targetClass = ClassEdge then []
           else (case activeRenderPipelines (sv_Cipher sv) ClassForwarding None None db of
               Inl e \<Rightarrow> []
             | Inr rps \<Rightarrow> rps))
     in Validate (sv_Validator sv) targetClass candidate others)"

section \<open>Creating versions\<close>

definition join_lines :: "string list \<Rightarrow> string" where
  "join_lines xs = (case xs of [] \<Rightarrow> '''' | y # ys \<Rightarrow> y @ concat (map (\<lambda>z. CHR 0x0A # z) ys))"

text \<open>The payload's pipeline ID is set by the callers. \<open>Inr (r, None)\<close> is a graph that was found invalid.\<close>

definition prepare ::
    "PipelineSvc \<Rightarrow> (nat \<Rightarrow> bytes option) \<Rightarrow> uuid \<Rightarrow> uuid \<Rightarrow> string \<Rightarrow> string \<Rightarrow> string \<Rightarrow> string \<Rightarrow> uuid option \<Rightarrow>
     Graph \<Rightarrow> Graph option \<Rightarrow> uuid option \<Rightarrow> db \<Rightarrow> string + Result \<times> NewPipelineVersion option" where
  "prepare sv rnd vid custID custSlug custClientID name targetClass exclude g prev actor db =
    (case EncryptGraphSecrets (sv_Cipher sv) rnd g prev of
       Inl e \<Rightarrow> Inl e
     | Inr (stored, secretIssues) \<Rightarrow>
         if secretIssues \<noteq> [] then Inr (\<lparr>res_Valid = False, res_Issues = secretIssues, res_RenderedYAML = None\<rparr>, None)
         else (case DecryptGraphSecrets (sv_Cipher sv) stored of
             Inl e \<Rightarrow> Inl e
           | Inr plain \<Rightarrow>
               (let candidate = \<lparr>rp_CustomerSlug = custSlug, rp_ClientID = custClientID,
                      rp_PipelineSlug = PipelineSlug name, rp_Graph = plain\<rparr>;
                    scope = (if targetClass = ClassEdge then Some custID else None)
                in case activeRenderPipelines (sv_Cipher sv) targetClass scope exclude db of
                     Inl e \<Rightarrow> Inl e
                   | Inr others \<Rightarrow>
                       (let res = Validate (sv_Validator sv) targetClass candidate others
                        in if \<not> res_Valid res then Inr (res, None)
                           else (case render_fragment (sv_Validator sv) targetClass
                                    (candidate\<lparr>rp_Graph := RedactGraphSecrets stored\<rparr>) of
                               Inl e \<Rightarrow> Inl e
                             | Inr fragment \<Rightarrow> Inr (res\<lparr>res_RenderedYAML := Some fragment\<rparr>,
                                 Some \<lparr>nv_ID = vid, nv_PipelineID = uuid_Nil, nv_Graph = MarshalGraph stored,
                                   nv_RenderedYAML = fragment, nv_ConfigHash = Sum256 fragment,
                                   nv_ValidationStatus = ValidationValid,
                                   nv_ValidationOutput = (if res_Issues res \<noteq> []
                                     then Some (join_lines (map i_Message (res_Issues res))) else None),
                                   nv_CreatedBy = actor\<rparr>))))))"

definition create_pipeline_entries :: "uuid option \<Rightarrow> uuid \<Rightarrow> uuid \<Rightarrow> uuid \<Rightarrow> string \<Rightarrow> string \<Rightarrow> string \<Rightarrow> Entry list" where
  "create_pipeline_entries actor customerID pid vid name slug targetClass =
    [user_entry actor ''pipeline.create'' ''pipeline'' (uuid_String pid) (Some customerID)
       (Some (JObj [(''name'', JStr name), (''slug'', JStr slug), (''target_class'', JStr targetClass)])),
     user_entry actor ''pipeline_version.create'' ''pipeline_version'' (uuid_String vid) (Some customerID)
       (Some (JObj [(''pipeline'', JStr (uuid_String pid)), (''version'', JNum 1)]))]"

definition Create ::
    "PipelineSvc \<Rightarrow> (nat \<Rightarrow> bytes option) \<Rightarrow> time \<Rightarrow> uuid \<Rightarrow> uuid \<Rightarrow> uuid option \<Rightarrow> uuid \<Rightarrow> string \<Rightarrow> string \<Rightarrow> Graph \<Rightarrow>
     db \<Rightarrow> (pipe_error + Result \<times> (Pipeline \<times> PipelineVersion) option) \<times> db" where
  "Create sv rnd now vid pid actor customerID name0 targetClass0 g db =
    (let name = TrimSpace name0; slug = PipelineSlug name;
         targetClass = (if targetClass0 = '''' then ClassForwarding else targetClass0)
     in if name = '''' \<or> length name > 200 \<or> slug = '''' then (Inl PErrInvalidName, db)
        else (case pg_GetCustomer customerID db of
            Inl e \<Rightarrow> (Inl (PErrStore e), db)
          | Inr cust \<Rightarrow>
              if cust_Status cust = CustomerDeleted then (Inl (PErrStore ErrNotFound), db)
              else (case find (\<lambda>p. PipelineSlug (pl_Name p) = slug) (pg_ListPipelines (Some customerID) db) of
                  Some p \<Rightarrow> (Inl (if pl_Name p = name then PErrStore ErrNameExists else PErrSlugTaken), db)
                | None \<Rightarrow> (case prepare sv rnd vid (cust_ID cust) (cust_Slug cust) (cust_ClientID cust) name targetClass
                              None g None actor db of
                      Inl e \<Rightarrow> (Inl (PErr e), db)
                    | Inr (res, None) \<Rightarrow> (Inr (res, None), db)
                    | Inr (res, Some nv) \<Rightarrow>
                        (case pg_CreatePipeline now
                            \<lparr>np_ID = pid, np_CustomerID = customerID, np_Name = name, np_TargetClass = targetClass\<rparr>
                            (nv\<lparr>nv_PipelineID := pid\<rparr>)
                            (create_pipeline_entries actor customerID pid (nv_ID nv) name slug targetClass) db of
                           (Inl e, db') \<Rightarrow> (Inl (PErrStore e), db')
                         | (Inr created, db') \<Rightarrow> (Inr (res, Some created), db'))))))"

definition CreateVersion ::
    "PipelineSvc \<Rightarrow> (nat \<Rightarrow> bytes option) \<Rightarrow> time \<Rightarrow> uuid \<Rightarrow> uuid option \<Rightarrow> uuid \<Rightarrow> Graph \<Rightarrow>
     db \<Rightarrow> (pipe_error + Result \<times> PipelineVersion option) \<times> db" where
  "CreateVersion sv rnd now vid actor pipelineID g db =
    (case pg_GetPipeline pipelineID db of
       Inl e \<Rightarrow> (Inl (PErrStore e), db)
     | Inr pipe \<Rightarrow>
         (case (case pi_LatestVersion pipe of
             None \<Rightarrow> Inr None
           | Some n \<Rightarrow> (case pg_GetPipelineVersion pipelineID n db of
                 Inl e \<Rightarrow> Inl (PErrStore e)
               | Inr ver \<Rightarrow> (case ParseGraph (pv_Graph ver) of
                     Inl e \<Rightarrow> Inl (PErr e)
                   | Inr pg \<Rightarrow> Inr (Some pg)))) of
            Inl e \<Rightarrow> (Inl e, db)
          | Inr prev \<Rightarrow>
              (case prepare sv rnd vid (pl_CustomerID pipe) (pi_CustomerSlug pipe) (pi_ClientID pipe) (pl_Name pipe)
                      (pl_TargetClass pipe) (Some pipelineID) g prev actor db of
                 Inl e \<Rightarrow> (Inl (PErr e), db)
               | Inr (res, None) \<Rightarrow> (Inr (res, None), db)
               | Inr (res, Some nv) \<Rightarrow>
                   (case pg_CreatePipelineVersion now (nv\<lparr>nv_PipelineID := pipelineID\<rparr>)
                       [user_entry actor ''pipeline_version.create'' ''pipeline_version'' (uuid_String (nv_ID nv))
                          (Some (pl_CustomerID pipe)) (Some (JObj [(''pipeline'', JStr (uuid_String pipelineID))]))] db of
                      (Inl e, db') \<Rightarrow> (Inl (PErrStore e), db')
                    | (Inr ver, db') \<Rightarrow> (Inr (res, Some ver), db')))))"

section \<open>Activation and deletion\<close>

definition countEdgeAgents :: "uuid \<Rightarrow> db \<Rightarrow> nat \<times> nat" where
  "countEdgeAgents customerID db =
    (let as = pg_ListAgents \<lparr>af_Class = Some ClassEdge, af_CustomerID = Some customerID, af_Connected = None\<rparr> db
     in (length (filter ag_Connected as), length (filter (\<lambda>a. \<not> ag_Connected a) as)))"

definition notifyEdge :: "PipelineSvc \<Rightarrow> uuid \<Rightarrow> db \<Rightarrow> string + string \<times> string" where
  "notifyEdge sv customerID db =
    (case Option.bind (sv_Edge sv) (\<lambda>edge. edge customerID) of
       Some e \<Rightarrow> Inl e
     | None \<Rightarrow> (let (connected, offline) = countEdgeAgents customerID db
         in Inr (StateApplied, ''rollout queued: '' @ Itoa (int connected) @ '' connected agent(s) update now, '' @
              Itoa (int offline) @ '' offline update on reconnect'')))"

definition ResyncEdge :: "PipelineSvc \<Rightarrow> uuid \<Rightarrow> db \<Rightarrow> string + string \<times> string" where
  "ResyncEdge sv customerID db = notifyEdge sv customerID db"

definition distribute :: "PipelineSvc \<Rightarrow> svc_state \<Rightarrow> (string + string \<times> string) \<times> svc_state" where
  "distribute sv st = (case RenderCurrent (v_Marshal (sv_Validator sv)) (sv_Cipher sv) (ss_db st) of
      Inl e \<Rightarrow> (Inl e, st)
    | Inr full \<Rightarrow> (let (r, st') = Distribute full st in (Inr r, st')))"

definition Activate ::
    "PipelineSvc \<Rightarrow> time \<Rightarrow> uuid option \<Rightarrow> uuid \<Rightarrow> int \<Rightarrow> svc_state \<Rightarrow>
     (pipe_error + Pipeline \<times> string \<times> string) \<times> svc_state" where
  "Activate sv now actor pipelineID version st =
    (case pg_ActivatePipelineVersion now pipelineID version
        [user_entry actor ''pipeline_version.activate'' ''pipeline'' (uuid_String pipelineID) None
           (Some (JObj [(''version'', JNum version)]))] (ss_db st) of
       (Inl e, db') \<Rightarrow> (Inl (PErrStore e), st\<lparr>ss_db := db'\<rparr>)
     | (Inr (pipe, _), db') \<Rightarrow>
         (let st1 = st\<lparr>ss_db := db'\<rparr>;
              (r, st2) = (if pl_TargetClass pipe = ClassEdge then (notifyEdge sv (pl_CustomerID pipe) db', st1)
                          else distribute sv st1)
          in case r of
            Inl e \<Rightarrow> (Inl (PErr (''version '' @ Itoa version @ '' activated, but distributing the config failed: '' @ e)), st2)
          | Inr (state, detail) \<Rightarrow> (Inr (pipe, state, detail), st2)))"

definition Delete :: "PipelineSvc \<Rightarrow> time \<Rightarrow> uuid option \<Rightarrow> uuid \<Rightarrow> svc_state \<Rightarrow> (pipe_error + unit) \<times> svc_state" where
  "Delete sv now actor pipelineID st =
    (case pg_GetPipeline pipelineID (ss_db st) of
       Inl e \<Rightarrow> (Inl (PErrStore e), st)
     | Inr pipe \<Rightarrow>
         (case pg_DeletePipeline now pipelineID
             [user_entry actor ''pipeline.delete'' ''pipeline'' (uuid_String pipelineID) (Some (pl_CustomerID pipe))
                (Some (JObj [(''name'', JStr (pl_Name pipe))]))] (ss_db st) of
            (Inl e, db') \<Rightarrow> (Inl (PErrStore e), st\<lparr>ss_db := db'\<rparr>)
          | (Inr _, db') \<Rightarrow>
              (let st1 = st\<lparr>ss_db := db'\<rparr>
               in if pl_ActiveVersionID pipe \<noteq> None \<and> pl_TargetClass pipe \<noteq> ClassEdge
                  then (Inr (), snd (distribute sv st1))
                  else (Inr (), st1))))"

section \<open>The invariant of the service\<close>

text \<open>Every stored graph parses, decrypts under the service's key and passed the structural checks; a
  customer's pipelines have distinct slugs.\<close>

definition version_renders :: "Cipher \<Rightarrow> version_row \<Rightarrow> bool" where
  "version_renders cipher v = (case ParseGraph (pv_Graph v) of
      Inl _ \<Rightarrow> False
    | Inr g \<Rightarrow> (case DecryptGraphSecrets cipher g of Inl _ \<Rightarrow> False | Inr plain \<Rightarrow> graph_ok plain))"

definition svc_inv :: "Cipher \<Rightarrow> db \<Rightarrow> bool" where
  "svc_inv cipher db \<longleftrightarrow> db_wf db \<and> list_all (version_renders cipher) (pipeline_versions db) \<and>
     distinct (map (\<lambda>p. (pl_CustomerID p, PipelineSlug (pl_Name p))) (pipelines db)) \<and>
     list_all (\<lambda>c. slug_like (cust_Slug c)) (customers db)"

lemma prepare_renders:
  assumes "prepare sv rnd vid cid slug clid name cls ex g prev actor db = Inr (res, Some nv)"
  shows "nv_ID nv = vid" "nv_ValidationStatus nv = ValidationValid"
    "\<exists>stored plain. nv_Graph nv = MarshalGraph stored \<and> DecryptGraphSecrets (sv_Cipher sv) stored = Inr plain \<and> graph_ok plain"
proof -
  from assms obtain stored plain others where
    d: "DecryptGraphSecrets (sv_Cipher sv) stored = Inr plain"
    and v: "res_Valid (Validate (sv_Validator sv) cls \<lparr>rp_CustomerSlug = slug, rp_ClientID = clid,
       rp_PipelineSlug = PipelineSlug name, rp_Graph = plain\<rparr> others)"
    and nv: "nv_ID nv = vid" "nv_ValidationStatus nv = ValidationValid" "nv_Graph nv = MarshalGraph stored"
    by (auto simp: prepare_def Let_def split: sum.splits if_splits prod.splits)
  from nv show "nv_ID nv = vid" "nv_ValidationStatus nv = ValidationValid" by simp_all
  from Validate_valid [OF v] have "ValidateStructural (v_Check (sv_Validator sv)) plain = []" by simp
  with ValidateStructural_ok have "graph_ok plain" by blast
  with d nv show "\<exists>stored plain. nv_Graph nv = MarshalGraph stored \<and> DecryptGraphSecrets (sv_Cipher sv) stored = Inr plain \<and> graph_ok plain"
    by blast
qed

lemma new_version_renders:
  assumes "prepare sv rnd vid cid slug clid name cls ex g prev actor db = Inr (res, Some nv)"
  shows "version_renders (sv_Cipher sv) (new_version_row now (nv\<lparr>nv_PipelineID := pid\<rparr>) n)"
  using prepare_renders(3) [OF assms] by (auto simp: version_renders_def new_version_row_def Parse_Marshal)

lemma filter_key_le_1:
  assumes "distinct (map g xs)" "\<And>x. length (h x) \<le> 1"
  shows "length (concat (map (\<lambda>x. if g x = k then h x else []) xs)) \<le> 1"
  using assms(1)
proof (induction xs)
  case (Cons x xs)
  show ?case
  proof (cases "g x = k")
    case True
    then have "\<forall>y \<in> set xs. g y \<noteq> k" using Cons.prems by (auto simp: image_iff)
    then have e: "concat (map (\<lambda>x. if g x = k then h x else []) xs) = []" by (simp only: concat_eq_Nil_conv) auto
    show ?thesis unfolding list.map concat.simps e if_P [OF True] using assms(2) [of x] by simp
  next
    case False
    with Cons show ?thesis by simp
  qed
qed simp

lemma listed_pipelines:
  assumes "db_wf db" "pg_GetCustomer cid db = Inr c" "cust_Status c \<noteq> CustomerDeleted"
    "p \<in> set (pipelines db)" "pl_CustomerID p = cid"
  shows "\<exists>x \<in> set (pg_ListPipelines (Some cid) db). pl_Name x = pl_Name p"
proof -
  from assms(2) have c: "c \<in> set (customers db)" "cust_ID c = cid"
    by (auto simp: pg_GetCustomer_def split: option.splits dest: find_SomeD)
  then have "(p, c) \<in> set (joined_pipelines db)" using assms(4,5) by (auto simp: joined_pipelines_def)
  then have "pipeline_view db p c \<in> set (pg_ListPipelines (Some cid) db)"
    using assms(3,5) by (force simp: pg_ListPipelines_def)
  then show ?thesis by (intro bexI) (auto simp: pipeline_view_def pipeline_row.defs)
qed

lemma CreatePipeline_error: "pg_CreatePipeline now p v es db = (Inl e, db') \<Longrightarrow> db' = db"
  by (simp add: pg_CreatePipeline_def inTx_error)

lemma CreatePipelineVersion_error: "pg_CreatePipelineVersion now v es db = (Inl e, db') \<Longrightarrow> db' = db"
  by (simp add: pg_CreatePipelineVersion_def inTx_error)

text \<open>Either nothing changes, or the name was free, the graph was prepared and the pipeline is stored.\<close>

lemma Create_result:
  fixes sv and rnd now vid pid actor cid name0 cls0 g db
  defines "r \<equiv> Create sv rnd now vid pid actor cid name0 cls0 g db"
    and "name \<equiv> TrimSpace name0" and "cls \<equiv> (if cls0 = '''' then ClassForwarding else cls0)"
  shows "snd r = db \<or> (\<exists>c res nv es x. pg_GetCustomer cid db = Inr c \<and> cust_Status c \<noteq> CustomerDeleted \<and>
    find (\<lambda>p. PipelineSlug (pl_Name p) = PipelineSlug name) (pg_ListPipelines (Some cid) db) = None \<and>
    prepare sv rnd vid (cust_ID c) (cust_Slug c) (cust_ClientID c) name cls None g None actor db = Inr (res, Some nv) \<and>
    pg_CreatePipeline now \<lparr>np_ID = pid, np_CustomerID = cid, np_Name = name, np_TargetClass = cls\<rparr>
      (nv\<lparr>nv_PipelineID := pid\<rparr>) es db = (Inr x, snd r))"
proof (cases "name = '''' \<or> length name > 200 \<or> PipelineSlug name = ''''")
  case True
  then show ?thesis by (simp add: r_def name_def Create_def Let_def)
next
  case False
  show ?thesis
  proof (cases "pg_GetCustomer cid db")
    case (Inl e)
    then show ?thesis using False by (simp add: r_def name_def Create_def Let_def)
  next
    case c: (Inr c)
    show ?thesis
    proof (cases "cust_Status c = CustomerDeleted \<or>
        find (\<lambda>p. PipelineSlug (pl_Name p) = PipelineSlug name) (pg_ListPipelines (Some cid) db) \<noteq> None")
      case True
      then show ?thesis using False c by (auto simp: r_def name_def Create_def Let_def)
    next
      case fresh: False
      let ?pr = "prepare sv rnd vid (cust_ID c) (cust_Slug c) (cust_ClientID c) name cls None g None actor db"
      have r: "r = (case ?pr of
          Inl e \<Rightarrow> (Inl (PErr e), db)
        | Inr (res, None) \<Rightarrow> (Inr (res, None), db)
        | Inr (res, Some nv) \<Rightarrow>
            (case pg_CreatePipeline now \<lparr>np_ID = pid, np_CustomerID = cid, np_Name = name, np_TargetClass = cls\<rparr>
                (nv\<lparr>nv_PipelineID := pid\<rparr>) (create_pipeline_entries actor cid pid (nv_ID nv) name (PipelineSlug name) cls) db of
               (Inl e, db') \<Rightarrow> (Inl (PErrStore e), db')
             | (Inr created, db') \<Rightarrow> (Inr (res, Some created), db')))"
        unfolding r_def Create_def Let_def name_def [symmetric] cls_def [symmetric] using False c fresh by simp
      show ?thesis
        using c fresh unfolding r
        by (auto split: sum.splits option.splits prod.splits dest: CreatePipeline_error)
    qed
  qed
qed

lemma Create_inv:
  assumes "svc_inv (sv_Cipher sv) db"
  shows "svc_inv (sv_Cipher sv) (snd (Create sv rnd now vid pid actor cid name0 cls0 g db))"
    (is "svc_inv _ ?db'")
proof (cases "?db' = db")
  case True
  with assms show ?thesis by simp
next
  case False
  let ?name = "TrimSpace name0" and ?cls = "if cls0 = '''' then ClassForwarding else cls0"
  let ?np = "\<lparr>np_ID = pid, np_CustomerID = cid, np_Name = ?name, np_TargetClass = ?cls\<rparr>"
  from False Create_result [of sv rnd now vid pid actor cid name0 cls0 g db]
  obtain c res nv es r where c: "pg_GetCustomer cid db = Inr c" "cust_Status c \<noteq> CustomerDeleted"
    and f: "find (\<lambda>p. PipelineSlug (pl_Name p) = PipelineSlug ?name) (pg_ListPipelines (Some cid) db) = None"
    and pr: "prepare sv rnd vid (cust_ID c) (cust_Slug c) (cust_ClientID c) ?name ?cls None g None actor db = Inr (res, Some nv)"
    and cp: "pg_CreatePipeline now ?np (nv\<lparr>nv_PipelineID := pid\<rparr>) es db = (Inr r, ?db')"
    by blast
  have w: "db_wf db" using assms by (simp add: svc_inv_def)
  have w': "db_wf ?db'" using pg_CreatePipeline_wf [OF w, of now ?np "nv\<lparr>nv_PipelineID := pid\<rparr>" es] unfolding cp by simp
  from cp obtain db1 where
    i: "insertPipelineVersion now (nv\<lparr>nv_PipelineID := pid\<rparr>) 1 (db\<lparr>pipelines := pipelines db @ [new_pipeline_row now ?np]\<rparr>) = Inr db1"
    and a: "audit_Write now es db1 = Inr ?db'" by (rule CreatePipeline_body)
  have rows: "pipelines ?db' = pipelines db @ [new_pipeline_row now ?np]" "customers ?db' = customers db"
    "pipeline_versions ?db' = pipeline_versions db @ [new_version_row now (nv\<lparr>nv_PipelineID := pid\<rparr>) 1]"
    using i unfolding audit_Write_fields [OF a] by (simp_all add: insertPipelineVersion_Inr)
  have ne: "PipelineSlug (pl_Name p) \<noteq> PipelineSlug ?name" if "p \<in> set (pipelines db)" "pl_CustomerID p = cid" for p
    using listed_pipelines [OF w c that] f by (auto simp: find_None_set)
  have "(cid, PipelineSlug ?name) \<notin> set (map (\<lambda>p. (pl_CustomerID p, PipelineSlug (pl_Name p))) (pipelines db))"
    by (clarsimp, drule ne) simp_all
  moreover have "pl_CustomerID (new_pipeline_row now ?np) = cid" "pl_Name (new_pipeline_row now ?np) = ?name"
    by (simp_all add: new_pipeline_row_def)
  ultimately show ?thesis
    using assms w' new_version_renders [OF pr] unfolding svc_inv_def rows by simp
qed

lemma CreateVersion_result:
  "snd (CreateVersion sv rnd now vid actor pid g db) = db \<or>
   (\<exists>c1 c2 c3 n cl prev res nv es r. prepare sv rnd vid c1 c2 c3 n cl (Some pid) g prev actor db = Inr (res, Some nv) \<and>
     pg_CreatePipelineVersion now (nv\<lparr>nv_PipelineID := pid\<rparr>) es db = (Inr r, snd (CreateVersion sv rnd now vid actor pid g db)))"
proof (cases "pg_GetPipeline pid db")
  case (Inl e)
  then show ?thesis by (simp add: CreateVersion_def)
next
  case p: (Inr pipe)
  let ?prev = "case pi_LatestVersion pipe of
             None \<Rightarrow> Inr None
           | Some n \<Rightarrow> (case pg_GetPipelineVersion pid n db of
                 Inl e \<Rightarrow> Inl (PErrStore e)
               | Inr ver \<Rightarrow> (case ParseGraph (pv_Graph ver) of
                     Inl e \<Rightarrow> Inl (PErr e)
                   | Inr pg \<Rightarrow> Inr (Some pg)))"
  show ?thesis
  proof (cases ?prev)
    case (Inl e)
    then show ?thesis using p by (simp add: CreateVersion_def)
  next
    case (Inr prev)
    then show ?thesis using p
      unfolding CreateVersion_def p sum.case Inr
      by (auto split: sum.splits option.splits prod.splits dest: CreatePipelineVersion_error)
  qed
qed

lemma CreateVersion_inv:
  assumes "svc_inv (sv_Cipher sv) db"
  shows "svc_inv (sv_Cipher sv) (snd (CreateVersion sv rnd now vid actor pid g db))" (is "svc_inv _ ?db'")
proof (cases "?db' = db")
  case True
  with assms show ?thesis by simp
next
  case False
  with CreateVersion_result [of sv rnd now vid actor pid g db] obtain c1 c2 c3 n cl prev res nv es r where
    pr: "prepare sv rnd vid c1 c2 c3 n cl (Some pid) g prev actor db = Inr (res, Some nv)"
    and cp: "pg_CreatePipelineVersion now (nv\<lparr>nv_PipelineID := pid\<rparr>) es db = (Inr r, ?db')"
    by blast
  have w: "db_wf db" using assms by (simp add: svc_inv_def)
  have w': "db_wf ?db'" using pg_CreatePipelineVersion_wf [OF w, of now "nv\<lparr>nv_PipelineID := pid\<rparr>" es] unfolding cp by simp
  from cp obtain db1 k where
    i: "insertPipelineVersion now (nv\<lparr>nv_PipelineID := pid\<rparr>) k db = Inr db1"
    and a: "audit_Write now es db1 = Inr ?db'" by (rule CreatePipelineVersion_body)
  have rows: "pipelines ?db' = pipelines db" "customers ?db' = customers db"
    "pipeline_versions ?db' = pipeline_versions db @ [new_version_row now (nv\<lparr>nv_PipelineID := pid\<rparr>) k]"
    using i unfolding audit_Write_fields [OF a] by (simp_all add: insertPipelineVersion_Inr)
  show ?thesis using assms w' new_version_renders [OF pr] unfolding svc_inv_def rows by simp
qed

text \<open>What the invariant says of the three tables, next to the schema constraints.\<close>

definition render_shape :: "db \<Rightarrow> string list \<times> (uuid \<times> string) list \<times> json list" where
  "render_shape db = (map cust_Slug (customers db), map (\<lambda>p. (pl_CustomerID p, pl_Name p)) (pipelines db),
     map pv_Graph (pipeline_versions db))"

lemma svc_inv_shape: "svc_inv cipher db \<Longrightarrow> db_wf db' \<Longrightarrow> render_shape db' = render_shape db \<Longrightarrow> svc_inv cipher db'"
proof -
  have g: "list_all (version_renders cipher) vs = list_all (\<lambda>j. case ParseGraph j of Inl _ \<Rightarrow> False
      | Inr g \<Rightarrow> (case DecryptGraphSecrets cipher g of Inl _ \<Rightarrow> False | Inr plain \<Rightarrow> graph_ok plain)) (map pv_Graph vs)" for vs
    by (simp add: list_all_iff version_renders_def)
  have p: "map (\<lambda>p. (pl_CustomerID p, PipelineSlug (pl_Name p))) ps =
      map (map_prod id PipelineSlug) (map (\<lambda>p. (pl_CustomerID p, pl_Name p)) ps)" for ps by simp
  have c: "list_all (\<lambda>c. slug_like (cust_Slug c)) cs = list_all slug_like (map cust_Slug cs)" for cs
    by (simp add: list_all_iff)
  show "svc_inv cipher db \<Longrightarrow> db_wf db' \<Longrightarrow> render_shape db' = render_shape db \<Longrightarrow> svc_inv cipher db'"
    unfolding svc_inv_def g p c render_shape_def by simp
qed

lemma shape_inTx:
  "(\<And>x db'. fn db = Inr (x, db') \<Longrightarrow> render_shape db' = render_shape db) \<Longrightarrow> render_shape (snd (inTx fn db)) = render_shape db"
  by (rule inTx_keeps [where P = "\<lambda>d. render_shape d = render_shape db"]) simp_all

lemma shape_audit: "audit_Write now es db = Inr db' \<Longrightarrow> render_shape db' = render_shape db"
  by (simp add: render_shape_def audit_Write_fields)

lemma shape_commit: "commit now es f db = Inr (x, db') \<Longrightarrow> render_shape db' = render_shape db"
  unfolding commit_Inr using shape_audit by blast

lemma ActivateVersion_shape: "render_shape (snd (pg_ActivatePipelineVersion now pid n es db)) = render_shape db"
  unfolding pg_ActivatePipelineVersion_def
  by (rule shape_inTx) (auto split: sum.splits if_splits dest!: shape_commit simp: render_shape_def)

lemma Distribute_db: "ss_db (snd (distribute sv st)) = ss_db st"
  by (simp add: distribute_def Distribute_def split: sum.splits)

lemma Activate_db: "\<exists>es. ss_db (snd (Activate sv now actor pid n st)) = snd (pg_ActivatePipelineVersion now pid n es (ss_db st))"
  unfolding Activate_def
  by (intro exI [of _ "[user_entry actor ''pipeline_version.activate'' ''pipeline'' (uuid_String pid) None
           (Some (JObj [(''version'', JNum n)]))]"])
     (auto simp: Let_def Distribute_db split: sum.splits prod.splits if_splits dest!: arg_cong [of "distribute _ _" _ snd])

lemma Activate_inv:
  assumes "svc_inv c (ss_db st)"
  shows "svc_inv c (ss_db (snd (Activate sv now actor pid n st)))"
proof -
  have w: "db_wf (ss_db st)" using assms by (simp add: svc_inv_def)
  obtain es where e: "ss_db (snd (Activate sv now actor pid n st)) = snd (pg_ActivatePipelineVersion now pid n es (ss_db st))"
    using Activate_db by blast
  show ?thesis unfolding e
    by (rule svc_inv_shape [OF assms pg_ActivatePipelineVersion_wf [OF w] ActivateVersion_shape])
qed

lemma Delete_db: "ss_db (snd (Delete sv now actor pid st)) = ss_db st \<or>
    (\<exists>es. ss_db (snd (Delete sv now actor pid st)) = snd (pg_DeletePipeline now pid es (ss_db st)))"
  unfolding Delete_def
  by (auto simp: Let_def Distribute_db split: sum.splits prod.splits) (metis snd_conv)+

lemma DeletePipeline_error: "pg_DeletePipeline now pid es db = (Inl e, db') \<Longrightarrow> db' = db"
  by (simp add: pg_DeletePipeline_def inTx_error)

lemma DeletePipeline_svc_inv:
  assumes "svc_inv c db"
  shows "svc_inv c (snd (pg_DeletePipeline now pid es db))"
proof -
  have w: "db_wf (snd (pg_DeletePipeline now pid es db))" using assms by (auto simp: svc_inv_def intro: pg_DeletePipeline_wf)
  have "snd (pg_DeletePipeline now pid es db) = db \<or>
    (\<exists>r. pg_DeletePipeline now pid es db = (Inr r, snd (pg_DeletePipeline now pid es db)))"
    using DeletePipeline_error [of now pid es db] by (metis prod.collapse sum.exhaust)
  then show ?thesis
  proof
    assume "\<exists>r. pg_DeletePipeline now pid es db = (Inr r, snd (pg_DeletePipeline now pid es db))"
    then obtain r where r: "pg_DeletePipeline now pid es db = (Inr r, snd (pg_DeletePipeline now pid es db))" by blast
    let ?db = "db\<lparr>pipelines := filter (\<lambda>p. pl_ID p \<noteq> pid) (pipelines db),
                  pipeline_versions := filter (\<lambda>v. pv_PipelineID v \<noteq> pid) (pipeline_versions db)\<rparr>"
    have "\<exists>x. commit now es (\<lambda>_. ()) ?db = Inr (x, snd (pg_DeletePipeline now pid es db))"
      using r unfolding pg_DeletePipeline_def inTx_Inr Let_def by (auto split: if_splits sum.splits)
    then have a: "audit_Write now es ?db = Inr (snd (pg_DeletePipeline now pid es db))" by (auto simp: commit_Inr)
    show ?thesis
      using assms w unfolding svc_inv_def audit_Write_fields [OF a]
      by (auto simp: list_all_iff distinct_map_filter)
  qed (use assms in simp)
qed

lemma Delete_inv:
  "svc_inv c (ss_db st) \<Longrightarrow> svc_inv c (ss_db (snd (Delete sv now actor pid st)))"
  using Delete_db [of sv now actor pid st] DeletePipeline_svc_inv by metis

section \<open>What a consistent database renders\<close>

definition active_rows :: "string \<Rightarrow> uuid option \<Rightarrow> db \<Rightarrow> (pipeline_row \<times> Customer \<times> version_row) list" where
  "active_rows targetClass customerID db =
     [(p, c, v). (p, c) \<leftarrow> joined_pipelines db, cust_Status c = CustomerActive,
           v \<leftarrow> pipeline_versions db, pl_ActiveVersionID p = Some (pv_ID v),
           pl_TargetClass p = targetClass \<and>
           (case customerID of None \<Rightarrow> True | Some i \<Rightarrow> pl_CustomerID p = i)]"

definition active_entry :: "pipeline_row \<times> Customer \<times> version_row \<Rightarrow> ActivePipeline" where
  "active_entry = (\<lambda>(p, c, v). \<lparr>act_PipelineID = pl_ID p, act_PipelineName = pl_Name p, act_CustomerID = pl_CustomerID p,
           act_CustomerSlug = cust_Slug c, act_ClientID = cust_ClientID c, act_Graph = pv_Graph v\<rparr>)"

lemma active_rows_list:
  "pg_ListActivePipelines cls cid db = map active_entry (sort_key (\<lambda>(p, c, v). (cust_Slug c, pl_Name p, pl_ID p)) (active_rows cls cid db))"
  by (simp add: pg_ListActivePipelines_def active_rows_def active_entry_def)

lemma in_active_rows:
  "(p, c, v) \<in> set (active_rows cls cid db) \<longleftrightarrow> p \<in> set (pipelines db) \<and> c \<in> set (customers db) \<and>
   v \<in> set (pipeline_versions db) \<and> cust_ID c = pl_CustomerID p \<and> cust_Status c = CustomerActive \<and>
   pl_ActiveVersionID p = Some (pv_ID v) \<and> pl_TargetClass p = cls \<and>
   (case cid of None \<Rightarrow> True | Some i \<Rightarrow> pl_CustomerID p = i)"
  by (auto simp: active_rows_def joined_pipelines_def)

lemma db_wf_distinct:
  assumes "db_wf db"
  shows "distinct (pipelines db)" "distinct (customers db)" "distinct (pipeline_versions db)"
  using db_wfD(1,6,7) [OF assms] by (simp_all add: customers_wf_def pipelines_wf_def versions_wf_def distinct_map)

lemma distinct_concat_inj:
  "distinct xs \<Longrightarrow> (\<And>x. distinct (f x)) \<Longrightarrow> (\<And>x y z. z \<in> set (f x) \<Longrightarrow> z \<in> set (f y) \<Longrightarrow> x = y) \<Longrightarrow> distinct (concat (map f xs))"
  by (rule distinct_concat_map [where k = id]) auto

lemma distinct_joined: "db_wf db \<Longrightarrow> distinct (joined_pipelines db)"
  unfolding joined_pipelines_def using db_wf_distinct [of db]
  by (intro distinct_concat_inj) (auto split: if_splits)

lemma distinct_active_rows: "db_wf db \<Longrightarrow> distinct (active_rows cls cid db)"
  unfolding active_rows_def using distinct_joined [of db] db_wf_distinct [of db]
  by (intro distinct_concat_inj) (auto split: if_splits intro!: distinct_concat_inj)

definition rendered_row :: "Cipher \<Rightarrow> pipeline_row \<times> Customer \<times> version_row \<Rightarrow> RenderPipeline" where
  "rendered_row cipher x = projr (toRender cipher (active_entry x))"

lemma toRender_list_ok:
  "list_all (\<lambda>ap. \<exists>rp. toRender cipher ap = Inr rp) aps \<Longrightarrow> toRender_list cipher None aps = Inr (map (projr \<circ> toRender cipher) aps)"
  by (induction aps) auto

lemma row_renders:
  assumes "svc_inv cipher db" "(p, c, v) \<in> set (active_rows cls cid db)"
  shows "toRender cipher (active_entry (p, c, v)) = Inr (rendered_row cipher (p, c, v))"
    "rp_CustomerSlug (rendered_row cipher (p, c, v)) = cust_Slug c"
    "rp_ClientID (rendered_row cipher (p, c, v)) = cust_ClientID c"
    "rp_PipelineSlug (rendered_row cipher (p, c, v)) = PipelineSlug (pl_Name p)"
    "rp_ok (rendered_row cipher (p, c, v))"
proof -
  from assms have "version_renders cipher v" "slug_like (cust_Slug c)"
    by (auto simp: svc_inv_def list_all_iff in_active_rows)
  then obtain g plain where g: "ParseGraph (pv_Graph v) = Inr g" "DecryptGraphSecrets cipher g = Inr plain" "graph_ok plain"
    by (auto simp: version_renders_def split: sum.splits)
  then have e: "toRender cipher (active_entry (p, c, v)) = Inr \<lparr>rp_CustomerSlug = cust_Slug c, rp_ClientID = cust_ClientID c,
            rp_PipelineSlug = PipelineSlug (pl_Name p), rp_Graph = plain\<rparr>"
    by (simp add: toRender_def active_entry_def)
  show "toRender cipher (active_entry (p, c, v)) = Inr (rendered_row cipher (p, c, v))"
    "rp_CustomerSlug (rendered_row cipher (p, c, v)) = cust_Slug c"
    "rp_ClientID (rendered_row cipher (p, c, v)) = cust_ClientID c"
    "rp_PipelineSlug (rendered_row cipher (p, c, v)) = PipelineSlug (pl_Name p)"
    by (simp_all add: rendered_row_def e)
  show "rp_ok (rendered_row cipher (p, c, v))"
    using g \<open>slug_like (cust_Slug c)\<close> by (simp add: rendered_row_def e rp_ok_def PipelineSlug_like)
qed

lemma row_keys_inj:
  assumes "svc_inv cipher db"
  shows "inj_on (\<lambda>x. rp_key (rendered_row cipher x)) (set (active_rows cls cid db))"
proof (rule inj_onI)
  fix x y
  assume x: "x \<in> set (active_rows cls cid db)" and y: "y \<in> set (active_rows cls cid db)"
    and k: "rp_key (rendered_row cipher x) = rp_key (rendered_row cipher y)"
  obtain p c v p' c' v' where s: "x = (p, c, v)" "y = (p', c', v')" by (metis prod_cases3)
  have w: "customers_wf (customers db)" "versions_wf (user_ids db) (pipeline_ids db) (pipeline_versions db)"
    and d: "distinct (map (\<lambda>p. (pl_CustomerID p, PipelineSlug (pl_Name p))) (pipelines db))"
    and l: "slug_like (cust_Slug c)" "slug_like (cust_Slug c')"
    using assms x y db_wfD(1,7) [of db] by (auto simp: svc_inv_def s in_active_rows list_all_iff)
  have "cust_Slug c = cust_Slug c' \<and> PipelineSlug (pl_Name p) = PipelineSlug (pl_Name p')"
    using k row_renders(2,4) [OF assms] x y pipelineKey_inj [OF l] by (simp add: s rp_key_def)
  moreover from this w(1) x y have "c = c'"
    by (auto simp: s in_active_rows customers_wf_def distinct_map dest: inj_onD)
  ultimately have "p = p'"
    using d x y by (auto simp: s in_active_rows distinct_map dest: inj_onD)
  moreover from this w(2) x y have "v = v'"
    by (auto simp: s in_active_rows versions_wf_def distinct_map dest: inj_onD)
  ultimately show "x = y" using \<open>c = c'\<close> by (simp add: s)
qed

lemma active_rendered:
  fixes cls cid
  assumes "svc_inv cipher db"
  defines "rows \<equiv> sort_key (\<lambda>(p, c, v). (cust_Slug c, pl_Name p, pl_ID p)) (active_rows cls cid db)"
  shows "activeRenderPipelines cipher cls cid None db = Inr (map (rendered_row cipher) rows)"
    "distinct (map rp_key (map (rendered_row cipher) rows))" "list_all rp_ok (map (rendered_row cipher) rows)"
proof -
  have in_rows: "set rows = set (active_rows cls cid db)" by (simp add: rows_def)
  have "list_all (\<lambda>ap. \<exists>rp. toRender cipher ap = Inr rp) (map active_entry rows)"
    using row_renders(1) [OF assms(1)] by (fastforce simp: list_all_iff in_rows)
  from toRender_list_ok [OF this]
  show "activeRenderPipelines cipher cls cid None db = Inr (map (rendered_row cipher) rows)"
    by (simp add: activeRenderPipelines_def active_rows_list rows_def rendered_row_def comp_def)
  have "distinct rows" using assms distinct_active_rows by (simp add: rows_def svc_inv_def)
  then show "distinct (map rp_key (map (rendered_row cipher) rows))"
    using row_keys_inj [OF assms(1)] by (simp add: distinct_map in_rows comp_def)
  show "list_all rp_ok (map (rendered_row cipher) rows)"
    using row_renders(5) [OF assms(1)] by (fastforce simp: list_all_iff in_rows)
qed

lemma dup_key_distinct: "distinct (map rp_key ps) \<Longrightarrow> set seen \<inter> set (map rp_key ps) = {} \<Longrightarrow> dup_key seen ps = None"
  by (induction ps arbitrary: seen) auto

lemma sort_pipelines_simps:
  "set (sort_pipelines ps) = set ps" "distinct (map f (sort_pipelines ps)) = distinct (map f ps)"
  "list_all P (sort_pipelines ps) = list_all P ps"
  by (simp_all add: sort_pipelines_def list_all_iff distinct_map distinct_sort)

text \<open>The forwarding config is always rendered, and what it delivers for a tenant is what the tenant's own
  active pipelines say.\<close>

lemma RenderCurrent_delivers:
  assumes "svc_inv cipher db"
  obtains root where "\<And>marshal. RenderCurrent marshal cipher db = marshal root"
    "\<And>sig t. sig \<in> set Signals \<Longrightarrow> set (delivers root sig t) =
      (\<lambda>x. (nodeEntries (rendered_row cipher x) (g_Processors (rp_Graph (rendered_row cipher x))),
            nodeEntries (rendered_row cipher x) (g_Exporters (rp_Graph (rendered_row cipher x))))) `
      {(p, c, v) \<in> set (active_rows ClassForwarding None db).
         cust_ClientID c = t \<and> hasSignal (rp_Graph (rendered_row cipher (p, c, v))) sig}"
proof -
  let ?ps = "map (rendered_row cipher) (sort_key (\<lambda>(p, c, v). (cust_Slug c, pl_Name p, pl_ID p)) (active_rows ClassForwarding None db))"
  note r = active_rendered [OF assms, of ClassForwarding None]
  have d: "distinct (map rp_key (sort_pipelines ?ps))" "list_all rp_ok (sort_pipelines ?ps)"
    using r(2,3) by (simp_all only: sort_pipelines_simps)
  have root: "RenderCurrent marshal cipher db = marshal (forwarding_root (sort_pipelines ?ps))" for marshal :: "ynode \<Rightarrow> string + 'b"
    by (simp add: RenderCurrent_def r(1) RenderForwardingConfig_def dup_key_distinct [OF d(1)])
  have "set (delivers (forwarding_root (sort_pipelines ?ps)) sig t) =
      (\<lambda>x. (nodeEntries (rendered_row cipher x) (g_Processors (rp_Graph (rendered_row cipher x))),
            nodeEntries (rendered_row cipher x) (g_Exporters (rp_Graph (rendered_row cipher x))))) `
      {(p, c, v) \<in> set (active_rows ClassForwarding None db).
         cust_ClientID c = t \<and> hasSignal (rp_Graph (rendered_row cipher (p, c, v))) sig}" if "sig \<in> set Signals" for sig t
    unfolding delivers_root [OF d that] set_map set_filter sort_pipelines_simps set_sort
    using row_renders(3) [OF assms] by (force simp: image_iff)
  with root that show ?thesis by blast
qed

end
