(* ===== verification/System.thy ===== *)
theory System
  imports PipelineService StoreSettings
begin

text \<open>
  The control plane as a whole: one step is one operation of a service or of the store, on the database
  they share. The schema constraints and the invariant of the pipeline service hold in every database that
  such steps reach from the empty one, whatever the order of the operations.
\<close>

section \<open>Operations that do not touch pipelines\<close>

named_theorems shape_simps

lemma shape_fields [shape_simps]:
  "render_shape (db\<lparr>users := a1\<rparr>) = render_shape db" "render_shape (db\<lparr>user_identities := a2\<rparr>) = render_shape db"
  "render_shape (db\<lparr>user_customer_grants := a3\<rparr>) = render_shape db" "render_shape (db\<lparr>api_keys := a4\<rparr>) = render_shape db"
  "render_shape (db\<lparr>sessions := a5\<rparr>) = render_shape db" "render_shape (db\<lparr>bootstrap_tokens := a6\<rparr>) = render_shape db"
  "render_shape (db\<lparr>agents := a7\<rparr>) = render_shape db" "render_shape (db\<lparr>agent_events := a8\<rparr>) = render_shape db"
  "render_shape (db\<lparr>event_seq := a9\<rparr>) = render_shape db" "render_shape (db\<lparr>webhooks := a10\<rparr>) = render_shape db"
  "render_shape (db\<lparr>api_tokens := a11\<rparr>) = render_shape db" "render_shape (db\<lparr>billing_settings := a12\<rparr>) = render_shape db"
  "render_shape (db\<lparr>auth_providers := a13\<rparr>) = render_shape db"
  by (simp_all add: render_shape_def)

lemma shape_users [shape_simps]:
  "render_shape (upd_user i f db) = render_shape db" "render_shape (deleteSessionsByUser i db) = render_shape db"
  "render_shape (delete_user_row i db) = render_shape db" "render_shape (detach_created_by i db) = render_shape db"
  by (simp_all add: render_shape_def upd_user_def deleteSessionsByUser_def delete_user_row_def detach_created_by_def
      upd_where_def)

lemma shape_apply_disabled [shape_simps]: "render_shape (apply_disabled now i d db) = render_shape db"
  by (simp add: apply_disabled_def shape_simps split: option.splits bool.splits)

lemma shape_insert_user: "insert_user e u db = Inr db' \<Longrightarrow> render_shape db' = render_shape db"
  by (auto simp: insert_user_Inr shape_simps)

lemma shape_insert_identity: "insert_identity p s u db = Inr (x, db') \<Longrightarrow> render_shape db' = render_shape db"
  by (auto simp: insert_identity_def shape_simps split: if_splits)

lemma shape_insert_grants: "insert_grants i cs db = Inr db' \<Longrightarrow> render_shape db' = render_shape db"
  by (induction cs arbitrary: db) (auto simp: shape_simps split: if_splits)

lemma shape_resolve_user: "resolve_user now i p s e d r db = Inr (x, db') \<Longrightarrow> render_shape db' = render_shape db"
  by (auto simp: resolve_user_def Let_def split: option.splits sum.splits dest!: shape_insert_user shape_insert_identity)

lemma user_step_shape: "user_step db db' \<Longrightarrow> render_shape db' = render_shape db"
proof (induction rule: user_step.induct)
  case (login db now i p s email dn role)
  show ?case unfolding pg_UpsertUserByIdentity_def
    by (rule shape_inTx) (auto simp: Let_def shape_simps split: sum.splits dest!: shape_resolve_user)
next
  case (scim_create db now i email role dn ext es)
  show ?case unfolding pg_CreateSCIMUser_def Let_def
    by (rule shape_inTx) (auto split: sum.splits dest!: shape_insert_user shape_commit)
next
  case (scim_update db now i dn ext es)
  show ?case unfolding pg_UpdateSCIMUser_def Let_def
    by (rule shape_inTx) (auto simp: shape_simps split: option.splits if_splits dest!: shape_commit)
next
  case (invite db now i email role es)
  show ?case unfolding pg_CreateInvitedUser_def Let_def
    by (rule shape_inTx) (auto split: sum.splits dest!: shape_insert_user shape_commit)
next
  case (grants db now i cids es)
  show ?case unfolding pg_SetUserCustomerGrants_def
    by (rule shape_inTx) (auto simp: shape_simps split: sum.splits if_splits dest!: shape_insert_grants shape_commit)
next
  case (update_admin db now i upd es)
  show ?case unfolding pg_UpdateUserAdmin_def Let_def
    by (rule shape_inTx) (auto simp: shape_simps split: sum.splits option.splits if_splits dest!: shape_commit)
next
  case (delete_user db now i es)
  show ?case unfolding pg_DeleteUser_def Let_def
    by (rule shape_inTx) (auto simp: shape_simps split: sum.splits if_splits dest!: shape_commit)
qed

lemma settings_step_shape: "settings_step db db' \<Longrightarrow> render_shape db' = render_shape db"
  by (induction rule: settings_step.induct)
    (simp_all only: pg_CreateAPIToken_def pg_RevokeAPIToken_def pg_CreateWebhook_def pg_UpdateWebhook_def
       pg_DeleteWebhook_def pg_WriteAuditEntries_def pg_UpdateBillingSettings_def pg_CreateAuthProvider_def
       pg_UpdateAuthProvider_def pg_DeleteAuthProvider_def,
     (rule shape_inTx, auto simp: shape_simps Let_def split: sum.splits option.splits if_splits dest!: shape_commit)+)

lemma shape_upd_agent: "upd_agent i f db = Inr db' \<Longrightarrow> render_shape db' = render_shape db"
  by (auto simp: upd_agent_Inr shape_simps)

lemma shape_exec_agent [shape_simps]: "render_shape (snd (exec_agent i f db)) = render_shape db"
  by (auto simp: exec_agent_def shape_upd_agent split: sum.splits)

lemma shape_event: "insertAgentEvent now i t d db = Inr db' \<Longrightarrow> render_shape db' = render_shape db"
  by (auto simp: insertAgentEvent_Inr render_shape_def)

lemma shape_maybe_event: "maybe_event now i t d db = Inr (x, db') \<Longrightarrow> render_shape db' = render_shape db"
  by (auto simp: maybe_event_def split: option.splits sum.splits dest!: shape_event)

lemma shape_touch [shape_simps]: "render_shape (pg_TouchAgents seen db) = render_shape db"
  unfolding pg_TouchAgents_def by (induction seen arbitrary: db) (auto simp: touch_agent_def shape_simps)

lemma EnrollAgent_shape: "render_shape (snd (pg_EnrollAgent now a db)) = render_shape db"
  unfolding pg_EnrollAgent_def
  by (rule shape_inTx)
    (auto simp: insert_agent_Inr shape_simps split: sum.splits dest!: shape_event increment_Inr)

lemma DeleteAgent_shape: "render_shape (snd (pg_DeleteAgent now i es db)) = render_shape db"
  unfolding pg_DeleteAgent_def
  by (rule shape_inTx) (auto simp: render_shape_def split: if_splits dest!: shape_commit)

lemma bootstrap_shape:
  "render_shape (snd (pg_CreateBootstrapToken now t es db)) = render_shape db"
  "render_shape (snd (pg_RevokeBootstrapToken now c i es db)) = render_shape db"
  unfolding pg_CreateBootstrapToken_def pg_RevokeBootstrapToken_def
  by (auto simp: shape_simps split: sum.splits if_splits intro!: shape_inTx dest!: shape_commit)

lemma agent_tx_shape:
  "render_shape (snd (pg_UpdateAgentMeta now i dn labels es db)) = render_shape db"
  "render_shape (snd (pg_SetAgentConnected now i c at db)) = render_shape db"
  "render_shape (snd (pg_SetAgentRemoteConfigStatus now i status msg et d db)) = render_shape db"
  "render_shape (snd (pg_SetAgentHealth now i h b et db)) = render_shape db"
  unfolding pg_UpdateAgentMeta_def pg_SetAgentConnected_def pg_SetAgentRemoteConfigStatus_def pg_SetAgentHealth_def
  by (rule shape_inTx, auto split: sum.splits if_splits
        dest!: shape_upd_agent shape_commit shape_event shape_maybe_event)+

lemma fleet_step_shape: "fleet_step db db' \<Longrightarrow> render_shape db' = render_shape db"
  by (erule fleet_stepE)
    (simp_all add: bootstrap_shape EnrollAgent_shape DeleteAgent_shape agent_tx_shape pg_SetAgentToken_def
       pg_UpdateAgentDescription_def pg_SetAgentAssignedConfig_def pg_SetAgentAckedConfig_def
       pg_SetAgentEffectiveConfig_def shape_simps)

lemma UpdateCustomer_shape: "render_shape (snd (pg_UpdateCustomer now i upd es db)) = render_shape db"
  unfolding pg_UpdateCustomer_def Let_def
  by (rule shape_inTx) (auto split: sum.splits if_splits dest!: shape_audit
      simp: render_shape_def upd_where_def apply_customer_update_def)

lemma SoftDeleteCustomer_shape: "render_shape (snd (pg_SoftDeleteCustomer now i es db)) = render_shape db"
  unfolding pg_SoftDeleteCustomer_def Let_def
  by (rule shape_inTx) (auto split: sum.splits if_splits dest!: shape_audit simp: render_shape_def upd_where_def)

lemma RevokeAPIKey_shape: "render_shape (snd (pg_RevokeAPIKey now i k es db)) = render_shape db"
  unfolding pg_RevokeAPIKey_def
  by (rule shape_inTx) (auto split: sum.splits if_splits dest!: shape_audit simp: shape_simps)

lemma key_shape:
  "render_shape (snd (pg_CreateAPIKey now k es db)) = render_shape db"
  "render_shape (pg_TouchAPIKeys seen db) = render_shape db"
proof -
  show "render_shape (snd (pg_CreateAPIKey now k es db)) = render_shape db"
    unfolding pg_CreateAPIKey_def
    by (auto simp: insertAPIKey_Inr shape_simps split: sum.splits intro!: shape_inTx dest!: shape_audit)
  show "render_shape (pg_TouchAPIKeys seen db) = render_shape db"
    unfolding pg_TouchAPIKeys_def by (induction seen arbitrary: db) (auto simp: touch_key_def shape_simps)
qed

lemma create_attempt_tables:
  assumes "create_attempt actor name s d db = (Inr c, db')"
  shows "pipelines db' = pipelines db" "pipeline_versions db' = pipeline_versions db"
  using assms
  by (auto simp: create_attempt_def Let_def pg_CreateCustomer_def inTx_Inr insert_customer_Inr insertAPIKey_Inr
      audit_Write_fields split: option.splits sum.splits key_error.splits prod.splits)

lemma candidate_slug_like:
  assumes "s \<in> slug_candidates True (DeriveSlug n) (DeriveSlug n) k"
  shows "slug_like s"
proof -
  have d: "list_all slug_char (DeriveSlug n)" using DeriveSlug_shape [of n] by (simp add: slug_shape_def)
  have i: "list_all slug_char (Itoa (int j))" for j
    using Itoa_digits [of "int j"] by (auto simp: list_all_iff slug_char_def)
  from assms d i show ?thesis
    by (auto simp: slug_candidates_def slug_char_def intro!: slug_char_like)
qed

lemma CreateCustomer_svc_inv:
  assumes "svc_inv cipher db"
  shows "svc_inv cipher (snd (CreateCustomer actor name slug dr db))"
proof (cases "CreateCustomer actor name slug dr db")
  case (Pair r db')
  show ?thesis
  proof (cases r)
    case (Inl e)
    with Pair CreateCustomer_Inl [of actor name slug dr db] assms show ?thesis by simp
  next
    case (Inr c)
    from CreateCustomer_Inr [OF Pair [unfolded Inr]] obtain i where
      a: "create_attempt actor (TrimSpace name) (cust_Slug (cc_Customer c)) (dr i) db = (Inr c, db')"
      and s: "cust_Slug (cc_Customer c) \<in>
        (case slug of None \<Rightarrow> slug_candidates True (DeriveSlug (TrimSpace name)) (DeriveSlug (TrimSpace name)) 10
         | Some s \<Rightarrow> {s})" and v: "\<forall>s. slug = Some s \<longrightarrow> ValidSlug s" by blast
    have "slug_like (cust_Slug (cc_Customer c))"
      using s v by (cases slug) (auto simp: candidate_slug_like ValidSlug_def intro: slug_char_like)
    moreover have "db_wf db'"
      using CreateCustomer_wf [of db actor name slug dr] assms by (simp add: Pair svc_inv_def)
    ultimately show ?thesis
      using assms create_attempt_Inr(10) [OF a] create_attempt_tables [OF a] by (simp add: Pair svc_inv_def)
  qed
qed

section \<open>The steps of the control plane\<close>

inductive system_step :: "PipelineSvc \<Rightarrow> db \<Rightarrow> db \<Rightarrow> bool" for sv where
  create_customer: "system_step sv db (snd (CreateCustomer actor name slug dr db))"
| update_customer: "system_step sv db (snd (pg_UpdateCustomer now i cu es db))"
| delete_customer: "system_step sv db (snd (pg_SoftDeleteCustomer now i es db))"
| create_key: "system_step sv db (snd (pg_CreateAPIKey now nk es db))"
| revoke_key: "system_step sv db (snd (pg_RevokeAPIKey now i k es db))"
| touch_keys: "system_step sv db (pg_TouchAPIKeys seen db)"
| user_ops: "user_step db db' \<Longrightarrow> system_step sv db db'"
| fleet_ops: "fleet_step db db' \<Longrightarrow> system_step sv db db'"
| settings_ops: "settings_step db db' \<Longrightarrow> system_step sv db db'"
| create_pipeline: "system_step sv db (snd (Create sv rnd now vid pid actor cid name cls g db))"
| create_version: "system_step sv db (snd (CreateVersion sv rnd now vid actor pid g db))"
| activate: "system_step sv (ss_db st) (ss_db (snd (Activate sv now actor pid n st)))"
| delete: "system_step sv (ss_db st) (ss_db (snd (Delete sv now actor pid st)))"

lemma shape_step: "svc_inv c db \<Longrightarrow> (db_wf db \<Longrightarrow> db_wf db') \<Longrightarrow> render_shape db' = render_shape db \<Longrightarrow> svc_inv c db'"
  by (rule svc_inv_shape) (auto simp: svc_inv_def)

lemma system_step_inv: "system_step sv db db' \<Longrightarrow> svc_inv (sv_Cipher sv) db \<Longrightarrow> svc_inv (sv_Cipher sv) db'"
proof (induction rule: system_step.induct)
  case (create_customer db actor name slug dr)
  then show ?case by (rule CreateCustomer_svc_inv)
next
  case (create_pipeline db rnd now vid pid actor cid name cls g)
  then show ?case by (rule Create_inv)
next
  case (create_version db rnd now vid actor pid g)
  then show ?case by (rule CreateVersion_inv)
next
  case (activate st now actor pid n)
  then show ?case by (rule Activate_inv)
next
  case (delete st now actor pid)
  then show ?case by (rule Delete_inv)
qed (erule shape_step,
     simp_all add: inv_intros user_step_wf fleet_step_wf settings_step_wf user_step_shape fleet_step_shape
       settings_step_shape UpdateCustomer_shape SoftDeleteCustomer_shape RevokeAPIKey_shape key_shape)+

definition system_reach :: "PipelineSvc \<Rightarrow> time \<Rightarrow> db \<Rightarrow> bool" where
  "system_reach sv t0 db \<longleftrightarrow> (system_step sv)\<^sup>*\<^sup>* (db_init t0) db"

lemma system_reach_inv: "system_reach sv t0 db \<Longrightarrow> svc_inv (sv_Cipher sv) db"
  unfolding system_reach_def
proof (induction rule: rtranclp_induct)
  case base
  show ?case using db_init_wf [of t0] by (simp add: svc_inv_def db_init_def)
next
  case (step y z)
  then show ?case using system_step_inv by blast
qed

definition sample_sv :: PipelineSvc where
  "sample_sv = \<lparr>sv_Validator = \<lparr>v_Check = (\<lambda>_ _. CheckOk), v_Marshal = (\<lambda>_. Inr ''yaml''), v_BinPath = ''otelcol'',
     v_HasBin = False, v_Run = (\<lambda>_. Ran [] [] None)\<rparr>, sv_Cipher = None, sv_Edge = None\<rparr>"

definition sample_graph :: Graph where
  "sample_graph = \<lparr>g_Signals = [''logs''], g_Processors = [],
     g_Exporters = [\<lparr>n_Type = ''debug'', n_Name = None, n_Config = Some []\<rparr>]\<rparr>"

lemma sample_graph_stored:
  "EncryptGraphSecrets None rnd sample_graph None = Inr (sample_graph, [])"
  "DecryptGraphSecrets None sample_graph = Inr sample_graph" 
  by code_simp+

lemma sample_graph_valid:
  "ValidateStructural (\<lambda>_ _. CheckOk) sample_graph = []"
  by code_simp

lemma sample_prepare:
  assumes "pipelines db = []"
  shows "\<exists>res nv. prepare sample_sv rnd vid cid slug clid name ClassForwarding None sample_graph None None db = Inr (res, Some nv) \<and>
    nv_ID nv = vid \<and> nv_Graph nv = MarshalGraph sample_graph \<and> nv_ValidationStatus nv = ValidationValid \<and> nv_CreatedBy nv = None"
proof -
  have a: "activeRenderPipelines None ClassForwarding None None db = Inr []"
    using assms by (simp add: activeRenderPipelines_def pg_ListActivePipelines_def joined_pipelines_def)
  have c: "sv_Cipher sample_sv = None" and e: "(if ClassForwarding = ClassEdge then Some cid else None) = None"
    by (simp_all add: sample_sv_def ClassForwarding_def ClassEdge_def)
  have v: "\<exists>is. Validate (sv_Validator sample_sv) ClassForwarding
     \<lparr>rp_CustomerSlug = slug, rp_ClientID = clid, rp_PipelineSlug = PipelineSlug name, rp_Graph = sample_graph\<rparr> [] =
     \<lparr>res_Valid = True, res_Issues = is, res_RenderedYAML = Some ''yaml''\<rparr>"
    by (simp add: sample_sv_def Validate_def sample_graph_valid render_full_def render_fragment_def
        RenderForwardingConfig_def RenderFragment_def ClassEdge_def ClassForwarding_def sort_pipelines_def plainIssue_def)
  have f: "render_fragment (sv_Validator sample_sv) ClassForwarding p = Inr ''yaml''" for p
    by (simp add: sample_sv_def render_fragment_def RenderFragment_def ClassEdge_def ClassForwarding_def)
  from v obtain iss where v: "Validate (sv_Validator sample_sv) ClassForwarding
     \<lparr>rp_CustomerSlug = slug, rp_ClientID = clid, rp_PipelineSlug = PipelineSlug name, rp_Graph = sample_graph\<rparr> [] =
     \<lparr>res_Valid = True, res_Issues = iss, res_RenderedYAML = Some ''yaml''\<rparr>" by blast
  show ?thesis
    unfolding prepare_def c sample_graph_stored sum.case prod.case Let_def e a v f
    by simp
qed

lemma sample_created:
  assumes "customers db = [c]" "cust_ID c = 1" "cust_Status c = CustomerActive" "pipelines db = []" "pipeline_versions db = []"
    "nv_ID nv = 10" "nv_ValidationStatus nv = ValidationValid" "nv_CreatedBy nv = None" "nv_PipelineID nv = 11"
    "list_all (\<lambda>e. ae_ActorType e = '''') es"
  shows "\<exists>r db'. pg_CreatePipeline 0 \<lparr>np_ID = 11, np_CustomerID = 1, np_Name = ''main'', np_TargetClass = ClassForwarding\<rparr>
      nv es db = (Inr r, db') \<and> customers db' = customers db \<and>
     pipelines db' = [\<lparr>pl_ID = 11, pl_CustomerID = 1, pl_Name = ''main'', pl_TargetClass = ClassForwarding,
       pl_ActiveVersionID = None, pl_CreatedAt = 0\<rparr>] \<and> pipeline_versions db' = [new_version_row 0 nv 1]"
proof -
  let ?row = "\<lparr>pl_ID = 11, pl_CustomerID = 1, pl_Name = ''main'', pl_TargetClass = ClassForwarding,
       pl_ActiveVersionID = None, pl_CreatedAt = 0\<rparr>"
  let ?db1 = "db\<lparr>pipelines := [?row], pipeline_versions := [new_version_row 0 nv 1]\<rparr>"
  obtain db' where a: "audit_Write 0 es ?db1 = Inr db'" using user_entries_ok [OF assms(10)] by blast
  note f = audit_Write_fields [OF a]
  have t: "customers db' = [c]" "pipelines db' = [?row]" "pipeline_versions db' = [new_version_row 0 nv 1]"
    using assms f by simp_all
  have i: "insertPipelineVersion 0 nv 1 (db\<lparr>pipelines := [?row]\<rparr>) = Inr ?db1"
    using assms by (simp add: insertPipelineVersion_Inr id_list_defs versions_of_def ref_ok_def int4_ok_def)
  have g: "\<exists>x. pg_GetPipeline 11 db' = Inr x" "\<exists>x. read_version (nv_ID nv) db' = Inr x"
    using t assms by (simp_all add: pg_GetPipeline_def joined_pipelines_def read_version_def joined_versions_def new_version_row_def)
  have d: "pipeline_ids db = []" "ClassForwarding \<noteq> ''''" "cust_Status c \<noteq> CustomerDeleted"
    using assms by (simp_all add: id_list_defs ClassForwarding_def CustomerActive_def CustomerDeleted_def)
  show ?thesis
    unfolding pg_CreatePipeline_def inTx_Inr using t g assms d
    by (auto simp: Let_def i commit_def a)
qed

lemma sample_activated:
  assumes "customers db = [c]" "cust_ID c = 1"
    "pipelines db = [p]" "pl_ID p = 11" "pl_CustomerID p = 1" "pipeline_versions db = [v]" "pv_PipelineID v = 11" "pv_Version v = 1"
    "pv_ValidationStatus v = ValidationValid" "list_all (\<lambda>e. ae_ActorType e = '''') es"
  shows "\<exists>r db'. pg_ActivatePipelineVersion 0 11 1 es db = (Inr r, db') \<and> customers db' = customers db \<and>
     pipelines db' = [p\<lparr>pl_ActiveVersionID := Some (pv_ID v)\<rparr>] \<and> pipeline_versions db' = [v]"
proof -
  have g: "\<exists>ver. pg_GetPipelineVersion 11 1 db = Inr ver \<and> pv_ValidationStatus ver = ValidationValid \<and> pv_ID ver = pv_ID v"
    using assms by (simp add: pg_GetPipelineVersion_def joined_versions_def version_view_def version_row.defs)
  let ?db1 = "db\<lparr>pipelines := [p\<lparr>pl_ActiveVersionID := Some (pv_ID v)\<rparr>]\<rparr>"
  obtain db' where a: "audit_Write 0 es ?db1 = Inr db'" using user_entries_ok [OF assms(10)] by blast
  note f = audit_Write_fields [OF a]
  have t: "customers db' = [c]" "pipelines db' = [p\<lparr>pl_ActiveVersionID := Some (pv_ID v)\<rparr>]" "pipeline_versions db' = [v]"
    using assms f by simp_all
  have r: "\<exists>x. pg_GetPipeline 11 db' = Inr x"
    using t assms by (simp add: pg_GetPipeline_def joined_pipelines_def)
  show ?thesis
    unfolding pg_ActivatePipelineVersion_def inTx_Inr using t g r assms
    by (auto simp: upd_where_def commit_def a)
qed

lemma sample_Create:
  assumes "customers db = [c]" "cust_ID c = 1" "cust_Status c = CustomerActive" "pipelines db = []" "pipeline_versions db = []"
  shows "\<exists>v. customers (snd (Create sample_sv rnd 0 10 11 None 1 ''main'' '''' sample_graph db)) = [c] \<and>
    pipelines (snd (Create sample_sv rnd 0 10 11 None 1 ''main'' '''' sample_graph db)) =
      [\<lparr>pl_ID = 11, pl_CustomerID = 1, pl_Name = ''main'', pl_TargetClass = ClassForwarding,
        pl_ActiveVersionID = None, pl_CreatedAt = 0\<rparr>] \<and>
    pipeline_versions (snd (Create sample_sv rnd 0 10 11 None 1 ''main'' '''' sample_graph db)) = [v] \<and>
    pv_ID v = 10 \<and> pv_PipelineID v = 11 \<and> pv_Version v = 1 \<and> pv_ValidationStatus v = ValidationValid \<and>
    pv_Graph v = MarshalGraph sample_graph"
proof -
  obtain res nv where p: "prepare sample_sv rnd 10 (cust_ID c) (cust_Slug c) (cust_ClientID c) ''main'' ClassForwarding
      None sample_graph None None db = Inr (res, Some nv)"
    and nv: "nv_ID nv = 10" "nv_Graph nv = MarshalGraph sample_graph" "nv_ValidationStatus nv = ValidationValid" "nv_CreatedBy nv = None"
    using sample_prepare [OF assms(4)] by metis
  let ?es = "create_pipeline_entries None 1 11 10 ''main'' (PipelineSlug ''main'') ClassForwarding"
  have "list_all (\<lambda>e. ae_ActorType e = '''') ?es" by (simp add: create_pipeline_entries_def user_entry_def)
  then obtain r db' where cp: "pg_CreatePipeline 0 \<lparr>np_ID = 11, np_CustomerID = 1, np_Name = ''main'', np_TargetClass = ClassForwarding\<rparr>
      (nv\<lparr>nv_PipelineID := 11\<rparr>) ?es db = (Inr r, db')"
    and t: "customers db' = customers db" "pipelines db' = [\<lparr>pl_ID = 11, pl_CustomerID = 1, pl_Name = ''main'', pl_TargetClass = ClassForwarding,
       pl_ActiveVersionID = None, pl_CreatedAt = 0\<rparr>]" "pipeline_versions db' = [new_version_row 0 (nv\<lparr>nv_PipelineID := 11\<rparr>) 1]"
    using sample_created [OF assms, of "nv\<lparr>nv_PipelineID := 11\<rparr>" ?es] nv by auto
  have n: "TrimSpace ''main'' = ''main''" "PipelineSlug ''main'' \<noteq> ''''" by code_simp+
  have g: "pg_GetCustomer 1 db = Inr c" "cust_Status c \<noteq> CustomerDeleted"
    using assms by (simp_all add: pg_GetCustomer_def CustomerActive_def CustomerDeleted_def)
  have l: "find P (pg_ListPipelines (Some 1) db) = None" for P
    using assms(4) by (simp add: pg_ListPipelines_def joined_pipelines_def)
  have "snd (Create sample_sv rnd 0 10 11 None 1 ''main'' '''' sample_graph db) = db'"
    unfolding Create_def n Let_def l g sum.case option.case using n g p cp nv by simp
  then show ?thesis using t assms nv by (simp add: new_version_row_def)
qed

text \<open>A history with one customer and one active pipeline.\<close>

lemma sample_history:
  "\<exists>db p c v. system_reach sample_sv 0 db \<and> (p, c, v) \<in> set (active_rows ClassForwarding None db) \<and> pv_Graph v = MarshalGraph sample_graph"
proof -
  obtain c db1 where cc: "CreateCustomer None ''Acme'' (Some ''acme'') sample_draws (db_init 0) = (Inr c, db1)"
    using sample_create by blast
  from CreateCustomer_Inr [OF cc] obtain i where
    a: "create_attempt None (TrimSpace ''Acme'') (cust_Slug (cc_Customer c)) (sample_draws i) (db_init 0) = (Inr c, db1)" by blast
  have t1: "customers db1 = [cc_Customer c]" "cust_ID (cc_Customer c) = 1" "cust_Status (cc_Customer c) = CustomerActive"
    "pipelines db1 = []" "pipeline_versions db1 = []"
    using create_attempt_Inr(1,4,10) [OF a] create_attempt_tables [OF a] by (simp_all add: db_init_def sample_draws_def)
  have s1: "system_step sample_sv (db_init 0) db1"
    using system_step.create_customer [of sample_sv "db_init 0" None "''Acme''" "Some ''acme''" sample_draws] by (simp add: cc)
  define db2 where "db2 = snd (Create sample_sv (\<lambda>_. None) 0 10 11 None 1 ''main'' '''' sample_graph db1)"
  from sample_Create [OF t1, of "\<lambda>_. None", folded db2_def] obtain v where t2: "customers db2 = [cc_Customer c]"
    "pipelines db2 = [\<lparr>pl_ID = 11, pl_CustomerID = 1, pl_Name = ''main'', pl_TargetClass = ClassForwarding,
        pl_ActiveVersionID = None, pl_CreatedAt = 0\<rparr>]" "pipeline_versions db2 = [v]"
    and v: "pv_ID v = 10" "pv_PipelineID v = 11" "pv_Version v = 1" "pv_ValidationStatus v = ValidationValid"
      "pv_Graph v = MarshalGraph sample_graph" by blast
  have s2: "system_step sample_sv db1 db2" unfolding db2_def by (rule system_step.create_pipeline)
  let ?es = "[user_entry None ''pipeline_version.activate'' ''pipeline'' (uuid_String 11) None (Some (JObj [(''version'', JNum 1)]))]"
  have "list_all (\<lambda>e. ae_ActorType e = '''') ?es" by (simp add: user_entry_def)
  from sample_activated [OF t2(1) t1(2) t2(2) _ _ t2(3) v(2-4) this] obtain r db3 where
    ac: "pg_ActivatePipelineVersion 0 11 1 ?es db2 = (Inr r, db3)" and t3: "customers db3 = [cc_Customer c]"
    "pipelines db3 = [\<lparr>pl_ID = 11, pl_CustomerID = 1, pl_Name = ''main'', pl_TargetClass = ClassForwarding,
        pl_ActiveVersionID = Some 10, pl_CreatedAt = 0\<rparr>]" "pipeline_versions db3 = [v]"
    using t2 v by auto
  let ?st = "\<lparr>ss_db = db2, ss_current = ''''\<rparr>"
  have "ss_db (snd (Activate sample_sv 0 None 11 1 ?st)) = db3"
    using ac by (auto simp: Activate_def Let_def Distribute_db split: prod.splits sum.splits
        dest!: arg_cong [of "distribute _ _" _ snd] intro!: arg_cong [of _ _ ss_db])
  then have "system_step sample_sv db2 db3"
    using system_step.activate [of sample_sv ?st 0 None 11 1] by simp
  then have "system_reach sample_sv 0 db3"
    unfolding system_reach_def using s1 s2 by (meson converse_rtranclp_into_rtranclp rtranclp.rtrancl_refl)
  moreover have "(hd (pipelines db3), cc_Customer c, v) \<in> set (active_rows ClassForwarding None db3)"
    using t1 t3 v by (simp add: in_active_rows)
  ultimately show ?thesis using v by blast
qed

section \<open>Properties\<close>





end
