(* ===== verification/Registry.thy ===== *)
theory Registry
  imports GoBase "HOL-Library.AList"
begin

text \<open>
  The OpAMP server's table of live connections, \<open>internal/opamp/registry.go\<close>. A connection is known by its
  identity, a number; a Go map is an association list, whose order stands for the order of an iteration. A
  nil hash is the empty one, which \<open>bytes.Equal\<close> does not tell apart. Each operation runs under the
  registry's lock, so one call is one step.
\<close>

type_synonym connection = nat

record agentConn =
  ac_conn :: "connection option"
  ac_instanceUID :: bytes
  ac_agentID :: uuid
  ac_customerID :: uuid
  ac_capabilities :: "64 word"
  ac_lastAckedHash :: bytes
  ac_remoteConfigStatus :: string
  ac_healthy :: "bool option"
  ac_lastSeen :: time
  ac_dirtySeen :: bool
  ac_tokenOffered :: bool

record registry =
  byUID :: "(bytes \<times> agentConn) list"
  byConn :: "(connection \<times> bytes) list"

definition newRegistry :: registry where
  "newRegistry = \<lparr>byUID = [], byConn = []\<rparr>"

definition reg_get :: "bytes \<Rightarrow> registry \<Rightarrow> agentConn option" where
  "reg_get uid r = map_of (byUID r) uid"

definition unbind :: "connection option \<Rightarrow> (connection \<times> bytes) list \<Rightarrow> (connection \<times> bytes) list" where
  "unbind c m = (case c of None \<Rightarrow> m | Some x \<Rightarrow> AList.delete x m)"

definition reg_put :: "agentConn \<Rightarrow> registry \<Rightarrow> registry" where
  "reg_put st r =
    (let key = ac_instanceUID st;
         m = (case map_of (byUID r) key of
                None \<Rightarrow> byConn r
              | Some prev \<Rightarrow> if ac_conn prev \<noteq> ac_conn st then unbind (ac_conn prev) (byConn r) else byConn r)
     in \<lparr>byUID = AList.update key st (byUID r),
         byConn = (case ac_conn st of None \<Rightarrow> m | Some c \<Rightarrow> AList.update c key m)\<rparr>)"

definition reg_update :: "bytes \<Rightarrow> (agentConn \<Rightarrow> agentConn) \<Rightarrow> registry \<Rightarrow> registry" where
  "reg_update uid fn r = (case map_of (byUID r) uid of
      None \<Rightarrow> r
    | Some st \<Rightarrow> r\<lparr>byUID := AList.update uid (fn st) (byUID r)\<rparr>)"

definition reg_touch :: "bytes \<Rightarrow> time \<Rightarrow> registry \<Rightarrow> registry" where
  "reg_touch uid at r = reg_update uid (\<lambda>st. st\<lparr>
      ac_lastSeen := (if ac_lastSeen st < at then at else ac_lastSeen st),
      ac_dirtySeen := True\<rparr>) r"

definition removeConn :: "connection \<Rightarrow> registry \<Rightarrow> agentConn option \<times> registry" where
  "removeConn conn r = (case map_of (byConn r) conn of
      None \<Rightarrow> (None, r)
    | Some key \<Rightarrow>
        (let r1 = r\<lparr>byConn := AList.delete conn (byConn r)\<rparr>
         in case map_of (byUID r) key of
              None \<Rightarrow> (None, r1)
            | Some st \<Rightarrow> if ac_conn st = Some conn then (Some st, r1\<lparr>byUID := AList.delete key (byUID r)\<rparr>)
                         else (None, r1)))"

definition isConnected :: "bytes \<Rightarrow> registry \<Rightarrow> bool" where
  "isConnected uid r \<longleftrightarrow> map_of (byUID r) uid \<noteq> None"

definition connsForCustomer :: "uuid \<Rightarrow> registry \<Rightarrow> agentConn list" where
  "connsForCustomer customerID r =
     filter (\<lambda>st. ac_customerID st = customerID \<and> ac_agentID st \<noteq> uuid_Nil) (map snd (byUID r))"

definition seen_dirty :: "agentConn \<Rightarrow> bool" where
  "seen_dirty st \<longleftrightarrow> ac_dirtySeen st \<and> ac_agentID st \<noteq> uuid_Nil"

definition clear_seen :: "agentConn \<Rightarrow> agentConn" where
  "clear_seen st = (if seen_dirty st then st\<lparr>ac_dirtySeen := False\<rparr> else st)"

definition drainDirtySeen :: "registry \<Rightarrow> (uuid \<times> time) list \<times> registry" where
  "drainDirtySeen r =
    (foldl (\<lambda>m st. AList.update (ac_agentID st) (ac_lastSeen st) m) [] (filter seen_dirty (map snd (byUID r))),
     r\<lparr>byUID := map (\<lambda>(k, st). (k, clear_seen st)) (byUID r)\<rparr>)"

section \<open>The invariant\<close>

declare map_of_eq_Some_iff [simp del] Some_eq_map_of_iff [simp del]

text \<open>An agent is filed under its instance UID, and a bound connection is the current one of the agent it is
  bound to.\<close>

definition reg_inv :: "registry \<Rightarrow> bool" where
  "reg_inv r \<longleftrightarrow> distinct (map fst (byUID r)) \<and> distinct (map fst (byConn r)) \<and>
     (\<forall>k st. map_of (byUID r) k = Some st \<longrightarrow> ac_instanceUID st = k) \<and>
     (\<forall>c k. map_of (byConn r) c = Some k \<longrightarrow> (\<exists>st. map_of (byUID r) k = Some st \<and> ac_conn st = Some c))"

lemma reg_inv_init: "reg_inv newRegistry"
  by (simp add: reg_inv_def newRegistry_def)

lemma unbind_lookup: "map_of (unbind c m) x = (if c = Some x then None else map_of m x)"
  by (auto simp: unbind_def delete_conv split: option.splits)

lemma unbind_distinct: "distinct (map fst m) \<Longrightarrow> distinct (map fst (unbind c m))"
  by (auto simp: unbind_def distinct_delete split: option.splits)

lemma reg_put_inv:
  assumes "reg_inv r"
  shows "reg_inv (reg_put st r)"
proof -
  define m where "m = (case map_of (byUID r) (ac_instanceUID st) of
                None \<Rightarrow> byConn r
              | Some prev \<Rightarrow> if ac_conn prev \<noteq> ac_conn st then unbind (ac_conn prev) (byConn r) else byConn r)"
  have d: "distinct (map fst m)"
    using assms by (auto simp: m_def reg_inv_def unbind_distinct split: option.splits)
  have bound: "\<exists>x. map_of (byUID r) k = Some x \<and> ac_conn x = Some c" if "map_of (byConn r) c = Some k" for c k
    using assms that by (simp add: reg_inv_def)
  have sub: "map_of (byConn r) c = Some k" if "map_of m c = Some k" for c k
    using that by (auto simp: m_def unbind_lookup split: option.splits if_splits)
  have own: "ac_conn st = Some c" if "map_of m c = Some (ac_instanceUID st)" for c
  proof -
    from bound [OF sub [OF that]] obtain x where "map_of (byUID r) (ac_instanceUID st) = Some x" "ac_conn x = Some c" by blast
    with that show ?thesis by (auto simp: m_def unbind_lookup split: if_splits)
  qed
  have p: "reg_put st r = \<lparr>byUID = AList.update (ac_instanceUID st) st (byUID r),
         byConn = (case ac_conn st of None \<Rightarrow> m | Some c \<Rightarrow> AList.update c (ac_instanceUID st) m)\<rparr>"
    by (simp only: reg_put_def m_def Let_def)
  define u where "u = AList.update (ac_instanceUID st) st (byUID r)"
  have u: "map_of u k = Some x \<longleftrightarrow> (if k = ac_instanceUID st then x = st else map_of (byUID r) k = Some x)" for k x
    by (auto simp: u_def update_conv)
  have m: "\<exists>x. map_of u k = Some x \<and> ac_conn x = Some c" if "map_of m c = Some k" for c k
    using own [of c] bound [OF sub [OF that]] that by (cases "k = ac_instanceUID st") (simp_all add: u)
  have uid: "ac_instanceUID x = k" if "map_of u k = Some x" for k x
    using assms that by (simp add: reg_inv_def u split: if_splits)
  have du: "distinct (map fst u)" using assms by (simp add: u_def reg_inv_def distinct_update)
  show ?thesis
  proof (cases "ac_conn st")
    case None
    then show ?thesis using d du m uid by (simp add: p reg_inv_def u_def [symmetric])
  next
    case (Some c)
    have "\<exists>x. map_of u k = Some x \<and> ac_conn x = Some c'" if "map_of (AList.update c (ac_instanceUID st) m) c' = Some k" for c' k
      using that m [of c' k] Some by (auto simp: update_conv u split: if_splits)
    then show ?thesis using Some d du uid by (simp add: p reg_inv_def u_def [symmetric] distinct_update)
  qed
qed

lemma reg_update_inv:
  assumes "reg_inv r" "\<And>st. ac_instanceUID (f st) = ac_instanceUID st \<and> ac_conn (f st) = ac_conn st"
  shows "reg_inv (reg_update uid f r)"
proof (cases "map_of (byUID r) uid")
  case None
  then show ?thesis using assms by (simp add: reg_update_def)
next
  case (Some st)
  have b: "\<exists>x. map_of (byUID r) k = Some x \<and> ac_conn x = Some c" if "map_of (byConn r) c = Some k" for c k
    using assms(1) that by (simp add: reg_inv_def)
  have "\<exists>x. map_of (AList.update uid (f st) (byUID r)) k = Some x \<and> ac_conn x = Some c"
    if "map_of (byConn r) c = Some k" for c k
    using b [OF that] Some assms(2) by (auto simp: update_conv)
  then show ?thesis
    using assms Some unfolding reg_inv_def reg_update_def by (auto simp: distinct_update update_conv split: if_splits)
qed

lemma removeConn_bound:
  assumes "reg_inv r" "map_of (byConn r) c = Some k"
  shows "\<exists>st. removeConn c r = (Some st, r\<lparr>byConn := AList.delete c (byConn r), byUID := AList.delete k (byUID r)\<rparr>) \<and>
    map_of (byUID r) k = Some st \<and> ac_conn st = Some c \<and> ac_instanceUID st = k"
proof -
  from assms obtain st where "map_of (byUID r) k = Some st" "ac_conn st = Some c" "ac_instanceUID st = k"
    unfolding reg_inv_def by blast
  with assms(2) show ?thesis by (simp add: removeConn_def Let_def)
qed

lemma removeConn_inv:
  assumes "reg_inv r"
  shows "reg_inv (snd (removeConn c r))"
proof (cases "map_of (byConn r) c")
  case None
  then show ?thesis using assms by (simp add: removeConn_def)
next
  case (Some k)
  with removeConn_bound [OF assms] obtain st where
    e: "removeConn c r = (Some st, r\<lparr>byConn := AList.delete c (byConn r), byUID := AList.delete k (byUID r)\<rparr>)"
    and st: "map_of (byUID r) k = Some st" "ac_conn st = Some c" by blast
  have "k' \<noteq> k" if "map_of (byConn r) c' = Some k'" "c' \<noteq> c" for c' k'
    using assms st that by (force simp: reg_inv_def)
  with assms show ?thesis
    unfolding e snd_conv reg_inv_def by (auto simp: distinct_delete delete_conv)
qed

section \<open>The interface of the registry\<close>

text \<open>What the message handler relies on: a lookup after each of the operations.\<close>

locale conn_registry =
  fixes get :: "'u \<Rightarrow> 'r \<Rightarrow> 's option"
    and put :: "'s \<Rightarrow> 'r \<Rightarrow> 'r"
    and update :: "'u \<Rightarrow> ('s \<Rightarrow> 's) \<Rightarrow> 'r \<Rightarrow> 'r"
    and remove :: "'c \<Rightarrow> 'r \<Rightarrow> 's option \<times> 'r"
    and uid :: "'s \<Rightarrow> 'u"
    and inv :: "'r \<Rightarrow> bool"
  assumes get_put: "get u (put s r) = (if u = uid s then Some s else get u r)"
    and get_update: "get u (update v f r) = (if u = v then map_option f (get u r) else get u r)"
    and get_remove: "inv r \<Longrightarrow> get u (snd (remove c r)) =
      (case fst (remove c r) of None \<Rightarrow> get u r | Some s \<Rightarrow> if u = uid s then None else get u r)"
    and removed: "inv r \<Longrightarrow> fst (remove c r) = Some s \<Longrightarrow> get (uid s) r = Some s"
begin

definition holds :: "('s \<Rightarrow> bool) \<Rightarrow> 'r \<Rightarrow> bool" where
  "holds P r \<longleftrightarrow> (\<forall>u s. get u r = Some s \<longrightarrow> P s)"

lemma holds_get: "holds P r \<Longrightarrow> get u r = Some s \<Longrightarrow> P s"
  by (auto simp: holds_def)

lemma holds_put: "holds P r \<Longrightarrow> P s \<Longrightarrow> holds P (put s r)"
  by (auto simp: holds_def get_put)

lemma holds_update: "holds P r \<Longrightarrow> (\<And>s. P s \<Longrightarrow> P (f s)) \<Longrightarrow> holds P (update u f r)"
  by (auto simp: holds_def get_update)

lemma holds_remove:
  assumes "inv r" "holds P r"
  shows "holds P (snd (remove c r))"
  using assms get_remove [OF assms(1)] by (auto simp: holds_def split: option.splits if_splits)

lemma holds_removed: "inv r \<Longrightarrow> holds P r \<Longrightarrow> fst (remove c r) = Some s \<Longrightarrow> P s"
  using removed holds_get by blast

lemma holds_mono: "holds P r \<Longrightarrow> (\<And>s. P s \<Longrightarrow> Q s) \<Longrightarrow> holds Q r"
  by (auto simp: holds_def)

end

lemma removeConn_None: "reg_inv r \<Longrightarrow> fst (removeConn c r) = None \<Longrightarrow> removeConn c r = (None, r)"
  using removeConn_bound [of r c] by (cases "map_of (byConn r) c") (auto simp: removeConn_def)

lemma removeConn_Some:
  assumes "reg_inv r" "fst (removeConn c r) = Some st"
  shows "byUID (snd (removeConn c r)) = AList.delete (ac_instanceUID st) (byUID r)"
    "map_of (byUID r) (ac_instanceUID st) = Some st"
proof -
  from assms(2) obtain k where "map_of (byConn r) c = Some k" by (auto simp: removeConn_def split: option.splits)
  from removeConn_bound [OF assms(1) this] assms(2)
  show "byUID (snd (removeConn c r)) = AList.delete (ac_instanceUID st) (byUID r)"
    "map_of (byUID r) (ac_instanceUID st) = Some st" by auto
qed

interpretation reg: conn_registry reg_get reg_put reg_update removeConn ac_instanceUID reg_inv
proof unfold_locales
  fix u s r f v c
  show "reg_get u (reg_put s r) = (if u = ac_instanceUID s then Some s else reg_get u r)"
    by (simp add: reg_get_def reg_put_def Let_def update_conv)
  show "reg_get u (reg_update v f r) = (if u = v then map_option f (reg_get u r) else reg_get u r)"
    by (auto simp: reg_get_def reg_update_def update_conv split: option.splits)
next
  fix r u c
  assume r: "reg_inv r"
  show "reg_get u (snd (removeConn c r)) =
    (case fst (removeConn c r) of None \<Rightarrow> reg_get u r | Some s \<Rightarrow> if u = ac_instanceUID s then None else reg_get u r)"
    using removeConn_None [OF r, of c] removeConn_Some(1) [OF r, of c]
    by (cases "fst (removeConn c r)") (auto simp: reg_get_def delete_conv)
next
  fix r c s
  assume "reg_inv r" "fst (removeConn c r) = Some s"
  then show "reg_get (ac_instanceUID s) r = Some s" by (simp add: reg_get_def removeConn_Some)
qed

lemma drain_get: "reg_get u (snd (drainDirtySeen r)) = map_option clear_seen (reg_get u r)"
  by (simp add: drainDirtySeen_def reg_get_def map_of_map)

lemma drain_inv:
  assumes "reg_inv r"
  shows "reg_inv (snd (drainDirtySeen r))"
proof -
  have k: "map fst (byUID (snd (drainDirtySeen r))) = map fst (byUID r)" "byConn (snd (drainDirtySeen r)) = byConn r"
    by (simp_all add: drainDirtySeen_def case_prod_unfold)
  have g: "map_of (byUID (snd (drainDirtySeen r))) u = map_option clear_seen (map_of (byUID r) u)" for u
    using drain_get [of u r] by (simp add: reg_get_def)
  have c: "ac_instanceUID (clear_seen st) = ac_instanceUID st" "ac_conn (clear_seen st) = ac_conn st" for st
    by (simp_all add: clear_seen_def)
  have "\<exists>st. map_option clear_seen (map_of (byUID r) key) = Some st \<and> ac_conn st = Some x"
    if "map_of (byConn r) x = Some key" for x key
  proof -
    from assms that obtain st where "map_of (byUID r) key = Some st" "ac_conn st = Some x" unfolding reg_inv_def by blast
    then show ?thesis by (simp add: c)
  qed
  then show ?thesis using assms unfolding reg_inv_def k g by (auto simp: c)
qed

end
