(* ===== verification/GoTime.thy ===== *)
theory GoTime
  imports GoBase
begin

text \<open>
  What the program uses of the package time: the zero time and \<open>Format(time.RFC3339Nano)\<close> for a UTC time,
  given as nanoseconds since 1970. The calendar is the proleptic Gregorian one; years are counted from March
  inside an era of 400 years, so that a leap day is the last day of its year.
\<close>

definition zeroTime :: int where
  "zeroTime = - 62135596800 * 1000000000"

definition IsZero :: "int \<Rightarrow> bool" where
  "IsZero t \<longleftrightarrow> t = zeroTime"

definition civil_from_days :: "int \<Rightarrow> int \<times> int \<times> int" where
  "civil_from_days z =
    (let d0 = z + 719468; era = d0 div 146097; doe = d0 mod 146097;
         yoe = (doe - doe div 1460 + doe div 36524 - doe div 146096) div 365;
         doy = doe - (365 * yoe + yoe div 4 - yoe div 100);
         mp = (5 * doy + 2) div 153;
         d = doy - (153 * mp + 2) div 5 + 1;
         m = (if mp < 10 then mp + 3 else mp - 9)
     in (yoe + era * 400 + (if m \<le> 2 then 1 else 0), m, d))"

definition pad_int :: "nat \<Rightarrow> int \<Rightarrow> string" where
  "pad_int w n = (let s = Itoa n in replicate (w - length s) CHR ''0'' @ s)"

definition nano_fraction :: "int \<Rightarrow> string" where
  "nano_fraction n = (if n = 0 then []
     else ''.'' @ rev (dropWhile (\<lambda>c. c = CHR ''0'') (rev (pad_int 9 n))))"

definition FormatRFC3339Nano :: "int \<Rightarrow> string" where
  "FormatRFC3339Nano t =
    (let s = t div 1000000000; (y, m, d) = civil_from_days (s div 86400); sod = s mod 86400
     in pad_int 4 y @ ''-'' @ pad_int 2 m @ ''-'' @ pad_int 2 d @ ''T'' @ pad_int 2 (sod div 3600) @ '':'' @
        pad_int 2 (sod div 60 mod 60) @ '':'' @ pad_int 2 (sod mod 60) @ nano_fraction (t mod 1000000000) @ ''Z'')"

lemma civil_examples:
  "civil_from_days 0 = (1970, 1, 1)" "civil_from_days 11016 = (2000, 2, 29)" "civil_from_days 11017 = (2000, 3, 1)"
  "civil_from_days 19675 = (2023, 11, 14)" "civil_from_days (- 1) = (1969, 12, 31)"
  by code_simp+

end
