(* ===== verification/TenantTokens.thy ===== *)
theory TenantTokens
  imports Tenants StoreSettings
begin

text \<open>
  The tenant service's operations on enrolment tokens and management-API tokens,
  \<open>internal/tenants/bootstrap.go\<close> and \<open>internal/tenants/apitoken.go\<close>. The random bytes, the fresh
  identifier and the clock are arguments. The error for an unknown role wraps \<open>ErrInvalidName\<close> and is that
  error here.
\<close>

section \<open>Enrolment tokens\<close>

definition defaultBootstrapTokenTTL :: int where
  "defaultBootstrapTokenTTL = 30 * 24 * 3600 * 1000000000"

datatype token_problem =
    TokenExpired time
  | TokenExhausted int int
  | CustomerIs string

definition TokenUsable :: "EnrollToken \<Rightarrow> time \<Rightarrow> token_problem option" where
  "TokenUsable t now =
    (if \<not> now < et_ExpiresAt t then Some (TokenExpired (et_ExpiresAt t))
     else if et_MaxUses t > 0 \<and> et_UsedCount t \<ge> et_MaxUses t then Some (TokenExhausted (et_UsedCount t) (et_MaxUses t))
     else if et_CustomerStatus t \<noteq> CustomerActive then Some (CustomerIs (et_CustomerStatus t))
     else None)"

record CreatedBootstrapToken =
  cbt_Token :: BootstrapToken
  cbt_Secret :: string

definition CreateBootstrapToken ::
    "time \<Rightarrow> uuid \<Rightarrow> bytes option \<Rightarrow> uuid option \<Rightarrow> uuid \<Rightarrow> string \<Rightarrow> time option \<Rightarrow> int \<Rightarrow> db \<Rightarrow>
     (svc_error + CreatedBootstrapToken) \<times> db" where
  "CreateBootstrapToken now newID rnd actor customerID name0 expiresAt maxUses0 db =
    (let name = TrimSpace name0; maxUses = (if maxUses0 < 0 then 0 else maxUses0)
     in if \<not> name_ok name then (Inl ErrInvalidName, db)
        else (case GenerateBootstrapToken rnd of
            Inl (ErrRand m) \<Rightarrow> (Inl (ErrRandom m), db)
          | Inr tok \<Rightarrow>
              (let nb = \<lparr>nb_ID = newID, nb_CustomerID = customerID, nb_Name = name, nb_TokenPrefix = gk_Prefix tok,
                         nb_TokenHash = gk_Hash tok, nb_MaxUses = maxUses, nb_CreatedBy = actor,
                         nb_ExpiresAt = coalesce expiresAt (now + defaultBootstrapTokenTTL)\<rparr>
               in case pg_CreateBootstrapToken now nb
                      [user_entry actor ''bootstraptoken.create'' ''bootstrap_token'' (uuid_String newID) (Some customerID)
                         (Some (JObj [(''name'', JStr name), (''token_prefix'', JStr (gk_Prefix tok)),
                            (''max_uses'', JNum maxUses)]))] db of
                    (Inl e, db') \<Rightarrow> (Inl (ErrStore e), db')
                  | (Inr stored, db') \<Rightarrow> (Inr \<lparr>cbt_Token = stored, cbt_Secret = gk_Secret tok\<rparr>, db'))))"

definition RevokeBootstrapToken :: "time \<Rightarrow> uuid option \<Rightarrow> uuid \<Rightarrow> uuid \<Rightarrow> db \<Rightarrow> (store_error + unit) \<times> db" where
  "RevokeBootstrapToken now actor customerID tokenID db = pg_RevokeBootstrapToken now customerID tokenID
     [user_entry actor ''bootstraptoken.revoke'' ''bootstrap_token'' (uuid_String tokenID) (Some customerID) None] db"

section \<open>Management-API tokens\<close>

record CreatedAPIToken =
  cat_Token :: APIToken
  cat_Secret :: string

definition CreateAPIToken ::
    "time \<Rightarrow> uuid \<Rightarrow> bytes option \<Rightarrow> uuid option \<Rightarrow> string \<Rightarrow> string \<Rightarrow> time option \<Rightarrow> db \<Rightarrow>
     (svc_error + CreatedAPIToken) \<times> db" where
  "CreateAPIToken now newID rnd actor name0 role expiresAt db =
    (let name = TrimSpace name0
     in if \<not> name_ok name then (Inl ErrInvalidName, db)
        else if \<not> Known role then (Inl ErrInvalidName, db)
        else (case GenerateAPIToken rnd of
            Inl (ErrRand m) \<Rightarrow> (Inl (ErrRandom m), db)
          | Inr tok \<Rightarrow>
              (case pg_CreateAPIToken now \<lparr>nt_ID = newID, nt_Name = name, nt_TokenPrefix = gk_Prefix tok,
                      nt_TokenHash = gk_Hash tok, nt_Role = role, nt_CreatedBy = actor, nt_ExpiresAt = expiresAt\<rparr>
                   [user_entry actor ''apitoken.create'' ''api_token'' (uuid_String newID) None
                      (Some (JObj [(''name'', JStr name), (''role'', JStr role),
                         (''token_prefix'', JStr (gk_Prefix tok))]))] db of
                 (Inl e, db') \<Rightarrow> (Inl (ErrStore e), db')
               | (Inr stored, db') \<Rightarrow> (Inr \<lparr>cat_Token = stored, cat_Secret = gk_Secret tok\<rparr>, db'))))"

definition RevokeAPIToken :: "time \<Rightarrow> uuid option \<Rightarrow> uuid \<Rightarrow> db \<Rightarrow> (store_error + unit) \<times> db" where
  "RevokeAPIToken now actor tokenID db = pg_RevokeAPIToken now tokenID
     [user_entry actor ''apitoken.revoke'' ''api_token'' (uuid_String tokenID) None None] db"

end
