(* ===== verification/Opamp.thy ===== *)
theory Opamp
  imports Registry GoTime TenantTokens
begin

text \<open>
  The OpAMP message handler, \<open>internal/opamp/handler.go\<close>: authentication of agent connections, enrolment,
  status reports, config offers and per-agent tokens. The handler's state is the database, the registry of
  live connections, the events handed to the webhook dispatcher, and what was sent to or done with
  connections. One call of the handler is one step.

  The protocol's bit masks come from the package protobufs and are the record \<open>OpampProto\<close>; the config
  renderer is the interface \<open>ConfigRenderer\<close>, a function of the customer and the database. Messages are
  records with the fields the handler reads; a double of an attribute is its JSON number, or \<^term>\<open>None\<close> for
  the values JSON has no number for.
\<close>

section \<open>Messages\<close>

record OpampProto =
  pb_SrvAcceptsStatus :: "64 word"
  pb_SrvOffersRemoteConfig :: "64 word"
  pb_SrvAcceptsEffectiveConfig :: "64 word"
  pb_SrvOffersConnectionSettings :: "64 word"
  pb_AgentAcceptsRemoteConfig :: "64 word"
  pb_AgentAcceptsOpAMPConnectionSettings :: "64 word"
  pb_ReportFullState :: "64 word"

datatype AnyValue =
    StringValue string
  | BoolValue bool
  | IntValue int
  | DoubleValue "string option"
  | BytesValue bytes
  | ArrayValue "AnyValue list"
  | KvlistValue "(string \<times> AnyValue) list"
  | NoValue

record AgentDescription =
  d_Identifying :: "(string \<times> AnyValue) list"
  d_NonIdentifying :: "(string \<times> AnyValue) list"

datatype RemoteConfigStatuses = RCS_UNSET | RCS_APPLIED | RCS_APPLYING | RCS_FAILED | RCS_OTHER

record RemoteConfigStatus =
  rcs_LastRemoteConfigHash :: bytes
  rcs_Status :: RemoteConfigStatuses
  rcs_ErrorMessage :: string

datatype ComponentHealth = ComponentHealth
  (ch_Healthy: bool) (ch_Status: string) (ch_LastError: string)
  (ch_StartTimeUnixNano: "64 word") (ch_StatusTimeUnixNano: "64 word")
  (ch_ComponentHealthMap: "(string \<times> ComponentHealth) list")

record AgentToServer =
  m_InstanceUid :: bytes
  m_Capabilities :: "64 word"
  m_AgentDescription :: "AgentDescription option"
  m_RemoteConfigStatus :: "RemoteConfigStatus option"
  m_EffectiveConfig :: "(string \<times> bytes) list option"
  m_Health :: "ComponentHealth option"

record ConnectionOffer =
  co_Hash :: bytes
  co_Authorization :: string
  co_Endpoint :: string

record ServerToAgent =
  s_InstanceUid :: bytes
  s_Capabilities :: "64 word"
  s_Flags :: "64 word"
  s_ErrorResponse :: "string option"
  s_RemoteConfig :: "(string \<times> bytes) option"
  s_ConnectionSettings :: "ConnectionOffer option"

section \<open>Mapping of protobuf values\<close>

definition serverCapabilities :: "OpampProto \<Rightarrow> 64 word" where
  "serverCapabilities pb = or (or (pb_SrvAcceptsStatus pb) (pb_SrvOffersRemoteConfig pb)) (pb_SrvAcceptsEffectiveConfig pb)"

definition remoteConfig :: "string \<Rightarrow> bytes \<Rightarrow> string \<times> bytes" where
  "remoteConfig body hash = (body, hash)"

fun mapRemoteConfigStatus :: "RemoteConfigStatuses \<Rightarrow> string" where
  "mapRemoteConfigStatus RCS_APPLYING = RemoteConfigApplying"
| "mapRemoteConfigStatus RCS_APPLIED = RemoteConfigApplied"
| "mapRemoteConfigStatus RCS_FAILED = RemoteConfigFailed"
| "mapRemoteConfigStatus _ = RemoteConfigUnset"

definition effectiveConfigBody :: "(string \<times> bytes) list \<Rightarrow> bytes option" where
  "effectiveConfigBody cm =
    (if cm = [] then None
     else case map_of cm '''' of
         Some body \<Rightarrow> Some body
       | None \<Rightarrow> if length cm = 1 then Some (snd (hd cm)) else None)"

fun GetStringValue :: "AnyValue \<Rightarrow> string" where
  "GetStringValue (StringValue s) = s"
| "GetStringValue _ = ''''"

definition last_attr :: "string \<Rightarrow> (string \<times> AnyValue) list \<Rightarrow> string" where
  "last_attr k kvs = foldl (\<lambda>acc (k', v). if k' = k then GetStringValue v else acc) '''' kvs"

definition agentIdentity :: "AgentDescription \<Rightarrow> string option \<times> string option" where
  "agentIdentity d =
    (let version = foldl (\<lambda>acc (k, v). if k = ''service.version'' \<and> GetStringValue v \<noteq> '''' then Some (GetStringValue v) else acc)
           None (d_Identifying d);
         serviceName = last_attr ''service.name'' (d_Identifying d);
         hostName = foldl (\<lambda>acc (k, v). if k = ''host.name'' \<and> acc = '''' then GetStringValue v else acc)
           (last_attr ''host.name'' (d_Identifying d)) (d_NonIdentifying d)
     in if hostName \<noteq> '''' then (Some hostName, version)
        else if serviceName \<noteq> '''' then (Some serviceName, version)
        else (None, version))"

text \<open>\<open>attrsToMap\<close> keeps the last value of a key; \<open>json.Marshal\<close> fails when a kept value has no JSON form.\<close>

definition attrsToMap :: "(string \<times> json option) list \<Rightarrow> (string \<times> json option) list" where
  "attrsToMap kvs = foldl (\<lambda>m (k, v). AList.update k v m) [] kvs"

definition marshal_map :: "(string \<times> json option) list \<Rightarrow> json option" where
  "marshal_map m = map_option JObj (those (map (\<lambda>(k, v). map_option (Pair k) v) m))"

fun anyValueToGo :: "AnyValue \<Rightarrow> json option" where
  "anyValueToGo (StringValue s) = Some (JStr s)"
| "anyValueToGo (BoolValue b) = Some (JBool b)"
| "anyValueToGo (IntValue i) = Some (JNum i)"
| "anyValueToGo (DoubleValue lit) = map_option JDec lit"
| "anyValueToGo (BytesValue b) = Some (JStr (hexEncode b))"
| "anyValueToGo (ArrayValue vs) = map_option JArr (those (map anyValueToGo vs))"
| "anyValueToGo (KvlistValue kvs) = marshal_map (attrsToMap (map (\<lambda>(k, v). (k, anyValueToGo v)) kvs))"
| "anyValueToGo NoValue = Some JNull"

definition descriptionJSON :: "AgentDescription \<Rightarrow> json option" where
  "descriptionJSON d = marshal_map
     [(''identifying'', anyValueToGo (KvlistValue (d_Identifying d))),
      (''nonIdentifying'', anyValueToGo (KvlistValue (d_NonIdentifying d)))]"

fun componentHealthToMap :: "ComponentHealth \<Rightarrow> json" where
  "componentHealthToMap (ComponentHealth healthy status lastError startTime statusTime children) = JObj (
     [(''healthy'', JBool healthy)] @
     (if status \<noteq> '''' then [(''status'', JStr status)] else []) @
     (if lastError \<noteq> '''' then [(''lastError'', JStr lastError)] else []) @
     (if startTime \<noteq> 0 then [(''startTime'', JStr (FormatRFC3339Nano (sint startTime)))] else []) @
     (if statusTime \<noteq> 0 then [(''statusTime'', JStr (FormatRFC3339Nano (sint statusTime)))] else []) @
     (if children \<noteq> [] then [(''components'', JObj (map (\<lambda>(k, v). (k, componentHealthToMap v)) children))] else []))"

definition healthJSON :: "ComponentHealth \<Rightarrow> json" where
  "healthJSON hlt = componentHealthToMap hlt"

section \<open>The handler\<close>

record ConnAuth =
  ca_TokenID :: uuid
  ca_CustomerID :: uuid
  ca_AgentID :: "uuid option"
  ca_ViaAgentToken :: bool

record Handler =
  h_proto :: OpampProto
  h_render :: "uuid \<Rightarrow> db \<Rightarrow> string + string"
  h_events :: bool
  h_publicEndpoint :: string

record fleet_event =
  fe_Type :: string
  fe_AgentID :: uuid
  fe_CustomerID :: uuid
  fe_Detail :: "json option"

record opamp =
  op_db :: db
  op_reg :: registry
  op_events :: "fleet_event list"
  op_sent :: "(connection \<times> ServerToAgent) list"
  op_closed :: "connection list"

text \<open>What one call draws: the clock of the server and of the database, a fresh identifier, random bytes.\<close>

record opamp_env =
  e_now :: time
  e_dbnow :: time
  e_newID :: uuid
  e_rand :: "bytes option"

definition WebhookEventAgentOffline :: string where
  "WebhookEventAgentOffline = ''agent_offline''"

definition WebhookEventAgentConfigFailed :: string where
  "WebhookEventAgentConfigFailed = ''agent_config_failed''"

definition WebhookEventAgentUnhealthy :: string where
  "WebhookEventAgentUnhealthy = ''agent_unhealthy''"

definition emitEvent :: "Handler \<Rightarrow> string \<Rightarrow> uuid \<Rightarrow> uuid \<Rightarrow> json option \<Rightarrow> opamp \<Rightarrow> opamp" where
  "emitEvent h eventType agentID customerID detail s =
    (if h_events h then s\<lparr>op_events := op_events s @ [\<lparr>fe_Type = eventType, fe_AgentID = agentID,
        fe_CustomerID = customerID, fe_Detail = detail\<rparr>]\<rparr> else s)"

definition on_db :: "(db \<Rightarrow> 'a \<times> db) \<Rightarrow> opamp \<Rightarrow> 'a \<times> opamp" where
  "on_db f s = (case f (op_db s) of (x, db') \<Rightarrow> (x, s\<lparr>op_db := db'\<rparr>))"

definition on_reg :: "(registry \<Rightarrow> registry) \<Rightarrow> opamp \<Rightarrow> opamp" where
  "on_reg f s = s\<lparr>op_reg := f (op_reg s)\<rparr>"

definition drop_conn :: "connection option \<Rightarrow> opamp \<Rightarrow> opamp" where
  "drop_conn c s = (case c of None \<Rightarrow> s | Some x \<Rightarrow> s\<lparr>op_closed := op_closed s @ [x]\<rparr>)"

subsection \<open>Authentication\<close>

datatype auth_problem =
    MissingBearer
  | MalformedToken
  | UnknownAgentToken
  | UnknownBootstrapToken
  | AgentCustomer string
  | TokenProblem token_problem

definition authenticateAgentToken :: "string \<Rightarrow> string \<Rightarrow> db \<Rightarrow> auth_problem + ConnAuth" where
  "authenticateAgentToken pfx token db =
    (case find (\<lambda>a. aa_TokenHash a = HashAPIKey token) (pg_AgentsByTokenPrefix pfx db) of
       None \<Rightarrow> Inl UnknownAgentToken
     | Some a \<Rightarrow>
         if aa_CustomerStatus a \<noteq> CustomerActive then Inl (AgentCustomer (aa_CustomerStatus a))
         else Inr \<lparr>ca_TokenID = uuid_Nil, ca_CustomerID = aa_CustomerID a, ca_AgentID = Some (aa_AgentID a),
           ca_ViaAgentToken = True\<rparr>)"

definition authenticateBootstrapToken :: "time \<Rightarrow> string \<Rightarrow> string \<Rightarrow> db \<Rightarrow> auth_problem + ConnAuth" where
  "authenticateBootstrapToken now pfx token db =
    (case find (\<lambda>t. et_TokenHash t = HashAPIKey token) (pg_ActiveBootstrapTokensByPrefix pfx db) of
       None \<Rightarrow> Inl UnknownBootstrapToken
     | Some t \<Rightarrow> (case TokenUsable t now of
           Some p \<Rightarrow> Inl (TokenProblem p)
         | None \<Rightarrow> Inr \<lparr>ca_TokenID = et_TokenID t, ca_CustomerID = et_CustomerID t, ca_AgentID = None,
             ca_ViaAgentToken = False\<rparr>))"

definition Authenticate :: "time \<Rightarrow> string \<Rightarrow> db \<Rightarrow> auth_problem + ConnAuth" where
  "Authenticate now authorization db =
    (case CutPrefix authorization ''Bearer '' of
       None \<Rightarrow> Inl MissingBearer
     | Some token \<Rightarrow>
         if token = '''' then Inl MissingBearer
         else (case ParseAgentTokenPrefix token of
             Some pfx \<Rightarrow> authenticateAgentToken pfx token db
           | None \<Rightarrow> (case ParseBootstrapTokenPrefix token of
               Some pfx \<Rightarrow> authenticateBootstrapToken now pfx token db
             | None \<Rightarrow> Inl MalformedToken)))"

subsection \<open>Resolving the agent\<close>

datatype resolved = Resolved agentConn | AskFullState | Reject

definition known_conn :: "connection option \<Rightarrow> ConnAuth \<Rightarrow> bytes \<Rightarrow> Agent \<Rightarrow> agentConn" where
  "known_conn conn auth uid agent = \<lparr>ac_conn = conn, ac_instanceUID = uid, ac_agentID = ag_ID agent,
     ac_customerID = ca_CustomerID auth,
     ac_capabilities = (case ag_Capabilities agent of None \<Rightarrow> 0 | Some c \<Rightarrow> word_of_int c),
     ac_lastAckedHash = coalesce (ag_AckedConfigHash agent) [], ac_remoteConfigStatus = ag_RemoteConfigStatus agent,
     ac_healthy = ag_Healthy agent, ac_lastSeen = zeroTime, ac_dirtySeen = False, ac_tokenOffered = False\<rparr>"

definition new_agent_of :: "opamp_env \<Rightarrow> ConnAuth \<Rightarrow> bytes \<Rightarrow> AgentDescription \<Rightarrow> 64 word \<Rightarrow> NewAgent" where
  "new_agent_of env auth uid d caps = \<lparr>na_ID = e_newID env, na_InstanceUID = uid, na_CustomerID = ca_CustomerID auth,
     na_Class = AgentClassEdge, na_Name = fst (agentIdentity d), na_AgentVersion = snd (agentIdentity d),
     na_Description = descriptionJSON d, na_Capabilities = sint caps, na_EnrolledVia = ca_TokenID auth\<rparr>"

definition enrolled_conn :: "connection option \<Rightarrow> ConnAuth \<Rightarrow> bytes \<Rightarrow> 64 word \<Rightarrow> Agent \<Rightarrow> agentConn" where
  "enrolled_conn conn auth uid caps agent = \<lparr>ac_conn = conn, ac_instanceUID = uid, ac_agentID = ag_ID agent,
     ac_customerID = ca_CustomerID auth, ac_capabilities = caps, ac_lastAckedHash = [],
     ac_remoteConfigStatus = ag_RemoteConfigStatus agent, ac_healthy = None, ac_lastSeen = zeroTime,
     ac_dirtySeen = False, ac_tokenOffered = False\<rparr>"

text \<open>After a lost enrolment race the agent is looked up once more, without a description.\<close>

function resolveAgent ::
    "opamp_env \<Rightarrow> connection option \<Rightarrow> ConnAuth \<Rightarrow> bytes \<Rightarrow> AgentDescription option \<Rightarrow> 64 word \<Rightarrow> opamp \<Rightarrow> resolved \<times> opamp" where
  "resolveAgent env conn auth uid desc caps s =
    (case pg_GetAgentByInstanceUID uid (op_db s) of
       Inr agent \<Rightarrow>
         (if ag_CustomerID agent \<noteq> Some (ca_CustomerID auth) then (Reject, s)
          else (Resolved (known_conn conn auth uid agent), s))
     | Inl e \<Rightarrow>
         (if e \<noteq> ErrNotFound then (AskFullState, s)
          else case desc of
              None \<Rightarrow> (AskFullState, s)
            | Some d \<Rightarrow>
                (case on_db (pg_EnrollAgent (e_dbnow env) (new_agent_of env auth uid d caps)) s of
                   (Inr agent, s1) \<Rightarrow> (Resolved (enrolled_conn conn auth uid caps agent), s1)
                 | (Inl e', s1) \<Rightarrow>
                     if e' = ErrConflict then resolveAgent env conn auth uid None 0 s1
                     else (AskFullState, s1))))"
  by pat_completeness auto
termination
  by (relation "measure (\<lambda>(env, conn, auth, uid, desc, caps, s). case desc of None \<Rightarrow> 0 | Some _ \<Rightarrow> 1)") auto

declare resolveAgent.simps [simp del]

subsection \<open>Reports\<close>

text \<open>The connection state \<open>st\<close> is the object the registry holds, so an assignment to one of its fields is
  an update of the registry's entry as well.\<close>

definition set_st :: "(agentConn \<Rightarrow> agentConn) \<Rightarrow> agentConn \<times> opamp \<Rightarrow> agentConn \<times> opamp" where
  "set_st f = (\<lambda>(st, s). (f st, on_reg (reg_update (ac_instanceUID st) f) s))"

definition exec_db :: "(db \<Rightarrow> 'a \<times> db) \<Rightarrow> agentConn \<times> opamp \<Rightarrow> agentConn \<times> opamp" where
  "exec_db f = (\<lambda>(st, s). (st, snd (on_db f s)))"

definition record_acked :: "string \<Rightarrow> bytes \<Rightarrow> agentConn \<times> opamp \<Rightarrow> agentConn \<times> opamp" where
  "record_acked status acked x =
    (let newHash = acked \<noteq> [] \<and> acked \<noteq> ac_lastAckedHash (fst x)
     in if acked \<noteq> [] then
          (let y = set_st (\<lambda>a. a\<lparr>ac_lastAckedHash := acked\<rparr>) x
           in if newHash then exec_db (pg_SetAgentAckedConfig (ac_agentID (fst x)) (Some acked)) y else y)
        else if status = RemoteConfigUnset then
          exec_db (pg_SetAgentAckedConfig (ac_agentID (fst x)) None) (set_st (\<lambda>a. a\<lparr>ac_lastAckedHash := []\<rparr>) x)
        else x)"

definition handleRemoteConfigStatus ::
    "Handler \<Rightarrow> opamp_env \<Rightarrow> RemoteConfigStatus \<Rightarrow> agentConn \<times> opamp \<Rightarrow> agentConn \<times> opamp" where
  "handleRemoteConfigStatus h env rcs x =
    (let status = mapRemoteConfigStatus (rcs_Status rcs);
         acked = rcs_LastRemoteConfigHash rcs;
         newHash = acked \<noteq> [] \<and> acked \<noteq> ac_lastAckedHash (fst x);
         (st, s) = record_acked status acked x;
         terminal = status = RemoteConfigApplied \<or> status = RemoteConfigFailed
     in if status = ac_remoteConfigStatus st \<and> \<not> (newHash \<and> terminal) then (st, s)
        else
          (let errMsg = (if status = RemoteConfigFailed \<and> rcs_ErrorMessage rcs \<noteq> '''' then Some (rcs_ErrorMessage rcs) else None);
               detail = JObj ([(''hash'', JStr (hexEncode acked))] @
                 (case errMsg of None \<Rightarrow> [] | Some m \<Rightarrow> [(''error'', JStr m)]));
               eventType = (if status = RemoteConfigApplied then Some ''config_applied''
                 else if status = RemoteConfigFailed then Some ''config_failed'' else None)
           in case on_db (pg_SetAgentRemoteConfigStatus (e_dbnow env) (ac_agentID st) status errMsg eventType (Some detail)) s of
                (Inl e, s1) \<Rightarrow> (st, s1)
              | (Inr _, s1) \<Rightarrow>
                  set_st (\<lambda>a. a\<lparr>ac_remoteConfigStatus := status\<rparr>)
                    (st, if status = RemoteConfigFailed
                         then emitEvent h WebhookEventAgentConfigFailed (ac_agentID st) (ac_customerID st) (Some detail) s1
                         else s1)))"

definition handleEffectiveConfig :: "(string \<times> bytes) list \<Rightarrow> agentConn \<times> opamp \<Rightarrow> agentConn \<times> opamp" where
  "handleEffectiveConfig ec x = (case effectiveConfigBody ec of
      None \<Rightarrow> x
    | Some body \<Rightarrow> exec_db (pg_SetAgentEffectiveConfig (ac_agentID (fst x)) body (Sum256 body)) x)"

definition handleHealth :: "Handler \<Rightarrow> opamp_env \<Rightarrow> ComponentHealth \<Rightarrow> agentConn \<times> opamp \<Rightarrow> agentConn \<times> opamp" where
  "handleHealth h env health x =
    (let (st, s) = x; healthy = ch_Healthy health;
         flip = (if ac_healthy st \<noteq> Some healthy then Some (if healthy then ''healthy'' else ''unhealthy'') else None);
         detail = JObj ((if ch_Status health \<noteq> '''' then [(''status'', JStr (ch_Status health))] else []) @
           (if ch_LastError health \<noteq> '''' then [(''lastError'', JStr (ch_LastError health))] else []))
     in case on_db (pg_SetAgentHealth (e_dbnow env) (ac_agentID st) (healthJSON health) healthy flip) s of
          (Inl e, s1) \<Rightarrow> (st, s1)
        | (Inr _, s1) \<Rightarrow>
            set_st (\<lambda>a. a\<lparr>ac_healthy := Some healthy\<rparr>)
              (st, if flip \<noteq> None \<and> \<not> healthy
                   then emitEvent h WebhookEventAgentUnhealthy (ac_agentID st) (ac_customerID st) (Some detail) s1
                   else s1))"

subsection \<open>Offers\<close>

definition maybeOfferConfig :: "Handler \<Rightarrow> agentConn \<Rightarrow> ServerToAgent \<Rightarrow> opamp \<Rightarrow> ServerToAgent \<times> opamp" where
  "maybeOfferConfig h st resp s =
    (if and (ac_capabilities st) (pb_AgentAcceptsRemoteConfig (h_proto h)) = 0 then (resp, s)
     else case h_render h (ac_customerID st) (op_db s) of
         Inl e \<Rightarrow> (resp, s)
       | Inr desired \<Rightarrow>
           (let hash = Sum256 desired; s1 = snd (on_db (pg_SetAgentAssignedConfig (ac_agentID st) hash) s)
            in if hash = ac_lastAckedHash st then (resp, s1)
               else (resp\<lparr>s_RemoteConfig := Some (remoteConfig desired hash),
                       s_Flags := or (s_Flags resp) (pb_ReportFullState (h_proto h))\<rparr>, s1)))"

definition maybeOfferAgentToken :: "Handler \<Rightarrow> opamp_env \<Rightarrow> agentConn \<Rightarrow> ServerToAgent \<Rightarrow> opamp \<Rightarrow> ServerToAgent \<times> opamp" where
  "maybeOfferAgentToken h env st resp s =
    (if ac_tokenOffered st then (resp, s)
     else if and (ac_capabilities st) (pb_AgentAcceptsOpAMPConnectionSettings (h_proto h)) = 0 then (resp, s)
     else case GenerateAgentToken (e_rand env) of
         Inl e \<Rightarrow> (resp, s)
       | Inr gen \<Rightarrow>
           (case on_db (pg_SetAgentToken (ac_agentID st) (gk_Prefix gen) (gk_Hash gen) (e_now env)) s of
              (Inl e, s1) \<Rightarrow> (resp, s1)
            | (Inr _, s1) \<Rightarrow>
                (resp\<lparr>s_Capabilities := or (s_Capabilities resp) (pb_SrvOffersConnectionSettings (h_proto h)),
                   s_ConnectionSettings := Some \<lparr>co_Hash = Sum256 (gk_Prefix gen),
                     co_Authorization = ''Bearer '' @ gk_Secret gen, co_Endpoint = h_publicEndpoint h\<rparr>\<rparr>,
                 snd (set_st (\<lambda>a. a\<lparr>ac_tokenOffered := True\<rparr>) (st, s1)))))"

subsection \<open>Messages, connections, pushes\<close>

definition base_response :: "Handler \<Rightarrow> bytes \<Rightarrow> ServerToAgent" where
  "base_response h uid = \<lparr>s_InstanceUid = uid, s_Capabilities = serverCapabilities (h_proto h), s_Flags = 0,
     s_ErrorResponse = None, s_RemoteConfig = None, s_ConnectionSettings = None\<rparr>"

definition message_agent :: "opamp_env \<Rightarrow> connection option \<Rightarrow> ConnAuth \<Rightarrow> AgentToServer \<Rightarrow> opamp \<Rightarrow> resolved \<times> opamp" where
  "message_agent env conn auth msg s =
    (case reg_get (m_InstanceUid msg) (op_reg s) of
       None \<Rightarrow> resolveAgent env conn auth (m_InstanceUid msg) (m_AgentDescription msg) (m_Capabilities msg) s
     | Some st \<Rightarrow> (if ac_customerID st \<noteq> ca_CustomerID auth then Reject else Resolved st, s))"

definition refresh_description :: "AgentToServer \<Rightarrow> uuid \<Rightarrow> opamp \<Rightarrow> opamp" where
  "refresh_description msg agentID s =
    (case m_AgentDescription msg of
       None \<Rightarrow> s
     | Some d \<Rightarrow> (case descriptionJSON d of
           None \<Rightarrow> s
         | Some desc \<Rightarrow> snd (on_db (pg_UpdateAgentDescription agentID (fst (agentIdentity d)) (snd (agentIdentity d))
             (Some desc) (if m_Capabilities msg \<noteq> 0 then Some (sint (m_Capabilities msg)) else None)) s)))"

definition handle_reports :: "Handler \<Rightarrow> opamp_env \<Rightarrow> AgentToServer \<Rightarrow> agentConn \<times> opamp \<Rightarrow> agentConn \<times> opamp" where
  "handle_reports h env msg x0 =
    (let x1 = (case m_RemoteConfigStatus msg of None \<Rightarrow> x0 | Some rcs \<Rightarrow> handleRemoteConfigStatus h env rcs x0);
         x2 = (case m_EffectiveConfig msg of None \<Rightarrow> x1 | Some ec \<Rightarrow> handleEffectiveConfig ec x1)
     in case m_Health msg of None \<Rightarrow> x2 | Some health \<Rightarrow> handleHealth h env health x2)"

definition handle_resolved ::
    "Handler \<Rightarrow> opamp_env \<Rightarrow> connection option \<Rightarrow> ConnAuth \<Rightarrow> AgentToServer \<Rightarrow> bool \<Rightarrow> bool \<Rightarrow> agentConn \<Rightarrow> opamp \<Rightarrow>
     ServerToAgent \<times> opamp" where
  "handle_resolved h env conn auth msg known newConn st0 s0 =
    (let resp = base_response h (m_InstanceUid msg)
     in if ca_ViaAgentToken auth \<and> ca_AgentID auth \<noteq> None \<and> ca_AgentID auth \<noteq> Some (ac_agentID st0)
        then (resp\<lparr>s_ErrorResponse := Some ''token does not match this agent''\<rparr>, drop_conn conn s0)
        else
          (let st1 = st0\<lparr>ac_conn := conn, ac_lastSeen := e_now env, ac_dirtySeen := True,
                 ac_capabilities := (if m_Capabilities msg \<noteq> 0 then m_Capabilities msg else ac_capabilities st0)\<rparr>;
               s1 = (if known then refresh_description msg (ac_agentID st1) s0 else s0);
               s2 = on_reg (reg_put st1) s1;
               s3 = (if newConn then snd (on_db (pg_SetAgentConnected (e_dbnow env) (ac_agentID st1) True (e_now env)) s2) else s2);
               (st4, s4) = handle_reports h env msg (st1, s3);
               (resp5, s5) = (if newConn \<or> m_AgentDescription msg \<noteq> None then maybeOfferConfig h st4 resp s4 else (resp, s4))
           in if newConn \<and> \<not> ca_ViaAgentToken auth then maybeOfferAgentToken h env st4 resp5 s5 else (resp5, s5)))"

definition HandleMessage ::
    "Handler \<Rightarrow> opamp_env \<Rightarrow> connection option \<Rightarrow> ConnAuth \<Rightarrow> AgentToServer \<Rightarrow> opamp \<Rightarrow> ServerToAgent \<times> opamp" where
  "HandleMessage h env conn auth msg s =
    (let resp = base_response h (m_InstanceUid msg); prev = reg_get (m_InstanceUid msg) (op_reg s);
         newConn = (case prev of None \<Rightarrow> True | Some p \<Rightarrow> ac_conn p \<noteq> conn)
     in if m_InstanceUid msg = [] then (resp\<lparr>s_ErrorResponse := Some ''missing instance_uid''\<rparr>, s)
        else case message_agent env conn auth msg s of
            (Reject, s1) \<Rightarrow> (resp\<lparr>s_ErrorResponse := Some ''instance uid is bound to another customer''\<rparr>, drop_conn conn s1)
          | (AskFullState, s1) \<Rightarrow> (resp\<lparr>s_Flags := or (s_Flags resp) (pb_ReportFullState (h_proto h))\<rparr>, s1)
          | (Resolved st, s1) \<Rightarrow> handle_resolved h env conn auth msg (prev \<noteq> None) newConn st s1)"

definition HandleConnectionClose :: "Handler \<Rightarrow> opamp_env \<Rightarrow> connection \<Rightarrow> opamp \<Rightarrow> opamp" where
  "HandleConnectionClose h env conn s =
    (case removeConn conn (op_reg s) of
       (None, r) \<Rightarrow> s\<lparr>op_reg := r\<rparr>
     | (Some st, r) \<Rightarrow>
         (let s1 = s\<lparr>op_reg := r\<rparr>; at = (if IsZero (ac_lastSeen st) then e_now env else ac_lastSeen st)
          in if ac_agentID st = uuid_Nil then s1
             else emitEvent h WebhookEventAgentOffline (ac_agentID st) (ac_customerID st) None
               (snd (on_db (pg_SetAgentConnected (e_dbnow env) (ac_agentID st) False at) s1))))"

definition push_config :: "Handler \<Rightarrow> (connection \<Rightarrow> ServerToAgent \<Rightarrow> bool) \<Rightarrow> string \<Rightarrow> nat \<times> opamp \<Rightarrow> agentConn \<Rightarrow> nat \<times> opamp" where
  "push_config h send desired = (\<lambda>(pushed, s) st.
    (if and (ac_capabilities st) (pb_AgentAcceptsRemoteConfig (h_proto h)) = 0 then (pushed, s)
     else
       (let hash = Sum256 desired; s1 = snd (on_db (pg_SetAgentAssignedConfig (ac_agentID st) hash) s)
        in case ac_conn st of
             None \<Rightarrow> (pushed, s1)
           | Some c \<Rightarrow>
               (let msg = (base_response h (ac_instanceUID st))\<lparr>s_RemoteConfig := Some (remoteConfig desired hash),
                      s_Flags := pb_ReportFullState (h_proto h)\<rparr>
                in if send c msg then (pushed + 1, s1\<lparr>op_sent := op_sent s1 @ [(c, msg)]\<rparr>) else (pushed, s1)))))"

definition EdgeConfigChanged ::
    "Handler \<Rightarrow> (connection \<Rightarrow> ServerToAgent \<Rightarrow> bool) \<Rightarrow> uuid \<Rightarrow> opamp \<Rightarrow> (string + nat \<times> nat) \<times> opamp" where
  "EdgeConfigChanged h send customerID s =
    (case h_render h customerID (op_db s) of
       Inl e \<Rightarrow> (Inl (''render edge config: '' @ e), s)
     | Inr desired \<Rightarrow>
         (let (pushed, s1) = foldl (push_config h send desired) (0, s) (connsForCustomer customerID (op_reg s));
              offline = pg_ListAgents \<lparr>af_Class = Some AgentClassEdge, af_CustomerID = Some customerID,
                af_Connected = Some False\<rparr> (op_db s1)
          in (Inr (pushed, length offline), s1)))"

definition FlushSeen :: "opamp \<Rightarrow> opamp" where
  "FlushSeen s =
    (let (seen, r) = drainDirtySeen (op_reg s); s1 = s\<lparr>op_reg := r\<rparr>
     in if seen = [] then s1 else s1\<lparr>op_db := pg_TouchAgents seen (op_db s1)\<rparr>)"

end
