(* ===== verification/OpampSafety.thy ===== *)
theory OpampSafety
  imports Opamp PipelineService
begin

text \<open>
  What the OpAMP handler may touch. A message is handled on behalf of the customer its connection was
  authenticated for: only rows of that customer's agents change, only its config is offered, and only its
  events are emitted.
\<close>

section \<open>Updates of one agent\<close>

definition touches :: "uuid \<Rightarrow> db \<Rightarrow> db \<Rightarrow> bool" where
  "touches i db db' \<longleftrightarrow> (\<exists>g. keeps_agent_keys g \<and> agents db' = upd_where (\<lambda>a. ag_ID a = i) g (agents db)) \<and>
     customers db' = customers db \<and> pipelines db' = pipelines db \<and> pipeline_versions db' = pipeline_versions db"

lemma upd_where_id: "upd_where P (\<lambda>a. a) xs = xs"
  by (induction xs) (simp_all add: upd_where_def)

lemma keeps_keys_id: "keeps_agent_keys (\<lambda>a. a)"
  by (simp add: keeps_agent_keys_def)

lemma touches_refl: "touches i db db"
  unfolding touches_def using keeps_keys_id upd_where_id by metis

lemma touches_trans:
  assumes "touches i a b" "touches i b c"
  shows "touches i a c"
proof -
  from assms obtain f g where f: "keeps_agent_keys f" "agents b = upd_where (\<lambda>a. ag_ID a = i) f (agents a)"
    and g: "keeps_agent_keys g" "agents c = upd_where (\<lambda>a. ag_ID a = i) g (agents b)"
    unfolding touches_def by blast
  have "agents c = upd_where (\<lambda>a. ag_ID a = i) (g \<circ> f) (agents a)"
    using f g by (simp add: upd_where_def keeps_agent_keys_def)
  moreover have "keeps_agent_keys (g \<circ> f)" using f g by (simp add: keeps_agent_keys_def)
  ultimately show ?thesis using assms unfolding touches_def by metis
qed

lemma touches_upd:
  "keeps_agent_keys f \<Longrightarrow> touches i db (db\<lparr>agents := upd_where (\<lambda>a. ag_ID a = i) f (agents db)\<rparr>)"
  unfolding touches_def by auto

lemma touches_frame:
  "agents db' = agents db \<Longrightarrow> customers db' = customers db \<Longrightarrow> pipelines db' = pipelines db \<Longrightarrow>
   pipeline_versions db' = pipeline_versions db \<Longrightarrow> touches i db db'"
  using touches_refl [of i db] by (simp add: touches_def)

lemma touches_upd_agent: "upd_agent i f db = Inr db' \<Longrightarrow> keeps_agent_keys f \<Longrightarrow> touches i db db'"
  unfolding upd_agent_Inr using touches_upd by blast

lemma touches_exec: "keeps_agent_keys f \<Longrightarrow> touches i db (snd (exec_agent i f db))"
  by (auto simp: exec_agent_def touches_refl split: sum.splits intro: touches_upd_agent)

lemma touches_event: "insertAgentEvent now j t d db = Inr db' \<Longrightarrow> touches i db db'"
  by (auto simp: insertAgentEvent_Inr intro!: touches_frame)

lemma touches_maybe_event: "maybe_event now j t d db = Inr (x, db') \<Longrightarrow> touches i db db'"
  by (auto simp: maybe_event_def touches_refl split: option.splits sum.splits dest: touches_event)

lemma touches_inTx:
  "(\<And>x db'. fn db = Inr (x, db') \<Longrightarrow> touches i db db') \<Longrightarrow> touches i db (snd (inTx fn db))"
  by (rule inTx_keeps) (simp_all add: touches_refl)

lemma agent_ops_touch:
  "touches i db (snd (pg_SetAgentToken i pfx hash at db))"
  "touches i db (snd (pg_UpdateAgentDescription i name ver desc caps db))"
  "touches i db (snd (pg_SetAgentAssignedConfig i hash db))"
  "touches i db (snd (pg_SetAgentAckedConfig i ohash db))"
  "touches i db (snd (pg_SetAgentEffectiveConfig i yaml hash db))"
  unfolding pg_SetAgentToken_def pg_UpdateAgentDescription_def pg_SetAgentAssignedConfig_def
    pg_SetAgentAckedConfig_def pg_SetAgentEffectiveConfig_def snd_conv
  by (intro touches_upd touches_exec; simp add: keeps_agent_keys_def)+

lemma agent_tx_touch:
  "touches i db (snd (pg_SetAgentConnected now i c at db))"
  "touches i db (snd (pg_SetAgentRemoteConfigStatus now i status msg et d db))"
  "touches i db (snd (pg_SetAgentHealth now i h b et db))"
  unfolding pg_SetAgentConnected_def pg_SetAgentRemoteConfigStatus_def pg_SetAgentHealth_def
  by (rule touches_inTx, auto split: sum.splits if_splits simp: keeps_agent_keys_def
        dest!: touches_upd_agent touches_event [where i = i] touches_maybe_event [where i = i] intro: touches_trans)+

section \<open>Reports and offers\<close>

definition same_conn :: "agentConn \<Rightarrow> agentConn \<Rightarrow> bool" where
  "same_conn x y \<longleftrightarrow> ac_instanceUID y = ac_instanceUID x \<and> ac_conn y = ac_conn x \<and> ac_agentID y = ac_agentID x \<and>
     ac_customerID y = ac_customerID x"

definition reg_evolves :: "bytes \<Rightarrow> registry \<Rightarrow> registry \<Rightarrow> bool" where
  "reg_evolves uid r r' \<longleftrightarrow> (reg_inv r \<longrightarrow> reg_inv r') \<and> (\<forall>u. u \<noteq> uid \<longrightarrow> reg_get u r' = reg_get u r) \<and>
     rel_option same_conn (reg_get uid r) (reg_get uid r')"

definition own_events :: "uuid \<Rightarrow> opamp \<Rightarrow> opamp \<Rightarrow> bool" where
  "own_events cid s s' \<longleftrightarrow> (\<exists>es. op_events s' = op_events s @ es \<and> list_all (\<lambda>e. fe_CustomerID e = cid) es)"

definition serves :: "agentConn \<times> opamp \<Rightarrow> agentConn \<times> opamp \<Rightarrow> bool" where
  "serves x y \<longleftrightarrow> same_conn (fst x) (fst y) \<and> touches (ac_agentID (fst x)) (op_db (snd x)) (op_db (snd y)) \<and>
     own_events (ac_customerID (fst x)) (snd x) (snd y) \<and>
     reg_evolves (ac_instanceUID (fst x)) (op_reg (snd x)) (op_reg (snd y))"

lemma same_conn_refl [simp]: "same_conn x x"
  by (simp add: same_conn_def)

lemma reg_evolves_refl: "reg_evolves uid r r"
  by (simp add: reg_evolves_def option.rel_refl)

lemma reg_evolves_trans:
  assumes "reg_evolves u a b" "reg_evolves u b c"
  shows "reg_evolves u a c"
proof -
  have t: "same_conn x y \<Longrightarrow> same_conn y z \<Longrightarrow> same_conn x z" for x y z by (simp add: same_conn_def)
  have "rel_option same_conn x y \<Longrightarrow> rel_option same_conn y z \<Longrightarrow> rel_option same_conn x z" for x y z
    by (cases x; cases y; cases z) (auto intro: t)
  then show ?thesis using assms unfolding reg_evolves_def by metis
qed

lemma own_events_refl: "own_events cid s s"
  unfolding own_events_def by (intro exI [of _ "[]"]) simp

lemma own_events_trans: "own_events cid a b \<Longrightarrow> own_events cid b c \<Longrightarrow> own_events cid a c"
  unfolding own_events_def by auto

lemma serves_refl: "serves x x"
  by (simp add: serves_def touches_refl own_events_refl reg_evolves_refl)

lemma serves_trans:
  assumes "serves x y" "serves y z"
  shows "serves x z"
proof -
  have "same_conn (fst x) (fst y)" "same_conn (fst y) (fst z)" using assms by (auto simp: serves_def)
  then have e: "ac_agentID (fst y) = ac_agentID (fst x)" "ac_customerID (fst y) = ac_customerID (fst x)"
    "ac_instanceUID (fst y) = ac_instanceUID (fst x)" "same_conn (fst x) (fst z)" by (auto simp: same_conn_def)
  show ?thesis
    using assms unfolding serves_def e using touches_trans own_events_trans reg_evolves_trans e(4) by blast
qed

lemma serves_db: "touches (ac_agentID st) (op_db s) db' \<Longrightarrow> serves (st, s) (st, s\<lparr>op_db := db'\<rparr>)"
  unfolding serves_def own_events_def by (simp add: reg_evolves_refl)

lemma serves_exec_db: "touches (ac_agentID (fst x)) (op_db (snd x)) (snd (f (op_db (snd x)))) \<Longrightarrow> serves x (exec_db f x)"
  using serves_db [of "fst x" "snd x"] by (cases x) (auto simp: exec_db_def on_db_def split: prod.splits)

lemma serves_on_db:
  assumes "on_db f s = (r, s')" "touches (ac_agentID st) (op_db s) (snd (f (op_db s)))"
  shows "serves (st, s) (st, s')"
  using assms serves_db [of st s] by (auto simp: on_db_def split: prod.splits)

lemma serves_set_st:
  assumes "\<And>a. same_conn a (f a)"
  shows "serves x (set_st f x)"
proof -
  obtain st s where x: "x = (st, s)" by fastforce
  have k: "ac_instanceUID (f a) = ac_instanceUID a \<and> ac_conn (f a) = ac_conn a" for a
    using assms [of a] by (simp add: same_conn_def)
  have "reg_evolves (ac_instanceUID st) (op_reg s) (reg_update (ac_instanceUID st) f (op_reg s))"
    unfolding reg_evolves_def using reg_update_inv [of "op_reg s" f] k assms
    by (auto simp: reg.get_update option.rel_map intro!: option.rel_refl_strong)
  then show ?thesis using assms [of st]
    by (simp add: x serves_def set_st_def on_reg_def touches_refl own_events_def)
qed

lemma serves_emit: "serves (st, s) (st, emitEvent h t (ac_agentID st) (ac_customerID st) d s)"
  unfolding serves_def own_events_def by (simp add: emitEvent_def touches_refl reg_evolves_refl)

lemma record_acked_serves: "serves x (record_acked status acked x)"
proof -
  have s: "serves x (set_st (\<lambda>a. a\<lparr>ac_lastAckedHash := h\<rparr>) x)" for h
    by (rule serves_set_st) (simp add: same_conn_def)
  have i: "ac_agentID (fst (set_st (\<lambda>a. a\<lparr>ac_lastAckedHash := h\<rparr>) x)) = ac_agentID (fst x)" for h
    by (simp add: set_st_def case_prod_unfold)
  have "serves x (exec_db (pg_SetAgentAckedConfig (ac_agentID (fst x)) o') (set_st (\<lambda>a. a\<lparr>ac_lastAckedHash := h\<rparr>) x))" for h o'
    by (rule serves_trans [OF s serves_exec_db]) (simp only: i agent_ops_touch(4))
  with s show ?thesis by (simp add: record_acked_def Let_def serves_refl)
qed

text \<open>A store call whose error is logged, and what is done with the state when it succeeds.\<close>

lemma serves_then:
  assumes "touches (ac_agentID st) (op_db s) (snd (f (op_db s)))" "\<And>s1. serves (st, s1) (k s1)"
  shows "serves (st, s) (case on_db f s of (Inl e, s1) \<Rightarrow> (st, s1) | (Inr _, s1) \<Rightarrow> k s1)"
proof (cases "on_db f s")
  case (Pair r s1)
  have "serves (st, s) (st, s1)" by (rule serves_on_db [OF Pair assms(1)])
  then show ?thesis using serves_trans [OF _ assms(2)] Pair by (cases r) auto
qed

lemma handleRemoteConfigStatus_serves: "serves x (handleRemoteConfigStatus h env rcs x)"
proof -
  obtain st s where r: "record_acked (mapRemoteConfigStatus (rcs_Status rcs)) (rcs_LastRemoteConfigHash rcs) x = (st, s)"
    by fastforce
  have 1: "serves x (st, s)" using record_acked_serves [of x] r by metis
  have k: "serves (st, s1) (set_st (\<lambda>a. a\<lparr>ac_remoteConfigStatus := status\<rparr>)
      (st, if b then emitEvent h t (ac_agentID st) (ac_customerID st) d s1 else s1))" for status b t d s1
  proof (rule serves_trans)
    show "serves (st, s1) (st, if b then emitEvent h t (ac_agentID st) (ac_customerID st) d s1 else s1)"
      by (simp add: serves_emit serves_refl)
  qed (rule serves_set_st, simp add: same_conn_def)
  show ?thesis
    unfolding handleRemoteConfigStatus_def Let_def r prod.case
    by (rule if_split [THEN iffD2]) (intro conjI impI 1 serves_trans [OF 1 serves_then] agent_tx_touch k)
qed

lemma handleEffectiveConfig_serves: "serves x (handleEffectiveConfig ec x)"
  by (auto simp: handleEffectiveConfig_def serves_refl agent_ops_touch intro!: serves_exec_db split: option.splits)

lemma handleHealth_serves: "serves x (handleHealth h env health x)"
proof -
  obtain st s where x: "x = (st, s)" by fastforce
  have k: "serves (st, s1) (set_st (\<lambda>a. a\<lparr>ac_healthy := v\<rparr>)
      (st, if b then emitEvent h t (ac_agentID st) (ac_customerID st) d s1 else s1))" for v b t d s1
  proof (rule serves_trans)
    show "serves (st, s1) (st, if b then emitEvent h t (ac_agentID st) (ac_customerID st) d s1 else s1)"
      by (simp add: serves_emit serves_refl)
  qed (rule serves_set_st, simp add: same_conn_def)
  show ?thesis
    unfolding handleHealth_def Let_def x prod.case by (intro serves_then agent_tx_touch k)
qed

lemma handle_reports_serves: "serves x (handle_reports h env msg x)"
proof -
  define x1 where "x1 = (case m_RemoteConfigStatus msg of None \<Rightarrow> x | Some rcs \<Rightarrow> handleRemoteConfigStatus h env rcs x)"
  define x2 where "x2 = (case m_EffectiveConfig msg of None \<Rightarrow> x1 | Some ec \<Rightarrow> handleEffectiveConfig ec x1)"
  have "serves x x1" by (simp add: x1_def serves_refl handleRemoteConfigStatus_serves split: option.splits)
  moreover have "serves x1 x2" by (simp add: x2_def serves_refl handleEffectiveConfig_serves split: option.splits)
  moreover have "serves x2 (handle_reports h env msg x)"
    unfolding handle_reports_def x1_def [symmetric] Let_def x2_def [symmetric]
    by (simp add: serves_refl handleHealth_serves split: option.splits)
  ultimately show ?thesis using serves_trans by blast
qed

section \<open>The renderer's interface\<close>

text \<open>The handler relies on a renderer that reads nothing of the fleet tables.\<close>

locale config_renderer =
  fixes render :: "uuid \<Rightarrow> db \<Rightarrow> string + string"
  assumes render_frame: "customers db' = customers db \<Longrightarrow> pipelines db' = pipelines db \<Longrightarrow>
    pipeline_versions db' = pipeline_versions db \<Longrightarrow> render cid db' = render cid db"
begin

lemma render_touches: "touches i db db' \<Longrightarrow> render cid db' = render cid db"
  by (rule render_frame) (auto simp: touches_def)

lemma maybeOfferConfig_offer:
  assumes "h_render h = render" "maybeOfferConfig h st resp s = (resp', s')" "s_RemoteConfig resp = None"
    "s_RemoteConfig resp' = Some (body, hash)"
  shows "render (ac_customerID st) (op_db s) = Inr body \<and> hash = Sum256 body"
  using assms by (auto simp: maybeOfferConfig_def Let_def remoteConfig_def split: if_splits sum.splits)

end

interpretation edge: config_renderer "RenderEdgeCurrent marshal cipher" for marshal :: "ynode \<Rightarrow> string + string" and cipher
  by unfold_locales
    (simp only: RenderEdgeCurrent_def activeRenderPipelines_def pg_ListActivePipelines_def joined_pipelines_def)

lemma maybeOfferConfig_serves:
  assumes "maybeOfferConfig h st resp s = (resp', s')"
  shows "serves (st, s) (st, s')" "s_ErrorResponse resp' = s_ErrorResponse resp"
proof -
  have "serves (st, s) (st, snd (on_db (pg_SetAgentAssignedConfig (ac_agentID st) hash) s))" for hash
    by (rule serves_on_db [where r = "fst (on_db (pg_SetAgentAssignedConfig (ac_agentID st) hash) s)"])
      (simp, rule agent_ops_touch)
  then show "serves (st, s) (st, s')" "s_ErrorResponse resp' = s_ErrorResponse resp"
    using assms by (auto simp: maybeOfferConfig_def Let_def serves_refl split: if_splits sum.splits)
qed

lemma maybeOfferAgentToken_serves:
  assumes "maybeOfferAgentToken h env st resp s = (resp', s')"
  shows "\<exists>st'. serves (st, s) (st', s')" "s_RemoteConfig resp' = s_RemoteConfig resp"
proof -
  have d: "serves (st, s) (st, s1)" if "on_db (pg_SetAgentToken (ac_agentID st) p hash at) s = (r, s1)" for p hash at r s1
    by (rule serves_on_db [OF that]) (rule agent_ops_touch)
  have t: "serves (st, s1) (set_st (\<lambda>a. a\<lparr>ac_tokenOffered := True\<rparr>) (st, s1))" for s1
    by (rule serves_set_st) (simp add: same_conn_def)
  have "serves (st, s) (st, s') \<or> (\<exists>s1. serves (st, s) (st, s1) \<and> s' = snd (set_st (\<lambda>a. a\<lparr>ac_tokenOffered := True\<rparr>) (st, s1)))"
    using assms serves_refl
    by (auto simp: maybeOfferAgentToken_def split: if_splits sum.splits prod.splits dest!: d)
  then show "\<exists>st'. serves (st, s) (st', s')" using serves_trans t by (metis prod.collapse)
  show "s_RemoteConfig resp' = s_RemoteConfig resp"
    using assms by (auto simp: maybeOfferAgentToken_def split: if_splits sum.splits prod.splits)
qed

section \<open>Resolving an agent\<close>

definition agent_bound :: "db \<Rightarrow> uuid \<Rightarrow> uuid \<Rightarrow> bool" where
  "agent_bound db i cid \<longleftrightarrow> (\<forall>a \<in> set (agents db). ag_ID a = i \<longrightarrow> ag_CustomerID a = Some cid)"

definition conn_bound :: "db \<Rightarrow> agentConn \<Rightarrow> bool" where
  "conn_bound db st \<longleftrightarrow> agent_bound db (ac_agentID st) (ac_customerID st)"

definition opamp_inv :: "opamp \<Rightarrow> bool" where
  "opamp_inv s \<longleftrightarrow> reg_inv (op_reg s) \<and> distinct (agent_ids (op_db s)) \<and> reg.holds (conn_bound (op_db s)) (op_reg s)"

lemma touches_bound: "touches i db db' \<Longrightarrow> agent_bound db j cid \<Longrightarrow> agent_bound db' j cid"
  unfolding touches_def agent_bound_def keeps_agent_keys_def by (force simp: upd_where_def)

lemma touches_ids: "touches i db db' \<Longrightarrow> agent_ids db' = agent_ids db"
  unfolding touches_def keeps_agent_keys_def by (auto simp: id_list_defs upd_where_def)

definition others :: "uuid \<Rightarrow> db \<Rightarrow> agent_row list" where
  "others cid db = filter (\<lambda>a. ag_CustomerID a \<noteq> Some cid) (agents db)"

lemma touches_others:
  assumes "touches i db db'" "agent_bound db i cid"
  shows "others cid db' = others cid db"
proof -
  from assms obtain g where g: "keeps_agent_keys g" "agents db' = upd_where (\<lambda>a. ag_ID a = i) g (agents db)"
    by (auto simp: touches_def)
  have "filter (\<lambda>a. ag_CustomerID a \<noteq> Some cid) (upd_where (\<lambda>a. ag_ID a = i) g as) =
      filter (\<lambda>a. ag_CustomerID a \<noteq> Some cid) as" if "\<forall>a \<in> set as. ag_ID a = i \<longrightarrow> ag_CustomerID a = Some cid" for as
    using that g(1) by (induction as) (auto simp: upd_where_def keeps_agent_keys_def)
  with g(2) assms(2) show ?thesis by (simp add: others_def agent_bound_def)
qed

lemma touches_rest: "touches i db db' \<Longrightarrow> filter (\<lambda>a. ag_ID a \<noteq> i) (agents db') = filter (\<lambda>a. ag_ID a \<noteq> i) (agents db)"
proof -
  have "filter (\<lambda>a. ag_ID a \<noteq> i) (upd_where (\<lambda>a. ag_ID a = i) g as) = filter (\<lambda>a. ag_ID a \<noteq> i) as"
    if "keeps_agent_keys g" for g as
    using that by (induction as) (auto simp: upd_where_def keeps_agent_keys_def)
  then show "touches i db db' \<Longrightarrow> ?thesis" by (auto simp: touches_def)
qed

lemma EnrollAgent_rows:
  assumes "pg_EnrollAgent now a db = (Inr out, db')"
  shows "agents db' = agents db @ [new_agent_row now a]" "customers db' = customers db" "pipelines db' = pipelines db"
    "pipeline_versions db' = pipeline_versions db" "ag_ID out = na_ID a" "na_EnrolledVia a \<in> set (bootstrap_ids db)"
    "na_ID a \<notin> set (agent_ids db)"
proof -
  from assms obtain db1 db2 where 1: "insert_agent now a db = Inr db1" and 2: "increment_used_count (na_EnrolledVia a) db1 = Inr db2"
    and 3: "insertAgentEvent now (na_ID a) ''enrolled'' (Some (JObj [(''token'', JStr (uuid_String (na_EnrolledVia a)))])) db2 = Inr db'"
    and 4: "pg_GetAgent (na_ID a) db' = Inr out"
    by (rule EnrollAgent_body)
  note r = 1 [unfolded insert_agent_Inr] increment_Inr [OF 2] 3 [unfolded insertAgentEvent_Inr]
  show "agents db' = agents db @ [new_agent_row now a]" "customers db' = customers db" "pipelines db' = pipelines db"
    "pipeline_versions db' = pipeline_versions db" "na_EnrolledVia a \<in> set (bootstrap_ids db)" "na_ID a \<notin> set (agent_ids db)"
    using r by simp_all
  from 4 obtain x where "find (\<lambda>a'. ag_ID a' = na_ID a) (agents db') = Some x" "out = agent_view db' x"
    by (auto simp: pg_GetAgent_def split: option.splits)
  then show "ag_ID out = na_ID a" by (auto simp: agent_view_def agent_cols.defs dest: find_SomeD)
qed

lemma resolveAgent_known:
  assumes "pg_GetAgentByInstanceUID uid (op_db s) = Inr agent" "ag_CustomerID agent = Some cid"
  shows "\<exists>a \<in> set (agents (op_db s)). ag_ID a = ag_ID agent \<and> ag_CustomerID a = Some cid"
  using assms by (auto simp: pg_GetAgentByInstanceUID_def agent_view_def agent_cols.defs split: option.splits dest!: find_SomeD)

definition resolves_to :: "opamp_env \<Rightarrow> connection option \<Rightarrow> ConnAuth \<Rightarrow> bytes \<Rightarrow> opamp \<Rightarrow> resolved \<times> opamp \<Rightarrow> bool" where
  "resolves_to env conn auth uid s r \<longleftrightarrow>
    (snd r = s \<and> (\<forall>st. fst r = Resolved st \<longrightarrow> ac_instanceUID st = uid \<and> ac_customerID st = ca_CustomerID auth \<and>
        (\<exists>a \<in> set (agents (op_db s)). ag_ID a = ac_agentID st \<and> ag_CustomerID a = Some (ca_CustomerID auth)))) \<or>
    (\<exists>d caps agent db'. pg_EnrollAgent (e_dbnow env) (new_agent_of env auth uid d caps) (op_db s) = (Inr agent, db') \<and>
        snd r = s\<lparr>op_db := db'\<rparr> \<and> fst r = Resolved (enrolled_conn conn auth uid caps agent))"

lemma on_db_enroll_error: "on_db (pg_EnrollAgent now a) s = (Inl e, s1) \<Longrightarrow> s1 = s"
  by (auto simp: on_db_def pg_EnrollAgent_def inTx_error split: prod.splits)

lemma resolveAgent_resolves: "resolves_to env conn auth uid s (resolveAgent env conn auth uid desc caps s)"
proof (induction env conn auth uid desc caps s rule: resolveAgent.induct)
  case (1 env conn auth uid desc caps s)
  show ?case
  proof (cases "pg_GetAgentByInstanceUID uid (op_db s)")
    case (Inr agent)
    then show ?thesis using resolveAgent_known [OF Inr]
      by (subst resolveAgent.simps) (auto simp: resolves_to_def known_conn_def)
  next
    case (Inl e)
    show ?thesis
    proof (cases "e = ErrNotFound \<and> desc \<noteq> None")
      case False
      then show ?thesis using Inl by (subst resolveAgent.simps) (auto simp: resolves_to_def split: option.splits)
    next
      case True
      then obtain d where d: "desc = Some d" and e: "e = ErrNotFound" by blast
      obtain r s1 where en: "on_db (pg_EnrollAgent (e_dbnow env) (new_agent_of env auth uid d caps)) s = (r, s1)" by fastforce
      show ?thesis
      proof (cases r)
        case (Inr agent)
        have "resolveAgent env conn auth uid desc caps s = (Resolved (enrolled_conn conn auth uid caps agent), s1)"
          using Inl Inr d e en by (subst resolveAgent.simps) simp
        moreover have "\<exists>db'. pg_EnrollAgent (e_dbnow env) (new_agent_of env auth uid d caps) (op_db s) = (Inr agent, db') \<and>
            s1 = s\<lparr>op_db := db'\<rparr>"
          using en Inr by (auto simp: on_db_def split: prod.splits)
        ultimately show ?thesis unfolding resolves_to_def fst_conv snd_conv by (intro disjI2) auto
      next
        case (Inl e')
        then have s1: "s1 = s" using en on_db_enroll_error by blast
        have "resolves_to env conn auth uid s (resolveAgent env conn auth uid None 0 s)" if "e' = ErrConflict"
          using 1 [OF \<open>pg_GetAgentByInstanceUID uid (op_db s) = Inl e\<close> _ d en [symmetric] Inl that] e s1 by simp
        then show ?thesis using \<open>pg_GetAgentByInstanceUID uid (op_db s) = Inl e\<close> Inl d e en s1
          by (subst resolveAgent.simps) (auto simp: resolves_to_def)
      qed
    qed
  qed
qed

lemma message_agent_resolves:
  assumes "opamp_inv s" "message_agent env conn auth msg s = (r, s1)"
  shows "reg_get (m_InstanceUid msg) (op_reg s) = None \<and> resolves_to env conn auth (m_InstanceUid msg) s (r, s1) \<or>
    (s1 = s \<and> (\<forall>st. r = Resolved st \<longrightarrow> reg_get (m_InstanceUid msg) (op_reg s) = Some st \<and> ac_customerID st = ca_CustomerID auth))"
proof (cases "reg_get (m_InstanceUid msg) (op_reg s)")
  case None
  then have "(r, s1) = resolveAgent env conn auth (m_InstanceUid msg) (m_AgentDescription msg) (m_Capabilities msg) s"
    using assms(2) by (simp add: message_agent_def)
  then show ?thesis using resolveAgent_resolves None by metis
next
  case (Some st)
  then show ?thesis using assms(2) by (auto simp: message_agent_def split: if_splits)
qed

section \<open>Handling a resolved agent\<close>

lemma serves_snd_on_db: "touches (ac_agentID st) (op_db s) (snd (f (op_db s))) \<Longrightarrow> serves (st, s) (st, snd (on_db f s))"
  by (rule serves_on_db [where r = "fst (on_db f s)"]) simp_all

lemma refresh_description_serves: "serves (st, s) (st, refresh_description msg (ac_agentID st) s)"
  by (auto simp: refresh_description_def split: option.splits intro!: serves_refl serves_snd_on_db agent_ops_touch)

lemma refresh_description_reg: "op_reg (refresh_description msg i s) = op_reg s"
  by (auto simp: refresh_description_def on_db_def split: option.splits prod.splits)

definition handles :: "uuid \<Rightarrow> uuid \<Rightarrow> bytes \<Rightarrow> opamp \<Rightarrow> opamp \<Rightarrow> bool" where
  "handles i cid uid s s' \<longleftrightarrow> touches i (op_db s) (op_db s') \<and> own_events cid s s' \<and>
     (reg_inv (op_reg s) \<longrightarrow> reg_inv (op_reg s')) \<and> (\<forall>u. u \<noteq> uid \<longrightarrow> reg_get u (op_reg s') = reg_get u (op_reg s)) \<and>
     (\<forall>st. reg_get uid (op_reg s') = Some st \<longrightarrow> reg_get uid (op_reg s) = Some st \<or> ac_agentID st = i \<and> ac_customerID st = cid)"

lemma handles_drop: "handles i cid uid s (drop_conn conn s)"
  by (auto simp: handles_def drop_conn_def touches_refl own_events_def split: option.splits)

lemma handles_put:
  assumes "serves (st, s) (st, s1)" "op_reg s1 = op_reg s" "serves (st, on_reg (reg_put st) s1) (st', s')"
  shows "handles (ac_agentID st) (ac_customerID st) (ac_instanceUID st) s s'"
proof -
  let ?uid = "ac_instanceUID st"
  have e: "reg_evolves ?uid (reg_put st (op_reg s)) (op_reg s')" "touches (ac_agentID st) (op_db s1) (op_db s')"
    "own_events (ac_customerID st) s1 s'"
    using assms(2,3) by (auto simp: serves_def on_reg_def own_events_def)
  have t: "touches (ac_agentID st) (op_db s) (op_db s')" "own_events (ac_customerID st) s s'"
    using assms(1) e touches_trans own_events_trans by (auto simp: serves_def)
  have "reg_get u (op_reg s') = reg_get u (op_reg s)" if "u \<noteq> ?uid" for u
    using e(1) that by (simp add: reg_evolves_def reg.get_put)
  moreover have "ac_agentID x = ac_agentID st \<and> ac_customerID x = ac_customerID st" if "reg_get ?uid (op_reg s') = Some x" for x
    using e(1) that by (auto simp: reg_evolves_def reg.get_put same_conn_def)
  moreover have "reg_inv (op_reg s) \<Longrightarrow> reg_inv (op_reg s')"
    using e(1) reg_put_inv by (auto simp: reg_evolves_def)
  ultimately show ?thesis using t by (simp add: handles_def)
qed

lemma handle_resolved_chain:
  assumes "handle_resolved h env conn auth msg known newConn st0 s0 = (resp, s')"
  obtains "s' = drop_conn conn s0" "s_RemoteConfig resp = None"
  | st1 s1 st4 s4 resp5 s5 where "ac_agentID st1 = ac_agentID st0" "ac_customerID st1 = ac_customerID st0"
    "ac_instanceUID st1 = ac_instanceUID st0" "serves (st1, s0) (st1, s1)" "op_reg s1 = op_reg s0"
    "serves (st1, on_reg (reg_put st1) s1) (st4, s4)"
    "(if newConn \<or> m_AgentDescription msg \<noteq> None then maybeOfferConfig h st4 (base_response h (m_InstanceUid msg)) s4
      else (base_response h (m_InstanceUid msg), s4)) = (resp5, s5)"
    "(if newConn \<and> \<not> ca_ViaAgentToken auth then maybeOfferAgentToken h env st4 resp5 s5 else (resp5, s5)) = (resp, s')"
    "ca_ViaAgentToken auth \<and> ca_AgentID auth \<noteq> None \<longrightarrow> ca_AgentID auth = Some (ac_agentID st0)"
proof (cases "ca_ViaAgentToken auth \<and> ca_AgentID auth \<noteq> None \<and> ca_AgentID auth \<noteq> Some (ac_agentID st0)")
  case True
  then show ?thesis using assms that(1) by (auto simp: handle_resolved_def Let_def base_response_def)
next
  case False
  define st1 where "st1 = st0\<lparr>ac_conn := conn, ac_lastSeen := e_now env, ac_dirtySeen := True,
                 ac_capabilities := (if m_Capabilities msg \<noteq> 0 then m_Capabilities msg else ac_capabilities st0)\<rparr>"
  define s1 where "s1 = (if known then refresh_description msg (ac_agentID st1) s0 else s0)"
  define s2 where "s2 = on_reg (reg_put st1) s1"
  define s3 where "s3 = (if newConn then snd (on_db (pg_SetAgentConnected (e_dbnow env) (ac_agentID st1) True (e_now env)) s2) else s2)"
  obtain st4 s4 where r: "handle_reports h env msg (st1, s3) = (st4, s4)" by fastforce
  obtain resp5 s5 where o: "(if newConn \<or> m_AgentDescription msg \<noteq> None then maybeOfferConfig h st4 (base_response h (m_InstanceUid msg)) s4
      else (base_response h (m_InstanceUid msg), s4)) = (resp5, s5)" by fastforce
  have f: "(if newConn \<and> \<not> ca_ViaAgentToken auth then maybeOfferAgentToken h env st4 resp5 s5 else (resp5, s5)) = (resp, s')"
    using assms unfolding handle_resolved_def Let_def if_not_P [OF False] st1_def [symmetric] s1_def [symmetric]
      s2_def [symmetric] s3_def [symmetric] r prod.case o .
  have "serves (st1, s2) (st1, s3)"
    by (auto simp: s3_def intro!: serves_refl serves_snd_on_db agent_tx_touch)
  moreover have "serves (st1, s3) (st4, s4)" using handle_reports_serves r by metis
  ultimately have "serves (st1, on_reg (reg_put st1) s1) (st4, s4)" unfolding s2_def using serves_trans by blast
  moreover have "serves (st1, s0) (st1, s1)" "op_reg s1 = op_reg s0"
    by (simp_all add: s1_def refresh_description_serves serves_refl refresh_description_reg)
  moreover have "ac_agentID st1 = ac_agentID st0" "ac_customerID st1 = ac_customerID st0" "ac_instanceUID st1 = ac_instanceUID st0"
    by (simp_all add: st1_def)
  ultimately show ?thesis using False by (intro that(2) [OF _ _ _ _ _ _ o f]) blast+
qed

lemma handle_resolved_handles:
  assumes "handle_resolved h env conn auth msg known newConn st0 s0 = (resp, s')" "ac_instanceUID st0 = m_InstanceUid msg"
  shows "handles (ac_agentID st0) (ac_customerID st0) (m_InstanceUid msg) s0 s'"
    "ca_ViaAgentToken auth \<Longrightarrow> ca_AgentID auth = Some aid \<Longrightarrow> s' = drop_conn conn s0 \<or> ac_agentID st0 = aid"
proof -
  show "handles (ac_agentID st0) (ac_customerID st0) (m_InstanceUid msg) s0 s'"
    using assms(1)
  proof (cases rule: handle_resolved_chain)
    case 1
    then show ?thesis by (simp add: handles_drop)
  next
    case (2 st1 s1 st4 s4 resp5 s5)
    have "serves (st4, s4) (st4, s5)" using 2(7) maybeOfferConfig_serves(1) by (auto simp: serves_refl split: if_splits)
    moreover have "\<exists>st5. serves (st4, s5) (st5, s')"
      using 2(8) maybeOfferAgentToken_serves(1) [of h env st4 resp5 s5 resp s'] serves_refl [of "(st4, s5)"]
      by (cases "newConn \<and> \<not> ca_ViaAgentToken auth") auto
    ultimately obtain st5 where "serves (st1, on_reg (reg_put st1) s1) (st5, s')" using 2(6) serves_trans by blast
    from handles_put [OF 2(4,5) this] show ?thesis using 2(1-3) assms(2) by simp
  qed
  show "ca_ViaAgentToken auth \<Longrightarrow> ca_AgentID auth = Some aid \<Longrightarrow> s' = drop_conn conn s0 \<or> ac_agentID st0 = aid"
    using assms(1) by (cases rule: handle_resolved_chain) auto
qed

context config_renderer
begin

lemma handle_resolved_offer:
  assumes "handle_resolved h env conn auth msg known newConn st0 s0 = (resp, s')" "h_render h = render"
    "s_RemoteConfig resp = Some (body, hash)"
  shows "render (ac_customerID st0) (op_db s0) = Inr body \<and> hash = Sum256 body"
  using assms(1)
proof (cases rule: handle_resolved_chain)
  case 1
  then show ?thesis using assms(3) by simp
next
  case (2 st1 s1 st4 s4 resp5 s5)
  have "s_RemoteConfig resp5 = Some (body, hash)"
    using 2(8) assms(3) maybeOfferAgentToken_serves(2) by (auto split: if_splits)
  then have "render (ac_customerID st4) (op_db s4) = Inr body \<and> hash = Sum256 body"
    using 2(7) maybeOfferConfig_offer [OF assms(2)] by (auto simp: base_response_def split: if_splits)
  moreover have "ac_customerID st4 = ac_customerID st0" "touches (ac_agentID st1) (op_db s0) (op_db s4)"
    using 2(1-6) touches_trans by (auto simp: serves_def same_conn_def on_reg_def)
  ultimately show ?thesis using render_touches by simp
qed

end

section \<open>One message\<close>

text \<open>The agent a message is resolved to, in the database \<open>db\<close> that holds after a possible enrolment.\<close>

lemma resolved_agent:
  assumes "opamp_inv s" "message_agent env conn auth msg s = (Resolved st, s1)"
  shows "ac_instanceUID st = m_InstanceUid msg" "ac_customerID st = ca_CustomerID auth"
    "agent_bound (op_db s1) (ac_agentID st) (ca_CustomerID auth)"
    "s1 = s \<or> (\<exists>d caps agent db'. pg_EnrollAgent (e_dbnow env) (new_agent_of env auth (m_InstanceUid msg) d caps) (op_db s) = (Inr agent, db') \<and>
       s1 = s\<lparr>op_db := db'\<rparr> \<and> ac_agentID st = e_newID env)"
    "reg_get (m_InstanceUid msg) (op_reg s) = None \<or> reg_get (m_InstanceUid msg) (op_reg s) = Some st"
proof -
  let ?uid = "m_InstanceUid msg" and ?cid = "ca_CustomerID auth"
  have inv: "reg_inv (op_reg s)" "distinct (map ag_ID (agents (op_db s)))" "reg.holds (conn_bound (op_db s)) (op_reg s)"
    using assms(1) by (auto simp: opamp_inv_def id_list_defs)
  consider (live) "s1 = s" "reg_get ?uid (op_reg s) = Some st" "ac_customerID st = ?cid"
    | (known) a where "reg_get ?uid (op_reg s) = None" "s1 = s" "ac_instanceUID st = ?uid" "ac_customerID st = ?cid"
        "a \<in> set (agents (op_db s))" "ag_ID a = ac_agentID st" "ag_CustomerID a = Some ?cid"
    | (fresh) d caps agent db' where "reg_get ?uid (op_reg s) = None"
        "pg_EnrollAgent (e_dbnow env) (new_agent_of env auth ?uid d caps) (op_db s) = (Inr agent, db')"
        "s1 = s\<lparr>op_db := db'\<rparr>" "st = enrolled_conn conn auth ?uid caps agent"
    using message_agent_resolves [OF assms] by (auto simp: resolves_to_def)
  then have "ac_instanceUID st = ?uid \<and> ac_customerID st = ?cid \<and> agent_bound (op_db s1) (ac_agentID st) ?cid \<and>
    (s1 = s \<or> (\<exists>d caps agent db'. pg_EnrollAgent (e_dbnow env) (new_agent_of env auth ?uid d caps) (op_db s) = (Inr agent, db') \<and>
       s1 = s\<lparr>op_db := db'\<rparr> \<and> ac_agentID st = e_newID env)) \<and>
    (reg_get ?uid (op_reg s) = None \<or> reg_get ?uid (op_reg s) = Some st)"
  proof cases
    case live
    have "ac_instanceUID st = ?uid" using inv(1) live(2) by (simp add: reg_inv_def reg_get_def)
    moreover have "agent_bound (op_db s) (ac_agentID st) ?cid"
      using reg.holds_get [OF inv(3) live(2)] live(3) by (simp add: conn_bound_def)
    ultimately show ?thesis using live by simp
  next
    case known
    have "agent_bound (op_db s) (ac_agentID st) ?cid"
      using inv(2) known(5-7) unfolding agent_bound_def distinct_map by (metis inj_onD)
    then show ?thesis using known by simp
  next
    case fresh
    note r = EnrollAgent_rows [OF fresh(2)]
    have id: "ac_agentID st = e_newID env" using r(5) fresh(4) by (simp add: enrolled_conn_def new_agent_of_def)
    have "agent_bound db' (e_newID env) ?cid"
      unfolding agent_bound_def r(1)
      using r(7) by (auto simp: new_agent_of_def new_agent_row_def id_list_defs image_iff)
    then show ?thesis using fresh id by (auto simp: enrolled_conn_def)
  qed
  then show "ac_instanceUID st = ?uid" "ac_customerID st = ?cid" "agent_bound (op_db s1) (ac_agentID st) ?cid"
    "s1 = s \<or> (\<exists>d caps agent db'. pg_EnrollAgent (e_dbnow env) (new_agent_of env auth ?uid d caps) (op_db s) = (Inr agent, db') \<and>
       s1 = s\<lparr>op_db := db'\<rparr> \<and> ac_agentID st = e_newID env)"
    "reg_get ?uid (op_reg s) = None \<or> reg_get ?uid (op_reg s) = Some st" by blast+
qed

lemma unresolved_keeps:
  assumes "opamp_inv s" "message_agent env conn auth msg s = (r, s1)" "r = Reject \<or> r = AskFullState"
  shows "s1 = s"
  using message_agent_resolves [OF assms(1,2)] assms(3) by (auto simp: resolves_to_def)

lemma HandleMessage_cases:
  assumes "opamp_inv s" "HandleMessage h env conn auth msg s = (resp, s')"
  obtains "s' = s \<or> s' = drop_conn conn s" "s_RemoteConfig resp = None"
  | st s1 known newConn where "message_agent env conn auth msg s = (Resolved st, s1)"
    "handle_resolved h env conn auth msg known newConn st s1 = (resp, s')"
proof (cases "m_InstanceUid msg = []")
  case True
  then show ?thesis using assms(2) that(1) by (auto simp: HandleMessage_def Let_def base_response_def)
next
  case False
  obtain r s1 where r: "message_agent env conn auth msg s = (r, s1)" by fastforce
  show ?thesis
  proof (cases r)
    case (Resolved st)
    then show ?thesis using assms(2) False r that(2) by (auto simp: HandleMessage_def Let_def)
  qed (use assms False r that(1) unresolved_keeps [OF assms(1) r] in \<open>auto simp: HandleMessage_def Let_def base_response_def\<close>)
qed

text \<open>What a message may change, for the customer of its connection.\<close>

definition confined :: "ConnAuth \<Rightarrow> opamp \<Rightarrow> opamp \<Rightarrow> bool" where
  "confined auth s s' \<longleftrightarrow> others (ca_CustomerID auth) (op_db s') = others (ca_CustomerID auth) (op_db s) \<and>
     customers (op_db s') = customers (op_db s) \<and> pipelines (op_db s') = pipelines (op_db s) \<and>
     pipeline_versions (op_db s') = pipeline_versions (op_db s) \<and> own_events (ca_CustomerID auth) s s'"

lemma confined_drop: "confined auth s (drop_conn conn s)"
  by (auto simp: confined_def drop_conn_def own_events_def split: option.splits)

lemma resolved_frame:
  assumes "opamp_inv s" "message_agent env conn auth msg s = (Resolved st, s1)"
  shows "confined auth s s1" "op_reg s1 = op_reg s" "distinct (agent_ids (op_db s1))"
    "\<And>j c. agent_bound (op_db s) j c \<Longrightarrow> j \<noteq> e_newID env \<Longrightarrow> agent_bound (op_db s1) j c"
    "\<And>a. a \<in> set (agents (op_db s1)) \<Longrightarrow> ag_ID a \<noteq> ac_agentID st \<Longrightarrow> a \<in> set (agents (op_db s))"
    "\<And>a. a \<in> set (agents (op_db s)) \<Longrightarrow> a \<in> set (agents (op_db s1))"
proof -
  have d: "distinct (agent_ids (op_db s))" using assms(1) by (simp add: opamp_inv_def)
  from resolved_agent(4) [OF assms] have "confined auth s s1 \<and> op_reg s1 = op_reg s \<and> distinct (agent_ids (op_db s1)) \<and>
    (\<forall>j c. agent_bound (op_db s) j c \<longrightarrow> j \<noteq> e_newID env \<longrightarrow> agent_bound (op_db s1) j c) \<and>
    (\<forall>a \<in> set (agents (op_db s1)). ag_ID a \<noteq> ac_agentID st \<longrightarrow> a \<in> set (agents (op_db s))) \<and>
    set (agents (op_db s)) \<subseteq> set (agents (op_db s1))"
  proof
    assume "s1 = s"
    then show ?thesis using d by (simp add: confined_def own_events_refl)
  next
    assume "\<exists>d caps agent db'. pg_EnrollAgent (e_dbnow env) (new_agent_of env auth (m_InstanceUid msg) d caps) (op_db s) = (Inr agent, db') \<and>
       s1 = s\<lparr>op_db := db'\<rparr> \<and> ac_agentID st = e_newID env"
    then obtain d' caps agent db' where
      e: "pg_EnrollAgent (e_dbnow env) (new_agent_of env auth (m_InstanceUid msg) d' caps) (op_db s) = (Inr agent, db')"
      and s1: "s1 = s\<lparr>op_db := db'\<rparr>" "ac_agentID st = e_newID env" by blast
    define row where "row = new_agent_row (e_dbnow env) (new_agent_of env auth (m_InstanceUid msg) d' caps)"
    have row: "ag_ID row = e_newID env" "ag_CustomerID row = Some (ca_CustomerID auth)"
      by (simp_all add: row_def new_agent_row_def new_agent_of_def)
    note r = EnrollAgent_rows [OF e, folded row_def]
    have "e_newID env \<notin> set (agent_ids (op_db s))" using r(7) by (simp add: new_agent_of_def)
    then show ?thesis
      using d r(1-4) row by (simp add: s1 confined_def others_def own_events_def id_list_defs agent_bound_def) auto
  qed
  then show "confined auth s s1" "op_reg s1 = op_reg s" "distinct (agent_ids (op_db s1))"
    "\<And>j c. agent_bound (op_db s) j c \<Longrightarrow> j \<noteq> e_newID env \<Longrightarrow> agent_bound (op_db s1) j c"
    "\<And>a. a \<in> set (agents (op_db s1)) \<Longrightarrow> ag_ID a \<noteq> ac_agentID st \<Longrightarrow> a \<in> set (agents (op_db s))"
    "\<And>a. a \<in> set (agents (op_db s)) \<Longrightarrow> a \<in> set (agents (op_db s1))" by blast+
qed

lemma HandleMessage_confined:
  assumes "opamp_inv s" "HandleMessage h env conn auth msg s = (resp, s')"
  shows "confined auth s s'"
  using assms
proof (cases rule: HandleMessage_cases)
  case 1
  then show ?thesis using confined_drop by (auto simp: confined_def own_events_refl)
next
  case (2 st s1 known newConn)
  note a = resolved_agent [OF assms(1) 2(1)] and f = resolved_frame [OF assms(1) 2(1)]
  have h: "handles (ac_agentID st) (ca_CustomerID auth) (m_InstanceUid msg) s1 s'"
    using handle_resolved_handles(1) [OF 2(2) a(1)] a(2) by simp
  then have t: "touches (ac_agentID st) (op_db s1) (op_db s')" and e: "own_events (ca_CustomerID auth) s1 s'"
    by (simp_all add: handles_def)
  have "others (ca_CustomerID auth) (op_db s') = others (ca_CustomerID auth) (op_db s1)"
    by (rule touches_others [OF t a(3)])
  then show ?thesis
    using f(1) t e own_events_trans by (auto simp: confined_def touches_def)
qed

text \<open>A connection with a per-agent token has no enrolment token: it enrolls nobody, and its messages leave the
  rows of all other agents alone.\<close>

lemma HandleMessage_own_agent:
  assumes "opamp_inv s" "HandleMessage h env conn auth msg s = (resp, s')" "ca_ViaAgentToken auth" "ca_AgentID auth = Some aid"
    "ca_TokenID auth \<notin> set (bootstrap_ids (op_db s))"
  shows "filter (\<lambda>a. ag_ID a \<noteq> aid) (agents (op_db s')) = filter (\<lambda>a. ag_ID a \<noteq> aid) (agents (op_db s))"
  using assms(1,2)
proof (cases rule: HandleMessage_cases)
  case 1
  then show ?thesis by (auto simp: drop_conn_def split: option.splits)
next
  case (2 st s1 known newConn)
  note a = resolved_agent [OF assms(1) 2(1)]
  have via: "na_EnrolledVia (new_agent_of env auth u d caps) = ca_TokenID auth" for u d caps by (simp add: new_agent_of_def)
  have s1: "s1 = s" using a(4) assms(5) by (auto dest!: EnrollAgent_rows(6) simp: via)
  have h: "handles (ac_agentID st) (ca_CustomerID auth) (m_InstanceUid msg) s s'"
    using handle_resolved_handles(1) [OF 2(2) a(1)] a(2) s1 by simp
  from handle_resolved_handles(2) [OF 2(2) a(1) assms(3,4)] show ?thesis
  proof
    assume "ac_agentID st = aid"
    with h touches_rest show ?thesis by (auto simp: handles_def)
  qed (auto simp: s1 drop_conn_def split: option.splits)
qed

section \<open>The invariant of the server\<close>

definition fresh_id :: "opamp_env \<Rightarrow> opamp \<Rightarrow> bool" where
  "fresh_id env s \<longleftrightarrow> (\<forall>u st. reg_get u (op_reg s) = Some st \<longrightarrow> ac_agentID st \<noteq> e_newID env)"

lemma HandleMessage_inv:
  assumes "opamp_inv s" "fresh_id env s"
  shows "opamp_inv (snd (HandleMessage h env conn auth msg s))"
proof -
  obtain resp s' where m: "HandleMessage h env conn auth msg s = (resp, s')" by fastforce
  from assms(1) m have "opamp_inv s'"
  proof (cases rule: HandleMessage_cases)
    case 1
    then show ?thesis using assms(1) by (auto simp: opamp_inv_def drop_conn_def split: option.splits)
  next
    case (2 st s1 known newConn)
    note a = resolved_agent [OF assms(1) 2(1)] and f = resolved_frame [OF assms(1) 2(1)]
    have h: "handles (ac_agentID st) (ca_CustomerID auth) (m_InstanceUid msg) s1 s'"
      using handle_resolved_handles(1) [OF 2(2) a(1)] a(2) by simp
    then have t: "touches (ac_agentID st) (op_db s1) (op_db s')" by (simp add: handles_def)
    have old: "conn_bound (op_db s') x" if "reg_get u (op_reg s) = Some x" for u x
    proof -
      have "conn_bound (op_db s) x" using assms(1) that reg.holds_get by (auto simp: opamp_inv_def)
      then show ?thesis using f(4) assms(2) that touches_bound [OF t] by (auto simp: conn_bound_def fresh_id_def)
    qed
    have new: "conn_bound (op_db s') x" if "ac_agentID x = ac_agentID st" "ac_customerID x = ca_CustomerID auth" for x
      using that touches_bound [OF t a(3)] by (simp add: conn_bound_def)
    have "conn_bound (op_db s') x" if "reg_get u (op_reg s') = Some x" for u x
      using h that old new f(2) by (cases "u = m_InstanceUid msg") (auto simp: handles_def)
    moreover have "reg_inv (op_reg s')" using h f(2) assms(1) by (simp add: handles_def opamp_inv_def)
    ultimately show ?thesis using f(3) touches_ids [OF t] by (simp add: opamp_inv_def reg.holds_def)
  qed
  then show ?thesis by (simp add: m)
qed

lemma opamp_inv_db:
  assumes "opamp_inv s" "distinct (agent_ids db')" "\<And>a. a \<in> set (agents db') \<Longrightarrow>
     \<exists>b \<in> set (agents (op_db s)). ag_ID b = ag_ID a \<and> ag_CustomerID b = ag_CustomerID a"
  shows "opamp_inv (s\<lparr>op_db := db'\<rparr>)"
proof -
  have "conn_bound (op_db s) st \<Longrightarrow> conn_bound db' st" for st
    using assms(3) by (fastforce simp: conn_bound_def agent_bound_def)
  then show ?thesis using assms(1,2) by (auto simp: opamp_inv_def intro: reg.holds_mono)
qed

lemma opamp_inv_touches: "opamp_inv s \<Longrightarrow> touches i (op_db s) db' \<Longrightarrow> opamp_inv (s\<lparr>op_db := db'\<rparr>)"
  using touches_ids [of i "op_db s" db'] touches_bound [of i "op_db s" db']
  by (auto simp: opamp_inv_def conn_bound_def intro: reg.holds_mono)

lemma opamp_inv_cong: "op_db s' = op_db s \<Longrightarrow> op_reg s' = op_reg s \<Longrightarrow> opamp_inv s' = opamp_inv s"
  by (simp add: opamp_inv_def)

lemma opamp_inv_on_db: "opamp_inv s \<Longrightarrow> touches i (op_db s) (snd (f (op_db s))) \<Longrightarrow> opamp_inv (snd (on_db f s))"
  using opamp_inv_touches [of s i] by (auto simp: on_db_def split: prod.splits)

lemma HandleConnectionClose_inv:
  assumes "opamp_inv s"
  shows "opamp_inv (HandleConnectionClose h env conn s)"
proof -
  obtain r reg' where r: "removeConn conn (op_reg s) = (r, reg')" by fastforce
  have inv: "reg_inv (op_reg s)" "reg.holds (conn_bound (op_db s)) (op_reg s)" using assms by (auto simp: opamp_inv_def)
  have "opamp_inv (s\<lparr>op_reg := reg'\<rparr>)"
    using assms removeConn_inv [OF inv(1), of conn] reg.holds_remove [OF inv, of conn] r by (simp add: opamp_inv_def)
  then have "opamp_inv (snd (on_db (pg_SetAgentConnected now i False at) (s\<lparr>op_reg := reg'\<rparr>)))" for now i at
    by (rule opamp_inv_on_db) (rule agent_tx_touch)
  moreover have "opamp_inv (emitEvent h t i c d x) = opamp_inv x" for t i c d x
    by (rule opamp_inv_cong) (simp_all add: emitEvent_def)
  ultimately show ?thesis using \<open>opamp_inv (s\<lparr>op_reg := reg'\<rparr>)\<close>
    by (simp add: HandleConnectionClose_def r Let_def split: option.splits)
qed

lemma push_config_inv: "opamp_inv (snd x) \<Longrightarrow> opamp_inv (snd (push_config h send desired x st))"
proof -
  assume a: "opamp_inv (snd x)"
  have "opamp_inv (snd (on_db (pg_SetAgentAssignedConfig (ac_agentID st) hash) (snd x)))" for hash
    by (rule opamp_inv_on_db [OF a]) (rule agent_ops_touch)
  moreover have "opamp_inv (y\<lparr>op_sent := l\<rparr>) = opamp_inv y" for y l by (rule opamp_inv_cong) simp_all
  ultimately show ?thesis using a by (auto simp: push_config_def Let_def split: prod.splits option.splits)
qed

lemma EdgeConfigChanged_inv: "opamp_inv s \<Longrightarrow> opamp_inv (snd (EdgeConfigChanged h send cid s))"
proof -
  assume a: "opamp_inv s"
  have "opamp_inv (snd x) \<Longrightarrow> opamp_inv (snd (foldl (push_config h send d) x sts))" for d x sts
    by (induction sts arbitrary: x) (simp_all add: push_config_inv)
  from this [of "(0, s)"] a show ?thesis
    by (auto simp: EdgeConfigChanged_def Let_def split: sum.splits prod.splits) (metis snd_conv)
qed

lemma FlushSeen_inv:
  assumes "opamp_inv s"
  shows "opamp_inv (FlushSeen s)"
proof -
  have c: "ac_agentID (clear_seen x) = ac_agentID x" "ac_customerID (clear_seen x) = ac_customerID x" for x
    by (simp_all add: clear_seen_def)
  have "reg.holds (conn_bound (op_db s)) (snd (drainDirtySeen (op_reg s)))"
    using assms by (auto simp: opamp_inv_def reg.holds_def drain_get conn_bound_def c)
  then have d: "opamp_inv (s\<lparr>op_reg := snd (drainDirtySeen (op_reg s))\<rparr>)"
    using assms drain_inv by (simp add: opamp_inv_def)
  have "list_all2 evolves (agents (op_db s)) (agents (pg_TouchAgents seen (op_db s)))" for seen
    using touch_evolves [of "op_db s" seen] by (simp add: agents_evolve_def)
  then have "agent_ids (pg_TouchAgents seen (op_db s)) = agent_ids (op_db s) \<and> (\<forall>a \<in> set (agents (pg_TouchAgents seen (op_db s))).
      \<exists>b \<in> set (agents (op_db s)). ag_ID b = ag_ID a \<and> ag_CustomerID b = ag_CustomerID a)" for seen
    unfolding id_list_defs list_all2_conv_all_nth evolves_def
    by (auto simp: in_set_conv_nth list_eq_iff_nth_eq) (metis nth_mem)
  then have "opamp_inv (s\<lparr>op_reg := snd (drainDirtySeen (op_reg s)), op_db := pg_TouchAgents seen (op_db s)\<rparr>)" for seen
    using opamp_inv_db [OF d, of "pg_TouchAgents seen (op_db s)"] assms by (simp add: opamp_inv_def)
  with d show ?thesis by (simp add: FlushSeen_def Let_def case_prod_unfold)
qed

text \<open>The steps of the server: a message on some connection, a closed connection, a push, a flush of the
  heartbeats, and what other tiers do to the database meanwhile.\<close>

inductive opamp_step :: "Handler \<Rightarrow> opamp \<Rightarrow> opamp \<Rightarrow> bool" for h where
  message: "fresh_id env s \<Longrightarrow> opamp_step h s (snd (HandleMessage h env conn auth msg s))"
| closed: "opamp_step h s (HandleConnectionClose h env conn s)"
| push: "opamp_step h s (snd (EdgeConfigChanged h send cid s))"
| flush: "opamp_step h s (FlushSeen s)"
| agent_deleted: "opamp_step h s (snd (on_db (pg_DeleteAgent now i es) s))"
| agent_edited: "opamp_step h s (snd (on_db (pg_UpdateAgentMeta now i dn labels es) s))"
| elsewhere: "agents db' = agents (op_db s) \<Longrightarrow> opamp_step h s (s\<lparr>op_db := db'\<rparr>)"

lemma DeleteAgent_agents:
  "agents (snd (pg_DeleteAgent now i es db)) = agents db \<or>
   agents (snd (pg_DeleteAgent now i es db)) = filter (\<lambda>a. ag_ID a \<noteq> i) (agents db)"
  unfolding pg_DeleteAgent_def
  by (rule inTx_keeps) (auto simp: commit_Inr audit_Write_fields split: if_splits)

lemma UpdateAgentMeta_touches: "touches i db (snd (pg_UpdateAgentMeta now i dn labels es db))"
  unfolding pg_UpdateAgentMeta_def
  by (rule touches_inTx)
    (auto split: sum.splits simp: commit_Inr audit_Write_fields keeps_agent_keys_def
      dest!: touches_upd_agent intro: touches_trans [OF _ touches_frame])

lemma snd_on_db: "snd (on_db f s) = s\<lparr>op_db := snd (f (op_db s))\<rparr>"
  by (simp add: on_db_def split: prod.splits)

lemma opamp_step_inv: "opamp_step h s s' \<Longrightarrow> opamp_inv s \<Longrightarrow> opamp_inv s'"
proof (induction rule: opamp_step.induct)
  case (message env s conn auth msg)
  then show ?case by (intro HandleMessage_inv)
next
  case (closed s env conn)
  then show ?case by (rule HandleConnectionClose_inv)
next
  case (push s send cid)
  then show ?case by (rule EdgeConfigChanged_inv)
next
  case (flush s)
  then show ?case by (rule FlushSeen_inv)
next
  case (agent_deleted s now i es)
  have "distinct (map ag_ID (agents (op_db s)))" using agent_deleted by (simp add: opamp_inv_def id_list_defs)
  then show ?case using DeleteAgent_agents [of now i es "op_db s"] agent_deleted
    unfolding snd_on_db by (intro opamp_inv_db) (auto simp: id_list_defs distinct_map_filter)
next
  case (agent_edited s now i dn labels es)
  then show ?case by (rule opamp_inv_on_db) (rule UpdateAgentMeta_touches)
next
  case (elsewhere db' s)
  then show ?case by (intro opamp_inv_db) (auto simp: opamp_inv_def id_list_defs)
qed

definition opamp_init :: "db \<Rightarrow> opamp" where
  "opamp_init db = \<lparr>op_db = db, op_reg = newRegistry, op_events = [], op_sent = [], op_closed = []\<rparr>"

lemma opamp_init_inv: "db_wf db \<Longrightarrow> opamp_inv (opamp_init db)"
  using db_wfD(9) [of db] reg_inv_init
  by (simp add: opamp_inv_def opamp_init_def agents_wf_def id_list_defs reg.holds_def reg_get_def newRegistry_def)

lemma opamp_reach_inv: "(opamp_step h)\<^sup>*\<^sup>* (opamp_init db) s \<Longrightarrow> db_wf db \<Longrightarrow> opamp_inv s"
  by (induction rule: rtranclp_induct) (auto intro: opamp_init_inv opamp_step_inv)

lemma HandleMessage_offer:
  assumes "opamp_inv s" "HandleMessage h env conn auth msg s = (resp, s')" "h_render h = RenderEdgeCurrent marshal cipher"
    "s_RemoteConfig resp = Some (body, hash)"
  shows "RenderEdgeCurrent marshal cipher (ca_CustomerID auth) (op_db s) = Inr body \<and> hash = Sum256 body"
  using assms(1,2)
proof (cases rule: HandleMessage_cases)
  case 1
  then show ?thesis using assms(4) by simp
next
  case (2 st s1 known newConn)
  note a = resolved_agent [OF assms(1) 2(1)] and f = resolved_frame(1) [OF assms(1) 2(1)]
  have "RenderEdgeCurrent marshal cipher (ca_CustomerID auth) (op_db s1) = Inr body \<and> hash = Sum256 body"
    using edge.handle_resolved_offer [OF 2(2) assms(3,4)] a(2) by simp
  moreover have "RenderEdgeCurrent marshal cipher (ca_CustomerID auth) (op_db s1) = RenderEdgeCurrent marshal cipher (ca_CustomerID auth) (op_db s)"
    using f by (intro edge.render_frame) (simp_all add: confined_def)
  ultimately show ?thesis by simp
qed

section \<open>Properties\<close>

text \<open>C35: who may speak OpAMP. A connection is accepted only for a bearer token whose hash is stored: that of
  an enrolled agent, in which case the connection is bound to this agent and its customer, or that of an
  enrolment token that is unrevoked, unexpired and, if its uses are limited, not used up, in which case the
  connection is bound to the token's customer. In both cases the customer is active.\<close>

theorem opamp_authentication_sound:
  assumes "Authenticate now authorization db = Inr auth"
  shows "\<exists>token. authorization = ''Bearer '' @ token \<and> (\<exists>c \<in> set (customers db).
    cust_ID c = ca_CustomerID auth \<and> cust_Status c = CustomerActive \<and>
    (ca_ViaAgentToken auth \<and> (\<exists>a \<in> set (agents db). ca_AgentID auth = Some (ag_ID a) \<and> ag_CustomerID a = Some (cust_ID c) \<and>
        ag_TokenPrefix a = ParseAgentTokenPrefix token \<and> coalesce (ag_TokenHash a) [] = HashAPIKey token) \<or>
     \<not> ca_ViaAgentToken auth \<and> ca_AgentID auth = None \<and> (\<exists>t \<in> set (bootstrap_tokens db). bt_ID t = ca_TokenID auth \<and>
        bt_CustomerID t = cust_ID c \<and> bt_TokenHash t = HashAPIKey token \<and> bt_RevokedAt t = None \<and> now < bt_ExpiresAt t \<and>
        (bt_MaxUses t > 0 \<longrightarrow> bt_UsedCount t < bt_MaxUses t))))"
proof -
  from assms obtain token where t: "CutPrefix authorization ''Bearer '' = Some token"
    and c: "\<exists>pfx. ParseAgentTokenPrefix token = Some pfx \<and> authenticateAgentToken pfx token db = Inr auth \<or>
      authenticateBootstrapToken now pfx token db = Inr auth"
    by (auto simp: Authenticate_def split: option.splits if_splits)
  from c show ?thesis
  proof (elim exE disjE conjE)
    fix pfx
    assume p: "ParseAgentTokenPrefix token = Some pfx" and "authenticateAgentToken pfx token db = Inr auth"
    then obtain x where x: "find (\<lambda>a. aa_TokenHash a = HashAPIKey token) (pg_AgentsByTokenPrefix pfx db) = Some x"
      "aa_CustomerStatus x = CustomerActive" "auth = \<lparr>ca_TokenID = uuid_Nil, ca_CustomerID = aa_CustomerID x,
        ca_AgentID = Some (aa_AgentID x), ca_ViaAgentToken = True\<rparr>"
      by (auto simp: authenticateAgentToken_def split: option.splits if_splits)
    from find_SomeD [OF x(1)] x(2,3) obtain a c where "a \<in> set (agents db)" "c \<in> set (customers db)"
      "ag_TokenPrefix a = Some pfx" "ag_CustomerID a = Some (cust_ID c)" "cust_Status c = CustomerActive"
      "coalesce (ag_TokenHash a) [] = HashAPIKey token" "ca_CustomerID auth = cust_ID c" "ca_AgentID auth = Some (ag_ID a)"
      "ca_ViaAgentToken auth"
      by (auto simp: pg_AgentsByTokenPrefix_def)
    then show ?thesis
      using p CutPrefix_SomeD [OF t] by (intro exI [of _ token] conjI bexI [of _ c] disjI1 bexI [of _ a]) simp_all
  next
    fix pfx
    assume "authenticateBootstrapToken now pfx token db = Inr auth"
    then obtain x where x: "find (\<lambda>t. et_TokenHash t = HashAPIKey token) (pg_ActiveBootstrapTokensByPrefix pfx db) = Some x"
      "TokenUsable x now = None" "auth = \<lparr>ca_TokenID = et_TokenID x, ca_CustomerID = et_CustomerID x,
        ca_AgentID = None, ca_ViaAgentToken = False\<rparr>"
      by (auto simp: authenticateBootstrapToken_def split: option.splits)
    from find_SomeD [OF x(1)] obtain b c where b: "b \<in> set (bootstrap_tokens db)" "c \<in> set (customers db)"
      "bt_RevokedAt b = None" "cust_ID c = bt_CustomerID b" "x = enroll_token_of b c" "et_TokenHash x = HashAPIKey token"
      by (auto simp: pg_ActiveBootstrapTokensByPrefix_def)
    have u: "now < bt_ExpiresAt b" "bt_MaxUses b > 0 \<longrightarrow> bt_UsedCount b < bt_MaxUses b" "cust_Status c = CustomerActive"
      using x(2) by (auto simp: b(5) enroll_token_of_def TokenUsable_def split: if_splits)
    show ?thesis
      using b u x(3) CutPrefix_SomeD [OF t]
      by (intro exI [of _ token] conjI bexI [of _ c] disjI2 bexI [of _ b]) (simp_all add: enroll_token_of_def)
  qed
qed


subsection \<open>An example\<close>

definition sample_agent_token :: string where
  "sample_agent_token = ''otm_at_00000000_x''"

definition sample_enrol_token :: string where
  "sample_enrol_token = ''otm_bt_00000000_x''"

definition sample_opamp_db :: db where
  "sample_opamp_db = sample_fleet_db\<lparr>
     bootstrap_tokens := [\<lparr>bt_ID = 6, bt_CustomerID = 1, bt_Name = ''t'', bt_TokenPrefix = ''otm_bt_00000000'',
       bt_TokenHash = HashAPIKey sample_enrol_token, bt_MaxUses = 1, bt_UsedCount = 0, bt_CreatedBy = None,
       bt_CreatedAt = 0, bt_ExpiresAt = 100, bt_RevokedAt = None\<rparr>],
     agents := [sample_agent\<lparr>ag_TokenPrefix := Some ''otm_at_00000000'', ag_TokenHash := Some (HashAPIKey sample_agent_token)\<rparr>]\<rparr>"

definition sample_handler :: Handler where
  "sample_handler = \<lparr>h_proto = \<lparr>pb_SrvAcceptsStatus = 1, pb_SrvOffersRemoteConfig = 2, pb_SrvAcceptsEffectiveConfig = 4,
     pb_SrvOffersConnectionSettings = 32, pb_AgentAcceptsRemoteConfig = 2, pb_AgentAcceptsOpAMPConnectionSettings = 256,
     pb_ReportFullState = 1\<rparr>, h_render = RenderEdgeCurrent (\<lambda>_. Inr ''yaml'') None, h_events = False, h_publicEndpoint = ''''\<rparr>"

definition sample_env :: "uuid \<Rightarrow> opamp_env" where
  "sample_env i = \<lparr>e_now = 50, e_dbnow = 50, e_newID = i, e_rand = None\<rparr>"

definition sample_msg :: "bytes \<Rightarrow> AgentToServer" where
  "sample_msg uid = \<lparr>m_InstanceUid = uid, m_Capabilities = 0,
     m_AgentDescription = Some \<lparr>d_Identifying = [], d_NonIdentifying = []\<rparr>, m_RemoteConfigStatus = None,
     m_EffectiveConfig = None, m_Health = None\<rparr>"

lemmas sample_opamp_defs = sample_opamp_db_def sample_fleet_db_def sample_agent_def new_agent_row_def
  sample_pipeline_db_def db_init_def

lemma sample_opamp_db_ok: "db_wf sample_opamp_db"
  by (simp add: db_wf_def sample_opamp_defs table_wf_defs id_list_defs ref_ok_def status_ok_def rate_ok_def retention_ok_def)

lemma sample_tokens:
  "ParseAgentTokenPrefix sample_agent_token = Some ''otm_at_00000000''" "ParseAgentTokenPrefix sample_enrol_token = None"
  "ParseBootstrapTokenPrefix sample_enrol_token = Some ''otm_bt_00000000''"
  "sample_agent_token \<noteq> ''''" "sample_enrol_token \<noteq> ''''"
  unfolding sample_agent_token_def sample_enrol_token_def by code_simp+

lemma sample_authenticate:
  "Authenticate 50 (''Bearer '' @ sample_agent_token) sample_opamp_db =
     Inr \<lparr>ca_TokenID = uuid_Nil, ca_CustomerID = 1, ca_AgentID = Some 7, ca_ViaAgentToken = True\<rparr>"
  "Authenticate 50 (''Bearer '' @ sample_enrol_token) sample_opamp_db =
     Inr \<lparr>ca_TokenID = 6, ca_CustomerID = 1, ca_AgentID = None, ca_ViaAgentToken = False\<rparr>"
  unfolding Authenticate_def CutPrefix_append option.case
  by (simp_all add: sample_tokens authenticateAgentToken_def authenticateBootstrapToken_def pg_AgentsByTokenPrefix_def
      pg_ActiveBootstrapTokensByPrefix_def enroll_token_of_def TokenUsable_def sample_opamp_defs coalesce_def
      CustomerActive_def CustomerDeleted_def)

theorem opamp_authentication_sound_witness:
  "\<exists>auth. Authenticate 50 (''Bearer '' @ sample_agent_token) sample_opamp_db = Inr auth \<and>
     (\<exists>a \<in> set (agents sample_opamp_db). ca_AgentID auth = Some (ag_ID a))"
  using opamp_authentication_sound [OF sample_authenticate(1)] sample_authenticate(1) by auto


text \<open>A message that enrols, from a connection with an enrolment token and an agent without capabilities.\<close>

lemma SetAgentConnected_tokens: "bootstrap_tokens (snd (pg_SetAgentConnected now i c at db)) = bootstrap_tokens db"
  unfolding pg_SetAgentConnected_def
  by (rule inTx_keeps) (auto simp: upd_agent_Inr insertAgentEvent_Inr split: sum.splits)

lemma touches_uids: "touches i db db' \<Longrightarrow> map ag_InstanceUID (agents db') = map ag_InstanceUID (agents db)"
  unfolding touches_def keeps_agent_keys_def by (auto simp: upd_where_def)

lemma enrolling_message:
  fixes conn
  assumes "uid \<noteq> []" "reg_get uid (op_reg s) = None" "uid \<notin> set (map ag_InstanceUID (agents (op_db s)))"
    "i \<notin> set (agent_ids (op_db s))" "ca_CustomerID auth \<in> set (customer_ids (op_db s))"
    "bootstrap_tokens (op_db s) = [t]" "bt_ID t = ca_TokenID auth" "int4_ok (bt_UsedCount t + 1)" "\<not> ca_ViaAgentToken auth"
  defines "s' \<equiv> snd (HandleMessage sample_handler (sample_env i) conn auth (sample_msg uid) s)"
  shows "bootstrap_tokens (op_db s') = [t\<lparr>bt_UsedCount := bt_UsedCount t + 1\<rparr>]"
    "map ag_ID (agents (op_db s')) = map ag_ID (agents (op_db s)) @ [i]"
    "map ag_InstanceUID (agents (op_db s')) = map ag_InstanceUID (agents (op_db s)) @ [uid]"
    "customers (op_db s') = customers (op_db s)" "u \<noteq> uid \<Longrightarrow> reg_get u (op_reg s') = reg_get u (op_reg s)"
proof -
  define d where "d = \<lparr>d_Identifying = [], d_NonIdentifying = []\<rparr>"
  define na where "na = new_agent_of (sample_env i) auth uid d 0"
  have na: "na_ID na = i" "na_InstanceUID na = uid" "na_Class na = AgentClassEdge" "na_Capabilities na = 0"
    "na_CustomerID na = ca_CustomerID auth" "na_EnrolledVia na = ca_TokenID auth"
    by (simp_all add: na_def new_agent_of_def sample_env_def)
  let ?row = "new_agent_row 50 na" and ?t = "t\<lparr>bt_UsedCount := bt_UsedCount t + 1\<rparr>"
  have g: "pg_GetAgentByInstanceUID uid (op_db s) = Inl ErrNotFound"
    using assms(3) by (auto simp: pg_GetAgentByInstanceUID_def find_None_set split: option.splits dest!: find_SomeD)
  have row: "ag_ID ?row = i" "ag_InstanceUID ?row = uid" by (simp_all add: new_agent_row_def na)
  have "\<exists>agent db'. pg_EnrollAgent 50 na (op_db s) = (Inr agent, db') \<and> ag_ID agent = i \<and>
      bootstrap_tokens db' = [?t] \<and> agents db' = agents (op_db s) @ [?row] \<and> customers db' = customers (op_db s)"
  proof -
    let ?db1 = "(op_db s)\<lparr>agents := agents (op_db s) @ [?row]\<rparr>"
    have 1: "insert_agent 50 na (op_db s) = Inr ?db1"
      unfolding insert_agent_Inr using assms(3-7) by (simp add: na id_list_defs int8_ok_def)
    have 2: "increment_used_count (ca_TokenID auth) ?db1 = Inr (?db1\<lparr>bootstrap_tokens := [?t]\<rparr>)"
      using assms(6-8) by (simp add: increment_used_count_def upd_where_def)
    let ?db3 = "?db1\<lparr>bootstrap_tokens := [?t], agent_events := agent_events (op_db s) @
         [\<lparr>ev_ID = event_seq (op_db s), ev_AgentID = i, ev_EventType = ''enrolled'',
           ev_Detail = Some (JObj [(''token'', JStr (uuid_String (ca_TokenID auth)))]), ev_CreatedAt = 50\<rparr>],
         event_seq := event_seq (op_db s) + 1\<rparr>"
    have 3: "insertAgentEvent 50 i ''enrolled'' (Some (JObj [(''token'', JStr (uuid_String (ca_TokenID auth)))]))
        (?db1\<lparr>bootstrap_tokens := [?t]\<rparr>) = Inr ?db3"
      by (simp add: insertAgentEvent_def agent_event_types_def id_list_defs row)
    have "find (\<lambda>a. ag_ID a = i) (agents (op_db s) @ [?row]) = Some ?row"
    proof -
      have "find (\<lambda>a. ag_ID a = i) (agents (op_db s)) = None"
        using assms(4) by (auto simp: find_None_iff id_list_defs)
      then show ?thesis using row by (simp add: find_append)
    qed
    then have 4: "pg_GetAgent i ?db3 = Inr (agent_view ?db3 ?row)" by (simp add: pg_GetAgent_def)
    have "pg_EnrollAgent 50 na (op_db s) = (Inr (agent_view ?db3 ?row), ?db3)"
      unfolding pg_EnrollAgent_def inTx_Inr by (simp only: 1 2 3 4 na sum.case)
    moreover have "ag_ID (agent_view ?db3 ?row) = i" by (simp add: agent_view_def agent_cols.defs row)
    ultimately show ?thesis by simp
  qed
  then obtain agent db' where e: "pg_EnrollAgent 50 na (op_db s) = (Inr agent, db')" "ag_ID agent = i"
    and r: "bootstrap_tokens db' = [?t]" "agents db' = agents (op_db s) @ [?row]" "customers db' = customers (op_db s)" by blast
  have m: "message_agent (sample_env i) conn auth (sample_msg uid) s =
      (Resolved (enrolled_conn conn auth uid 0 agent), s\<lparr>op_db := db'\<rparr>)"
    using assms(2) e(1) unfolding na_def d_def
    by (simp add: message_agent_def sample_msg_def resolveAgent.simps g on_db_def) (simp add: sample_env_def)
  define st where "st = (enrolled_conn conn auth uid 0 agent)\<lparr>ac_conn := conn, ac_lastSeen := 50, ac_dirtySeen := True,
    ac_capabilities := 0\<rparr>"
  have st: "ac_agentID st = i" "ac_instanceUID st = uid" by (simp_all add: st_def enrolled_conn_def e(2))
  have "s' = snd (on_db (pg_SetAgentConnected 50 i True 50) (on_reg (reg_put st) (s\<lparr>op_db := db'\<rparr>)))"
    unfolding s'_def HandleMessage_def m
    using assms(1,2,9) by (simp add: handle_resolved_def handle_reports_def maybeOfferConfig_def maybeOfferAgentToken_def
        sample_msg_def sample_env_def Let_def st_def enrolled_conn_def e(2) case_prod_unfold)
  then have s': "s' = s\<lparr>op_db := snd (pg_SetAgentConnected 50 i True 50 db'), op_reg := reg_put st (op_reg s)\<rparr>"
    by (simp add: snd_on_db on_reg_def)
  have t: "touches i db' (snd (pg_SetAgentConnected 50 i True 50 db'))" by (rule agent_tx_touch)
  have f: "bootstrap_tokens (op_db s') = bootstrap_tokens db'" "map ag_ID (agents (op_db s')) = map ag_ID (agents db')"
    "map ag_InstanceUID (agents (op_db s')) = map ag_InstanceUID (agents db')" "customers (op_db s') = customers db'"
    "reg_get u (op_reg s') = (if u = uid then Some st else reg_get u (op_reg s))"
    using SetAgentConnected_tokens touches_ids [OF t] touches_uids [OF t] t
    by (simp_all add: s' reg.get_put st id_list_defs touches_def)
  show "bootstrap_tokens (op_db s') = [?t]"
    "map ag_ID (agents (op_db s')) = map ag_ID (agents (op_db s)) @ [i]"
    "map ag_InstanceUID (agents (op_db s')) = map ag_InstanceUID (agents (op_db s)) @ [uid]"
    "customers (op_db s') = customers (op_db s)" "u \<noteq> uid \<Longrightarrow> reg_get u (op_reg s') = reg_get u (op_reg s)"
    using r f row by (simp_all add: id_list_defs)
qed

text \<open>C37: the number of uses of an enrolment token is checked when a connection is accepted, and not again when
  an agent is enrolled. One accepted connection of a token with a single use enrols two agents, by sending
  messages with two instance UIDs.\<close>

theorem enrolment_exceeds_max_uses:
  "\<exists>auth t. Authenticate 50 (''Bearer '' @ sample_enrol_token) sample_opamp_db = Inr auth \<and>
    bootstrap_tokens (op_db (snd (HandleMessage sample_handler (sample_env 9) (Some 1) auth (sample_msg ''uid9'')
      (snd (HandleMessage sample_handler (sample_env 8) (Some 1) auth (sample_msg ''uid8'') (opamp_init sample_opamp_db)))))) = [t] \<and>
    bt_MaxUses t = 1 \<and> bt_UsedCount t = 2"
proof -
  define auth where "auth = \<lparr>ca_TokenID = 6, ca_CustomerID = 1, ca_AgentID = None, ca_ViaAgentToken = False\<rparr>"
  define s1 where "s1 = snd (HandleMessage sample_handler (sample_env 8) (Some 1) auth (sample_msg ''uid8'') (opamp_init sample_opamp_db))"
  define t where "t = hd (bootstrap_tokens sample_opamp_db)"
  have t: "bootstrap_tokens sample_opamp_db = [t]" "bt_ID t = 6" "bt_MaxUses t = 1" "bt_UsedCount t = 0"
    by (simp_all add: t_def sample_opamp_db_def)
  have i: "reg_get u (op_reg (opamp_init sample_opamp_db)) = None" "op_db (opamp_init sample_opamp_db) = sample_opamp_db" for u
    by (simp_all add: opamp_init_def reg_get_def newRegistry_def)
  have d: "map ag_ID (agents sample_opamp_db) = [7]" "map ag_InstanceUID (agents sample_opamp_db) = [''uid7'']"
    "map cust_ID (customers sample_opamp_db) = [1]"
    by (simp_all add: sample_opamp_defs)
  have m1: "bootstrap_tokens (op_db s1) = [t\<lparr>bt_UsedCount := bt_UsedCount t + 1\<rparr>]"
    "map ag_ID (agents (op_db s1)) = map ag_ID (agents (op_db (opamp_init sample_opamp_db))) @ [8]"
    "map ag_InstanceUID (agents (op_db s1)) = map ag_InstanceUID (agents (op_db (opamp_init sample_opamp_db))) @ [''uid8'']"
    "customers (op_db s1) = customers (op_db (opamp_init sample_opamp_db))"
    "reg_get ''uid9'' (op_reg s1) = reg_get ''uid9'' (op_reg (opamp_init sample_opamp_db))"
    unfolding s1_def
    by (rule enrolling_message [where t = t]; simp add: i d t auth_def id_list_defs int4_ok_def)+
  have "bootstrap_tokens (op_db (snd (HandleMessage sample_handler (sample_env 9) (Some 1) auth (sample_msg ''uid9'') s1))) =
     [t\<lparr>bt_UsedCount := 1\<rparr>\<lparr>bt_UsedCount := bt_UsedCount (t\<lparr>bt_UsedCount := 1\<rparr>) + 1\<rparr>]"
    by (rule enrolling_message; simp add: m1 i d t auth_def id_list_defs int4_ok_def)
  then show ?thesis
    using sample_authenticate(2) t unfolding auth_def [symmetric] s1_def by auto
qed

end
