(* ===== verification/AuditLog.thy ===== *)
theory AuditLog
  imports System
begin

text \<open>
  The audit log: \<open>internal/store/pg_audit.go\<close> and the handler \<open>ListAuditLog\<close> of
  \<open>internal/api/handlers_admin.go\<close>. The log only grows, and a client that follows the cursor of the pages
  sees every entry that was there when it started exactly once, however the control plane goes on meanwhile.
\<close>

section \<open>Reading the log\<close>

record AuditFilter =
  auf_Action :: "string option"
  auf_EntityType :: "string option"
  auf_CustomerID :: "uuid option"
  auf_ActorUserID :: "uuid option"
  auf_From :: "time option"
  auf_To :: "time option"
  auf_Limit :: int
  auf_BeforeID :: "int option"

record AuditRow = audit_row +
  ar_ActorEmail :: "string option"
  ar_CustomerName :: "string option"

definition opt_is :: "'a option \<Rightarrow> ('a \<Rightarrow> bool) \<Rightarrow> bool" where
  "opt_is x P = (case x of None \<Rightarrow> True | Some v \<Rightarrow> P v)"

definition audit_matches :: "AuditFilter \<Rightarrow> audit_row \<Rightarrow> bool" where
  "audit_matches f r \<longleftrightarrow> opt_is (auf_Action f) (\<lambda>v. ae_Action r = v) \<and> opt_is (auf_EntityType f) (\<lambda>v. ae_EntityType r = v) \<and>
     opt_is (auf_CustomerID f) (\<lambda>v. ae_CustomerID r = Some v) \<and> opt_is (auf_ActorUserID f) (\<lambda>v. ae_ActorUserID r = Some v) \<and>
     opt_is (auf_From f) (\<lambda>v. v \<le> al_CreatedAt r) \<and> opt_is (auf_To f) (\<lambda>v. al_CreatedAt r \<le> v) \<and>
     opt_is (auf_BeforeID f) (\<lambda>v. al_ID r < v)"

definition audit_view :: "db \<Rightarrow> audit_row \<Rightarrow> AuditRow" where
  "audit_view db r = audit_row.extend r (AuditRow.fields
     (Option.bind (ae_ActorUserID r) (\<lambda>i. map_option u_Email (find (\<lambda>u. u_ID u = i) (users db))))
     (Option.bind (ae_CustomerID r) (\<lambda>i. map_option cust_Name (find (\<lambda>c. cust_ID c = i) (customers db)))))"

definition pg_ListAuditLog :: "AuditFilter \<Rightarrow> db \<Rightarrow> store_error + AuditRow list" where
  "pg_ListAuditLog f db =
    (if auf_Limit f < 0 then Inl (ErrDB ''LIMIT must not be negative'')
     else Inr (map (audit_view db) (take (nat (auf_Limit f))
       (sort_key (\<lambda>r. - al_ID r) (filter (audit_matches f) (audit_log db))))))"

record AuditEntry =
  en_Id :: int
  en_ActorType :: string
  en_ActorUserId :: "uuid option"
  en_ActorEmail :: "string option"
  en_Action :: string
  en_EntityType :: string
  en_EntityId :: string
  en_CustomerId :: "uuid option"
  en_CustomerName :: "string option"
  en_Payload :: "json option"
  en_CreatedAt :: time

text \<open>A payload is decoded into a Go map, which takes an object or null.\<close>

fun payload_map :: "json option \<Rightarrow> json option" where
  "payload_map (Some (JObj m)) = Some (JObj m)"
| "payload_map (Some JNull) = Some JNull"
| "payload_map _ = None"

definition audit_entry :: "AuditRow \<Rightarrow> AuditEntry" where
  "audit_entry r = \<lparr>en_Id = al_ID r, en_ActorType = ae_ActorType r, en_ActorUserId = ae_ActorUserID r,
     en_ActorEmail = ar_ActorEmail r, en_Action = ae_Action r, en_EntityType = ae_EntityType r,
     en_EntityId = ae_EntityID r, en_CustomerId = ae_CustomerID r, en_CustomerName = ar_CustomerName r,
     en_Payload = payload_map (ae_Payload r), en_CreatedAt = al_CreatedAt r\<rparr>"

definition clamp_limit :: "int option \<Rightarrow> int" where
  "clamp_limit l = (let n = coalesce l 50; n = (if n < 1 then 1 else n) in if n > 200 then 200 else n)"

text \<open>The request's parameters are the filter without the limit; the answer is a page and the next cursor.\<close>

definition ListAuditLog :: "AuditFilter \<Rightarrow> int option \<Rightarrow> db \<Rightarrow> store_error + AuditEntry list \<times> int option" where
  "ListAuditLog params limit0 db =
    (let limit = clamp_limit limit0
     in case pg_ListAuditLog (params\<lparr>auf_Limit := limit\<rparr>) db of
          Inl e \<Rightarrow> Inl e
        | Inr rows \<Rightarrow> Inr (map audit_entry rows, if int (length rows) = limit then Some (al_ID (last rows)) else None))"

section \<open>The log only grows\<close>

definition log_of :: "db \<Rightarrow> audit_row list \<times> int" where
  "log_of db = (audit_log db, audit_seq db)"

definition grows :: "audit_row list \<times> int \<Rightarrow> audit_row list \<times> int \<Rightarrow> bool" where
  "grows l l' \<longleftrightarrow> (\<exists>rows. fst l' = fst l @ rows \<and> (\<forall>r \<in> set rows. snd l \<le> al_ID r)) \<and> snd l \<le> snd l'"

abbreviation log_grows :: "db \<Rightarrow> db \<Rightarrow> bool" where
  "log_grows db db' \<equiv> grows (log_of db) (log_of db')"

lemma grows_refl [simp]: "grows l l"
  by (simp add: grows_def)

lemma grows_trans: "grows a b \<Longrightarrow> grows b c \<Longrightarrow> grows a c"
  unfolding grows_def by fastforce

lemma audit_Write_grows: "audit_Write now es db = Inr db' \<Longrightarrow> log_grows db db'"
proof (induction es arbitrary: db)
  case Nil
  then show ?case by simp
next
  case (Cons e es)
  let ?e = "if ae_ActorType e = '''' then e\<lparr>ae_ActorType := ActorUser\<rparr> else e"
  let ?r = "Entry.extend ?e (audit_row.fields (audit_seq db) now)"
  let ?db = "db\<lparr>audit_log := audit_log db @ [?r], audit_seq := audit_seq db + 1\<rparr>"
  from Cons.prems have "audit_Write now es ?db = Inr db'" by (auto simp: Let_def split: if_splits)
  then have "log_grows ?db db'" by (rule Cons.IH)
  moreover have "log_grows db ?db" by (simp add: grows_def log_of_def Entry.defs audit_row.defs)
  ultimately show ?case by (rule grows_trans [rotated])
qed

lemma commit_grows: "commit now es f db = Inr (x, db') \<Longrightarrow> log_grows db db'"
  unfolding commit_Inr using audit_Write_grows by blast

lemma inTx_grows: "(\<And>x db'. fn db = Inr (x, db') \<Longrightarrow> log_grows db db') \<Longrightarrow> log_grows db (snd (inTx fn db))"
  by (rule inTx_keeps) simp_all

named_theorems log_simps

lemma log_fields [log_simps]:
  "log_of (db\<lparr>users := a1\<rparr>) = log_of db" "log_of (db\<lparr>user_identities := a2\<rparr>) = log_of db"
  "log_of (db\<lparr>user_customer_grants := a3\<rparr>) = log_of db" "log_of (db\<lparr>api_keys := a4\<rparr>) = log_of db"
  "log_of (db\<lparr>sessions := a5\<rparr>) = log_of db" "log_of (db\<lparr>bootstrap_tokens := a6\<rparr>) = log_of db"
  "log_of (db\<lparr>agents := a7\<rparr>) = log_of db" "log_of (db\<lparr>agent_events := a8\<rparr>) = log_of db"
  "log_of (db\<lparr>event_seq := a9\<rparr>) = log_of db" "log_of (db\<lparr>webhooks := a10\<rparr>) = log_of db"
  "log_of (db\<lparr>api_tokens := a11\<rparr>) = log_of db" "log_of (db\<lparr>billing_settings := a12\<rparr>) = log_of db"
  "log_of (db\<lparr>auth_providers := a13\<rparr>) = log_of db" "log_of (db\<lparr>customers := a14\<rparr>) = log_of db"
  "log_of (db\<lparr>pipelines := a15\<rparr>) = log_of db" "log_of (db\<lparr>pipeline_versions := a16\<rparr>) = log_of db"
  by (simp_all add: log_of_def)

lemma log_helpers [log_simps]:
  "log_of (upd_user i f db) = log_of db" "log_of (deleteSessionsByUser i db) = log_of db"
  "log_of (delete_user_row i db) = log_of db" "log_of (detach_created_by i db) = log_of db"
  "log_of (apply_disabled now i d db) = log_of db"
  by (simp_all add: log_of_def upd_user_def deleteSessionsByUser_def delete_user_row_def detach_created_by_def
      apply_disabled_def split: option.splits bool.splits)

lemma log_insert_user: "insert_user e u db = Inr db' \<Longrightarrow> log_of db' = log_of db"
  by (auto simp: insert_user_Inr log_simps)

lemma log_insert_identity: "insert_identity p s u db = Inr (x, db') \<Longrightarrow> log_of db' = log_of db"
  by (auto simp: insert_identity_def log_simps split: if_splits)

lemma log_insert_grants: "insert_grants i cs db = Inr db' \<Longrightarrow> log_of db' = log_of db"
  by (induction cs arbitrary: db) (auto simp: log_simps split: if_splits)

lemma log_resolve_user: "resolve_user now i p s e d r db = Inr (x, db') \<Longrightarrow> log_of db' = log_of db"
  by (auto simp: resolve_user_def Let_def split: option.splits sum.splits dest!: log_insert_user log_insert_identity)

lemma user_step_grows: "user_step db db' \<Longrightarrow> log_grows db db'"
proof (induction rule: user_step.induct)
  case (login db now i p s email dn role)
  show ?case unfolding pg_UpsertUserByIdentity_def
    by (rule inTx_grows) (auto simp: Let_def log_simps split: sum.splits dest!: log_resolve_user)
next
  case (scim_create db now i email role dn ext es)
  show ?case unfolding pg_CreateSCIMUser_def Let_def
    by (rule inTx_grows) (auto split: sum.splits dest!: log_insert_user commit_grows)
next
  case (scim_update db now i dn ext es)
  show ?case unfolding pg_UpdateSCIMUser_def Let_def
    by (rule inTx_grows) (auto simp: log_simps split: option.splits if_splits dest!: commit_grows)
next
  case (invite db now i email role es)
  show ?case unfolding pg_CreateInvitedUser_def Let_def
    by (rule inTx_grows) (auto split: sum.splits dest!: log_insert_user commit_grows)
next
  case (grants db now i cids es)
  show ?case unfolding pg_SetUserCustomerGrants_def
    by (rule inTx_grows) (auto simp: log_simps split: sum.splits if_splits dest!: log_insert_grants commit_grows)
next
  case (update_admin db now i upd es)
  show ?case unfolding pg_UpdateUserAdmin_def Let_def
    by (rule inTx_grows) (auto simp: log_simps split: sum.splits option.splits if_splits dest!: commit_grows)
next
  case (delete_user db now i es)
  show ?case unfolding pg_DeleteUser_def Let_def
    by (rule inTx_grows) (auto simp: log_simps split: sum.splits if_splits dest!: commit_grows)
qed

lemma settings_step_grows: "settings_step db db' \<Longrightarrow> log_grows db db'"
  by (induction rule: settings_step.induct)
    (simp_all only: pg_CreateAPIToken_def pg_RevokeAPIToken_def pg_CreateWebhook_def pg_UpdateWebhook_def
       pg_DeleteWebhook_def pg_WriteAuditEntries_def pg_UpdateBillingSettings_def pg_CreateAuthProvider_def
       pg_UpdateAuthProvider_def pg_DeleteAuthProvider_def,
     (rule inTx_grows, auto simp: log_simps Let_def split: sum.splits option.splits if_splits dest!: commit_grows)+)

lemma log_upd_agent: "upd_agent i f db = Inr db' \<Longrightarrow> log_of db' = log_of db"
  by (auto simp: upd_agent_Inr log_simps)

lemma log_exec_agent [log_simps]: "log_of (snd (exec_agent i f db)) = log_of db"
  by (auto simp: exec_agent_def log_upd_agent split: sum.splits)

lemma log_event: "insertAgentEvent now i t d db = Inr db' \<Longrightarrow> log_of db' = log_of db"
  by (auto simp: insertAgentEvent_Inr log_of_def)

lemma log_maybe_event: "maybe_event now i t d db = Inr (x, db') \<Longrightarrow> log_of db' = log_of db"
  by (auto simp: maybe_event_def split: option.splits sum.splits dest!: log_event)

lemma log_touch [log_simps]: "log_of (pg_TouchAgents seen db) = log_of db"
  unfolding pg_TouchAgents_def by (induction seen arbitrary: db) (auto simp: touch_agent_def log_simps)

lemma EnrollAgent_grows: "log_grows db (snd (pg_EnrollAgent now a db))"
  unfolding pg_EnrollAgent_def
  by (rule inTx_grows) (auto simp: insert_agent_Inr log_simps split: sum.splits dest!: log_event increment_Inr)

lemma DeleteAgent_grows: "log_grows db (snd (pg_DeleteAgent now i es db))"
  unfolding pg_DeleteAgent_def
  by (rule inTx_grows) (auto simp: log_of_def split: if_splits dest!: commit_grows)

lemma bootstrap_grows:
  "log_grows db (snd (pg_CreateBootstrapToken now t es db))" "log_grows db (snd (pg_RevokeBootstrapToken now c i es db))"
  unfolding pg_CreateBootstrapToken_def pg_RevokeBootstrapToken_def
  by (auto simp: log_simps split: sum.splits if_splits intro!: inTx_grows dest!: commit_grows)

lemma agent_tx_grows:
  "log_grows db (snd (pg_UpdateAgentMeta now i dn labels es db))" "log_grows db (snd (pg_SetAgentConnected now i c at db))"
  "log_grows db (snd (pg_SetAgentRemoteConfigStatus now i status msg et d db))"
  "log_grows db (snd (pg_SetAgentHealth now i h b et db))"
  unfolding pg_UpdateAgentMeta_def pg_SetAgentConnected_def pg_SetAgentRemoteConfigStatus_def pg_SetAgentHealth_def
  by (rule inTx_grows, auto split: sum.splits if_splits
        dest!: log_upd_agent log_event log_maybe_event commit_grows)+

lemma fleet_step_grows: "fleet_step db db' \<Longrightarrow> log_grows db db'"
  by (erule fleet_stepE)
    (simp_all add: bootstrap_grows EnrollAgent_grows DeleteAgent_grows agent_tx_grows pg_SetAgentToken_def
       pg_UpdateAgentDescription_def pg_SetAgentAssignedConfig_def pg_SetAgentAckedConfig_def
       pg_SetAgentEffectiveConfig_def log_simps)

lemma customer_grows:
  "log_grows db (snd (pg_UpdateCustomer now i upd es db))" "log_grows db (snd (pg_SoftDeleteCustomer now i es db))"
  "log_grows db (snd (pg_RevokeAPIKey now i k es db))"
  unfolding pg_UpdateCustomer_def pg_SoftDeleteCustomer_def pg_RevokeAPIKey_def Let_def
  by (rule inTx_grows, auto simp: log_simps split: sum.splits if_splits dest!: audit_Write_grows)+

lemma log_insertAPIKey: "insertAPIKey now k db = Inr (x, db') \<Longrightarrow> log_of db' = log_of db"
  by (auto simp: insertAPIKey_Inr log_simps)

lemma key_grows:
  "log_grows db (snd (pg_CreateAPIKey now k es db))" "log_grows db (pg_TouchAPIKeys seen db)"
proof -
  show "log_grows db (snd (pg_CreateAPIKey now k es db))"
    unfolding pg_CreateAPIKey_def
    by (auto split: sum.splits if_splits intro!: inTx_grows dest!: log_insertAPIKey audit_Write_grows)
  have "log_of (pg_TouchAPIKeys seen db) = log_of db"
    unfolding pg_TouchAPIKeys_def by (induction seen arbitrary: db) (auto simp: touch_key_def log_simps)
  then show "log_grows db (pg_TouchAPIKeys seen db)" by simp
qed

lemma pg_CreateCustomer_grows: "log_grows db (snd (pg_CreateCustomer now nc nk es db))"
  unfolding pg_CreateCustomer_def
  by (rule inTx_grows)
    (auto simp: insert_customer_Inr log_simps split: sum.splits dest!: log_insertAPIKey audit_Write_grows)

lemma create_attempt_grows: "create_attempt actor name s d db = (Inr c, db') \<Longrightarrow> log_grows db db'"
  by (auto simp: create_attempt_def Let_def split: option.splits sum.splits key_error.splits prod.splits
      dest!: arg_cong [of "pg_CreateCustomer _ _ _ _ _" _ snd]) (metis pg_CreateCustomer_grows snd_conv)

lemma CreateCustomer_grows: "log_grows db (snd (CreateCustomer actor name slug dr db))"
proof (cases "CreateCustomer actor name slug dr db")
  case (Pair r db')
  show ?thesis
  proof (cases r)
    case (Inl e)
    with Pair CreateCustomer_Inl [of actor name slug dr db] show ?thesis by simp
  next
    case (Inr c)
    with CreateCustomer_Inr [OF Pair [unfolded Inr]] create_attempt_grows show ?thesis by (auto simp: Pair)
  qed
qed

lemma log_insertPipelineVersion: "insertPipelineVersion now v n db = Inr db' \<Longrightarrow> log_of db' = log_of db"
  by (auto simp: insertPipelineVersion_Inr log_simps)

lemma pipeline_grows:
  "log_grows db (snd (pg_CreatePipeline now p v es db))" "log_grows db (snd (pg_CreatePipelineVersion now v es db))"
  "log_grows db (snd (pg_ActivatePipelineVersion now pid n es db))" "log_grows db (snd (pg_DeletePipeline now pid es db))"
  unfolding pg_CreatePipeline_def pg_CreatePipelineVersion_def pg_ActivatePipelineVersion_def pg_DeletePipeline_def Let_def
  by (rule inTx_grows, auto simp: log_simps split: sum.splits if_splits prod.splits
        dest!: log_insertPipelineVersion commit_grows)+

lemma snd_grows: "f db = (x, db') \<Longrightarrow> log_grows db (snd (f db)) \<Longrightarrow> log_grows db db'"
  by simp

lemma service_grows:
  "log_grows db (snd (Create sv rnd now vid pid actor cid name cls g db))"
  "log_grows db (snd (CreateVersion sv rnd now vid actor pid g db))"
  unfolding Create_def CreateVersion_def Let_def
  by (auto split: sum.splits option.splits prod.splits if_splits dest!: snd_grows [OF _ pipeline_grows(1)] snd_grows [OF _ pipeline_grows(2)])

lemma system_step_grows: "system_step sv db db' \<Longrightarrow> log_grows db db'"
proof (induction rule: system_step.induct)
  case (activate st now actor pid n)
  then show ?case using Activate_db [of sv now actor pid n st] pipeline_grows(3) by metis
next
  case (delete st now actor pid)
  then show ?case using Delete_db [of sv now actor pid st] pipeline_grows(4) grows_refl by metis
qed (simp_all add: CreateCustomer_grows customer_grows key_grows user_step_grows fleet_step_grows settings_step_grows
      service_grows)

lemma system_steps_grow: "(system_step sv)\<^sup>*\<^sup>* db db' \<Longrightarrow> log_grows db db'"
  by (induction rule: rtranclp_induct) (auto intro: grows_trans dest: system_step_grows)

section \<open>Following the cursor\<close>

text \<open>The rows a request ranges over, newest first, and what an entry says apart from the two joined names,
  which may be renamed while a client reads.\<close>

definition matching :: "AuditFilter \<Rightarrow> db \<Rightarrow> audit_row list" where
  "matching f db = sort_key (\<lambda>r. - al_ID r) (filter (audit_matches f) (audit_log db))"

definition entry_core :: "AuditEntry \<Rightarrow> AuditEntry" where
  "entry_core e = e\<lparr>en_ActorEmail := None, en_CustomerName := None\<rparr>"

definition row_core :: "audit_row \<Rightarrow> AuditEntry" where
  "row_core r = audit_entry (audit_row.extend r (AuditRow.fields None None))"

text \<open>A client that asks for the next page until there is none; request \<open>k\<close> is answered from the database
  \<open>hist k\<close>.\<close>

fun follow :: "nat \<Rightarrow> (nat \<Rightarrow> db) \<Rightarrow> nat \<Rightarrow> AuditFilter \<Rightarrow> int option \<Rightarrow> AuditEntry list option" where
  "follow 0 hist k params lim = None"
| "follow (Suc fuel) hist k params lim =
    (case ListAuditLog params lim (hist k) of
       Inl e \<Rightarrow> None
     | Inr (page, None) \<Rightarrow> Some page
     | Inr (page, Some i) \<Rightarrow> map_option ((@) page) (follow fuel hist (Suc k) (params\<lparr>auf_BeforeID := Some i\<rparr>) lim))"

lemma clamp_pos: "1 \<le> clamp_limit lim"
  by (simp add: clamp_limit_def Let_def)

lemma core_view: "entry_core (audit_entry (audit_view db r)) = row_core r"
  by (simp add: entry_core_def row_core_def audit_entry_def audit_view_def audit_row.defs AuditRow.defs)

lemma ListAuditLog_page:
  "ListAuditLog params lim db = Inr (map (audit_entry \<circ> audit_view db) (take (nat (clamp_limit lim)) (matching params db)),
     if nat (clamp_limit lim) \<le> length (matching params db)
     then Some (al_ID (matching params db ! (nat (clamp_limit lim) - 1))) else None)"
proof -
  let ?n = "nat (clamp_limit lim)" let ?m = "matching params db"
  have n: "\<not> clamp_limit lim < 0" "0 < ?n" "int ?n = clamp_limit lim" using clamp_pos [of lim] by simp_all
  have m: "filter (audit_matches (params\<lparr>auf_Limit := l\<rparr>)) = filter (audit_matches params)" for l
    by (simp add: audit_matches_def [abs_def])
  have l: "int (length (take ?n ?m)) = clamp_limit lim \<longleftrightarrow> ?n \<le> length ?m" using n by (auto simp: min_def)
  have i: "al_ID (last (map (audit_view db) (take ?n ?m))) = al_ID (?m ! (?n - 1))" if "?n \<le> length ?m"
  proof -
    have t: "take ?n ?m \<noteq> []" using that n(2) by auto
    then have "last (take ?n ?m) = ?m ! (?n - 1)" using that n(2) by (simp add: last_conv_nth min_def)
    with t show ?thesis by (simp add: last_map audit_view_def audit_row.defs)
  qed
  show ?thesis
    unfolding ListAuditLog_def pg_ListAuditLog_def Let_def using n(1) l i
    by (simp add: m matching_def [symmetric])
qed

lemma matching_sorted:
  assumes "distinct (map al_ID (audit_log db))"
  shows "sorted_wrt (\<lambda>x y. al_ID y < al_ID x) (matching f db)"
proof -
  have "distinct (map al_ID (matching f db))"
    using assms by (simp add: matching_def distinct_map inj_on_def)
  moreover have "sorted_wrt (\<lambda>x y. al_ID y \<le> al_ID x) (matching f db)"
    using sorted_sort_key [of "\<lambda>r. - al_ID r" "filter (audit_matches f) (audit_log db)"]
    by (simp add: matching_def sorted_map)
  ultimately show ?thesis
    by (simp add: sorted_wrt_iff_nth_less distinct_conv_nth) (metis le_less nat_less_le less_trans)
qed

lemma filter_below:
  assumes "sorted_wrt (\<lambda>x y. al_ID y < al_ID x) rs" "n < length rs"
  shows "filter (\<lambda>r. al_ID r < al_ID (rs ! n)) rs = drop (Suc n) rs"
  using assms
proof (induction rs arbitrary: n)
  case (Cons x xs)
  show ?case
  proof (cases n)
    case 0
    with Cons.prems show ?thesis by (simp add: filter_id_conv)
  next
    case (Suc m)
    with Cons.prems have m: "m < length xs" "\<forall>y \<in> set xs. al_ID y < al_ID x" by simp_all
    have "al_ID (xs ! m) < al_ID x" using m(2) nth_mem [OF m(1)] by blast
    then have g: "\<not> al_ID x < al_ID (xs ! m)" by simp
    show ?thesis using Suc Cons.IH [of m] Cons.prems by (simp add: g)
  qed
qed simp

lemma next_page:
  assumes "distinct (map al_ID (audit_log db))" "n < length (matching f db)"
  shows "matching (f\<lparr>auf_BeforeID := Some (al_ID (matching f db ! n))\<rparr>) db = drop (Suc n) (matching f db)"
proof -
  let ?i = "al_ID (matching f db ! n)"
  have "matching f db ! n \<in> set (matching f db)" using assms(2) by simp
  then have m: "audit_matches f (matching f db ! n)" by (simp add: matching_def)
  define i where "i = ?i"
  have "opt_is (auf_BeforeID f) (\<lambda>v. i < v)" using m by (simp add: audit_matches_def i_def)
  then have "audit_matches (f\<lparr>auf_BeforeID := Some i\<rparr>) r \<longleftrightarrow> audit_matches f r \<and> al_ID r < i" for r
    by (cases "auf_BeforeID f") (auto simp: audit_matches_def opt_is_def)
  then have "filter (audit_matches (f\<lparr>auf_BeforeID := Some i\<rparr>)) rs = filter (\<lambda>r. al_ID r < i) (filter (audit_matches f) rs)" for rs
    unfolding filter_filter by (intro filter_cong) simp_all
  then have "matching (f\<lparr>auf_BeforeID := Some ?i\<rparr>) db = filter (\<lambda>r. al_ID r < ?i) (matching f db)"
    unfolding i_def [symmetric] by (simp only: matching_def filter_sort)
  with filter_below [OF matching_sorted [OF assms(1)] assms(2)] show ?thesis by simp
qed

text \<open>Rows that were added later have identifiers above the cursor.\<close>

lemma matching_stable:
  assumes "log_grows db db'" "i \<le> audit_seq db"
  shows "matching (f\<lparr>auf_BeforeID := Some i\<rparr>) db' = matching (f\<lparr>auf_BeforeID := Some i\<rparr>) db"
proof -
  obtain rows where r: "audit_log db' = audit_log db @ rows" "\<forall>r \<in> set rows. audit_seq db \<le> al_ID r"
    using assms(1) by (auto simp: grows_def log_of_def)
  have "filter (audit_matches (f\<lparr>auf_BeforeID := Some i\<rparr>)) rows = []"
    using r(2) assms(2) by (fastforce simp: filter_empty_conv audit_matches_def opt_is_def)
  then show ?thesis by (simp add: matching_def r)
qed

lemma follow_complete:
  assumes "audit_wf (audit_seq db) (audit_log db)" "\<forall>j > k. log_grows db (hist j)"
    "matching f (hist k) = matching f db" "length (matching f db) < fuel * nat (clamp_limit lim)"
  shows "\<exists>es. follow fuel hist k f lim = Some es \<and> map entry_core es = map row_core (matching f db)"
  using assms(2-4)
proof (induction fuel arbitrary: k f)
  case (Suc fuel)
  define n where "n = nat (clamp_limit lim)"
  define page where "page = map (audit_entry \<circ> audit_view (hist k)) (take n (matching f db))"
  have n: "0 < n" using clamp_pos [of lim] by (simp add: n_def)
  have core: "map entry_core page = map row_core (take n (matching f db))" by (simp add: page_def core_view)
  note req = ListAuditLog_page [of f lim "hist k", folded n_def, unfolded Suc.prems(2), folded page_def]
  show ?case
  proof (cases "n \<le> length (matching f db)")
    case False
    with core show ?thesis by (simp add: req)
  next
    case True
    let ?r = "matching f db ! (n - 1)" let ?f = "f\<lparr>auf_BeforeID := Some (al_ID ?r)\<rparr>"
    have "?r \<in> set (matching f db)" using True n by simp
    then have "?r \<in> set (audit_log db)" by (simp add: matching_def)
    then have i: "al_ID ?r \<le> audit_seq db" using assms(1) by (auto simp: audit_wf_def list_all_iff)
    have m: "matching ?f db = drop n (matching f db)"
      using next_page [of db "n - 1" f] assms(1) True n by (simp add: audit_wf_def)
    have "\<exists>es. follow fuel hist (Suc k) ?f lim = Some es \<and> map entry_core es = map row_core (matching ?f db)"
    proof (rule Suc.IH)
      show "\<forall>j > Suc k. log_grows db (hist j)" using Suc.prems(1) by simp
      show "matching ?f (hist (Suc k)) = matching ?f db" using Suc.prems(1) i by (simp add: matching_stable)
      show "length (matching ?f db) < fuel * nat (clamp_limit lim)"
        unfolding m using Suc.prems(3) True by (simp add: n_def [symmetric])
    qed
    then obtain es where es: "follow fuel hist (Suc k) ?f lim = Some es" "map entry_core es = map row_core (drop n (matching f db))"
      unfolding m by blast
    have "follow (Suc fuel) hist k f lim = Some (page @ es)" using True es(1) by (simp add: req)
    moreover have "map entry_core (page @ es) = map row_core (matching f db)"
      unfolding map_append core es(2) by (simp flip: map_append)
    ultimately show ?thesis by blast
  qed
qed simp

lemma history_grows: "\<forall>k. (system_step sv)\<^sup>*\<^sup>* (hist k) (hist (Suc k)) \<Longrightarrow> log_grows (hist 0) (hist j)"
  by (induction j) (auto intro: grows_trans dest: system_steps_grow)


definition sample_log :: db where
  "sample_log = snd (pg_WriteAuditEntries 5 [user_entry None ''a'' ''t'' ''1'' None None, user_entry None ''b'' ''t'' ''2'' None None,
     user_entry None ''a'' ''t'' ''3'' None None] (db_init 0))"

definition sample_filter :: AuditFilter where
  "sample_filter = \<lparr>auf_Action = Some ''a'', auf_EntityType = None, auf_CustomerID = None, auf_ActorUserID = None,
     auf_From = None, auf_To = None, auf_Limit = 0, auf_BeforeID = None\<rparr>"

lemma sample_log_rows: "map al_ID (matching sample_filter sample_log) = [3, 1]"
  by code_simp


end
