(* ===== verification/Handlers.thy ===== *)
theory Handlers
  imports ApiGuard PipelineService TenantTokens
begin

text \<open>
  The handlers of the management API for the resources of a customer: customers and API keys
  (\<open>internal/api/handlers.go\<close>), agents and bootstrap tokens (\<open>internal/api/handlers_fleet.go\<close>), pipelines and
  their versions (\<open>internal/api/handlers_pipelines.go\<close>). A handler gets the principal the middleware \<open>Guard\<close>
  has put into the request's context, the parsed request, and what the call draws (clock, fresh
  identifiers, random bytes), and returns an answer and the state of the server.
\<close>

section \<open>Answers\<close>

text \<open>An error is a status with a message; \<open>Internal\<close> is an error value the router turns into a 500.\<close>

datatype api_error =
    BadRequest string
  | Forbidden string
  | NotFound string
  | Conflict string
  | Internal

type_synonym 'a reply = "api_error + 'a"

record api_env =
  av_now :: time
  av_id :: uuid
  av_id2 :: uuid
  av_rand :: "bytes option"
  av_draws :: "nat \<Rightarrow> draws"
  av_nonces :: "nat \<Rightarrow> bytes option"

definition actorID :: "Principal option \<Rightarrow> uuid option" where
  "actorID pr = (case pr of
      None \<Rightarrow> None
    | Some p \<Rightarrow> if u_ID (p_User p) \<noteq> uuid_Nil then Some (u_ID (p_User p)) else None)"

text \<open>A handler that asks for access first.\<close>

definition with_access :: "string + unit \<Rightarrow> ('s \<Rightarrow> 'a reply \<times> 's) \<Rightarrow> 's \<Rightarrow> 'a reply \<times> 's" where
  "with_access check k s = (case check of Inl m \<Rightarrow> (Inl (Forbidden m), s) | Inr _ \<Rightarrow> k s)"

section \<open>Customers and API keys\<close>

record apiCustomer =
  vc_Id :: uuid
  vc_Slug :: string
  vc_Name :: string
  vc_ClientId :: string
  vc_Status :: string
  vc_RateLimitItemsPerSec :: "int option"
  vc_RetentionDays :: "int option"
  vc_CreatedAt :: time

definition toCustomer :: "Customer \<Rightarrow> apiCustomer" where
  "toCustomer c = \<lparr>vc_Id = cust_ID c, vc_Slug = cust_Slug c, vc_Name = cust_Name c, vc_ClientId = cust_ClientID c,
     vc_Status = cust_Status c, vc_RateLimitItemsPerSec = cust_RateLimitItemsPerSec c,
     vc_RetentionDays = cust_RetentionDays c, vc_CreatedAt = cust_CreatedAt c\<rparr>"

record apiKeyView =
  vk_Id :: uuid
  vk_CustomerId :: uuid
  vk_Name :: string
  vk_KeyPrefix :: string
  vk_CreatedAt :: time
  vk_ExpiresAt :: "time option"
  vk_RevokedAt :: "time option"
  vk_LastUsedAt :: "time option"

definition toAPIKey :: "APIKey \<Rightarrow> apiKeyView" where
  "toAPIKey k = \<lparr>vk_Id = ak_ID k, vk_CustomerId = ak_CustomerID k, vk_Name = ak_Name k, vk_KeyPrefix = ak_KeyPrefix k,
     vk_CreatedAt = ak_CreatedAt k, vk_ExpiresAt = ak_ExpiresAt k, vk_RevokedAt = ak_RevokedAt k,
     vk_LastUsedAt = ak_LastUsedAt k\<rparr>"

definition toAPIKeyCreated :: "APIKey \<Rightarrow> string \<Rightarrow> apiKeyView \<times> string" where
  "toAPIKeyCreated k secret = (toAPIKey k, secret)"

definition in_scope :: "uuid list option \<Rightarrow> uuid option \<Rightarrow> bool" where
  "in_scope scope i \<longleftrightarrow> (case scope of None \<Rightarrow> True | Some allowed \<Rightarrow> (case i of None \<Rightarrow> False | Some c \<Rightarrow> c \<in> set allowed))"

definition api_ListCustomers :: "Principal option \<Rightarrow> string option \<Rightarrow> db \<Rightarrow> apiCustomer list reply \<times> db" where
  "api_ListCustomers pr status db =
    (Inr (map toCustomer (filter (\<lambda>c. in_scope (customerScope pr) (Some (cust_ID c))) (pg_ListCustomers status db))), db)"

definition api_CreateCustomer ::
    "Principal option \<Rightarrow> api_env \<Rightarrow> string \<Rightarrow> string option \<Rightarrow> db \<Rightarrow> (apiCustomer \<times> apiKeyView \<times> string) reply \<times> db" where
  "api_CreateCustomer pr env name slug = with_access (requireUnscoped pr) (\<lambda>db.
    case CreateCustomer (actorID pr) name slug (av_draws env) db of
      (Inr c, db') \<Rightarrow> (Inr (toCustomer (cc_Customer c), toAPIKeyCreated (cc_Key c) (cc_Secret c)), db')
    | (Inl ErrInvalidName, db') \<Rightarrow> (Inl (BadRequest ''name must be 1-200 characters''), db')
    | (Inl ErrInvalidSlug, db') \<Rightarrow> (Inl (BadRequest ''slug must match ^[a-z0-9][a-z0-9-]{1,62}[a-z0-9]$''), db')
    | (Inl (ErrStore ErrSlugExists), db') \<Rightarrow> (Inl (Conflict ''slug already exists''), db')
    | (Inl _, db') \<Rightarrow> (Inl Internal, db'))"

definition api_GetCustomer :: "Principal option \<Rightarrow> uuid \<Rightarrow> db \<Rightarrow> apiCustomer reply \<times> db" where
  "api_GetCustomer pr i = with_access (requireCustomerAccess pr (Some i)) (\<lambda>db.
    case pg_GetCustomer i db of
      Inr c \<Rightarrow> (Inr (toCustomer c), db)
    | Inl ErrNotFound \<Rightarrow> (Inl (NotFound ''customer not found''), db)
    | Inl _ \<Rightarrow> (Inl Internal, db))"

text \<open>The body of a PATCH, and the keys of the raw body: \<^term>\<open>None\<close> if no body was captured, \<^term>\<open>Some None\<close> if it
  is not a JSON object.\<close>

record customer_patch =
  cp_Name :: "string option"
  cp_Status :: "string option"
  cp_RateLimitItemsPerSec :: "int option"
  cp_RetentionDays :: "int option"

definition quotaRetentionUpdate :: "string list option option \<Rightarrow> customer_patch \<Rightarrow> OptionalInt \<times> OptionalInt" where
  "quotaRetentionUpdate raw body = (case raw of
      None \<Rightarrow> (map_option Some (cp_RateLimitItemsPerSec body), map_option Some (cp_RetentionDays body))
    | Some None \<Rightarrow> (None, None)
    | Some (Some keys) \<Rightarrow>
        (if ''rateLimitItemsPerSec'' \<in> set keys then Some (cp_RateLimitItemsPerSec body) else None,
         if ''retentionDays'' \<in> set keys then Some (cp_RetentionDays body) else None))"

definition set_and :: "OptionalInt \<Rightarrow> (int \<Rightarrow> bool) \<Rightarrow> bool" where
  "set_and v P = (case v of Some (Some n) \<Rightarrow> P n | _ \<Rightarrow> False)"

definition api_UpdateCustomer ::
    "Principal option \<Rightarrow> api_env \<Rightarrow> uuid \<Rightarrow> string list option option \<Rightarrow> customer_patch \<Rightarrow> db \<Rightarrow> apiCustomer reply \<times> db" where
  "api_UpdateCustomer pr env i raw body = with_access (requireCustomerAccess pr (Some i)) (\<lambda>db.
    let (rate, retention) = quotaRetentionUpdate raw body;
        upd = \<lparr>cu_Name = cp_Name body, cu_Status = cp_Status body, cu_RateLimitItemsPerSec = rate, cu_RetentionDays = retention\<rparr>
    in if set_and rate (\<lambda>v. v < 1) then (Inl (BadRequest ''rateLimitItemsPerSec must be >= 1 (or null for unlimited)''), db)
       else if set_and retention (\<lambda>v. v < 1 \<or> v > 30)
       then (Inl (BadRequest ''retentionDays must be between 1 and 30 (or null for the global TTL)''), db)
       else (case UpdateCustomer (av_now env) (actorID pr) i upd db of
           (Inr c, db') \<Rightarrow> (Inr (toCustomer c), db')
         | (Inl ErrInvalidName, db') \<Rightarrow> (Inl (BadRequest ''name must be 1-200 characters''), db')
         | (Inl (ErrStore ErrNotFound), db') \<Rightarrow> (Inl (NotFound ''customer not found''), db')
         | (Inl _, db') \<Rightarrow> (Inl Internal, db')))"

text \<open>The answer to a call that returns nothing but an error.\<close>

definition done_reply :: "string \<Rightarrow> (store_error + unit) \<times> 's \<Rightarrow> unit reply \<times> 's" where
  "done_reply missing r = (case r of
      (Inr _, s) \<Rightarrow> (Inr (), s)
    | (Inl ErrNotFound, s) \<Rightarrow> (Inl (NotFound missing), s)
    | (Inl _, s) \<Rightarrow> (Inl Internal, s))"

definition api_DeleteCustomer :: "Principal option \<Rightarrow> api_env \<Rightarrow> uuid \<Rightarrow> db \<Rightarrow> unit reply \<times> db" where
  "api_DeleteCustomer pr env i = with_access (requireCustomerAccess pr (Some i)) (\<lambda>db.
    done_reply ''customer not found'' (DeleteCustomer (av_now env) (actorID pr) i db))"

definition api_ListApiKeys :: "Principal option \<Rightarrow> uuid \<Rightarrow> db \<Rightarrow> apiKeyView list reply \<times> db" where
  "api_ListApiKeys pr i = with_access (requireCustomerAccess pr (Some i)) (\<lambda>db.
    case pg_ListAPIKeys i db of
      Inr keys \<Rightarrow> (Inr (map toAPIKey keys), db)
    | Inl ErrNotFound \<Rightarrow> (Inl (NotFound ''customer not found''), db)
    | Inl _ \<Rightarrow> (Inl Internal, db))"

definition api_CreateApiKey ::
    "Principal option \<Rightarrow> api_env \<Rightarrow> uuid \<Rightarrow> string \<Rightarrow> time option \<Rightarrow> db \<Rightarrow> (apiKeyView \<times> string) reply \<times> db" where
  "api_CreateApiKey pr env i name expiresAt = with_access (requireCustomerAccess pr (Some i)) (\<lambda>db.
    case CreateAPIKey (av_now env) (av_id env) (av_rand env) (actorID pr) i name expiresAt db of
      (Inr (key, secret), db') \<Rightarrow> (Inr (toAPIKeyCreated key secret), db')
    | (Inl ErrInvalidName, db') \<Rightarrow> (Inl (BadRequest ''name must be 1-200 characters''), db')
    | (Inl (ErrStore ErrNotFound), db') \<Rightarrow> (Inl (NotFound ''customer not found''), db')
    | (Inl _, db') \<Rightarrow> (Inl Internal, db'))"

definition api_RevokeApiKey :: "Principal option \<Rightarrow> api_env \<Rightarrow> uuid \<Rightarrow> uuid \<Rightarrow> db \<Rightarrow> unit reply \<times> db" where
  "api_RevokeApiKey pr env i keyID = with_access (requireCustomerAccess pr (Some i)) (\<lambda>db.
    done_reply ''api key not found'' (RevokeAPIKey (av_now env) (actorID pr) i keyID db))"

section \<open>Agents\<close>

definition hexPtr :: "bytes option \<Rightarrow> string option" where
  "hexPtr b = (case b of None \<Rightarrow> None | Some [] \<Rightarrow> None | Some x \<Rightarrow> Some (hexEncode x))"

definition configInSync :: "bytes option \<Rightarrow> bytes option \<Rightarrow> bool option" where
  "configInSync assigned acked =
    (if coalesce assigned [] = [] \<or> coalesce acked [] = [] then None else Some (assigned = acked))"

text \<open>Decoding a JSON object into a Go map of strings keeps every key, with the empty string for a value that
  is no string.\<close>

fun label_value :: "json \<Rightarrow> string" where
  "label_value (JStr s) = s"
| "label_value _ = ''''"

fun agentLabels :: "json \<Rightarrow> (string \<times> string) list" where
  "agentLabels (JObj m) = map (\<lambda>(k, v). (k, label_value v)) m"
| "agentLabels _ = []"

record apiAgent =
  va_Id :: uuid
  va_InstanceUid :: string
  va_Class :: string
  va_CustomerId :: "uuid option"
  va_CustomerName :: "string option"
  va_Name :: "string option"
  va_DisplayName :: "string option"
  va_Labels :: "(string \<times> string) list"
  va_AgentVersion :: "string option"
  va_Connected :: bool
  va_Healthy :: "bool option"
  va_LastSeenAt :: "time option"
  va_RemoteConfigStatus :: string
  va_RemoteConfigError :: "string option"
  va_AssignedConfigHash :: "string option"
  va_ReportedConfigHash :: "string option"
  va_ConfigInSync :: "bool option"
  va_CreatedAt :: time

definition toAgent :: "Agent \<Rightarrow> apiAgent" where
  "toAgent a = \<lparr>va_Id = ag_ID a, va_InstanceUid = hexEncode (ag_InstanceUID a), va_Class = ag_Class a,
     va_CustomerId = ag_CustomerID a, va_CustomerName = a_CustomerName a, va_Name = ag_Name a,
     va_DisplayName = ag_DisplayName a, va_Labels = agentLabels (ag_Labels a), va_AgentVersion = ag_AgentVersion a,
     va_Connected = ag_Connected a, va_Healthy = ag_Healthy a, va_LastSeenAt = ag_LastSeenAt a,
     va_RemoteConfigStatus = ag_RemoteConfigStatus a, va_RemoteConfigError = ag_RemoteConfigError a,
     va_AssignedConfigHash = hexPtr (ag_AssignedConfigHash a), va_ReportedConfigHash = hexPtr (ag_ReportedConfigHash a),
     va_ConfigInSync = configInSync (ag_AssignedConfigHash a) (ag_AckedConfigHash a), va_CreatedAt = ag_CreatedAt a\<rparr>"

text \<open>A stored JSON value is decoded into a Go map: an object or null, anything else is an error.\<close>

fun json_map :: "json option \<Rightarrow> json option option" where
  "json_map None = Some None"
| "json_map (Some (JObj m)) = Some (Some (JObj m))"
| "json_map (Some JNull) = Some (Some JNull)"
| "json_map _ = None"

definition toAgentDetail :: "Agent \<Rightarrow> (apiAgent \<times> json option \<times> json option) option" where
  "toAgentDetail a = (case json_map (ag_Description a) of
      None \<Rightarrow> None
    | Some description \<Rightarrow> (case json_map (ag_Health a) of
        None \<Rightarrow> None
      | Some health \<Rightarrow> Some (toAgent a, description, health)))"

definition api_ListAgents :: "Principal option \<Rightarrow> AgentFilter \<Rightarrow> db \<Rightarrow> apiAgent list reply \<times> db" where
  "api_ListAgents pr f db =
    (Inr (map toAgent (filter (\<lambda>a. in_scope (customerScope pr) (ag_CustomerID a)) (pg_ListAgents f db))), db)"

text \<open>The handlers of one agent load it and check the access to its customer.\<close>

definition with_agent :: "Principal option \<Rightarrow> uuid \<Rightarrow> (Agent \<Rightarrow> db \<Rightarrow> 'a reply \<times> db) \<Rightarrow> db \<Rightarrow> 'a reply \<times> db" where
  "with_agent pr i k db = (case pg_GetAgent i db of
      Inl ErrNotFound \<Rightarrow> (Inl (NotFound ''agent not found''), db)
    | Inl _ \<Rightarrow> (Inl Internal, db)
    | Inr a \<Rightarrow> with_access (requireCustomerAccess pr (ag_CustomerID a)) (k a) db)"

definition api_GetAgent :: "Principal option \<Rightarrow> uuid \<Rightarrow> db \<Rightarrow> (apiAgent \<times> json option \<times> json option) reply \<times> db" where
  "api_GetAgent pr i = with_agent pr i (\<lambda>a db. case toAgentDetail a of None \<Rightarrow> (Inl Internal, db) | Some d \<Rightarrow> (Inr d, db))"

definition agent_entry :: "Principal option \<Rightarrow> string \<Rightarrow> uuid \<Rightarrow> Agent \<Rightarrow> Entry" where
  "agent_entry pr action i a = user_entry (actorID pr) action ''agent'' (uuid_String i) (ag_CustomerID a)
     (Some (JObj [(''instance_uid'', JStr (hexEncode (ag_InstanceUID a)))]))"

definition api_DeleteAgent :: "Principal option \<Rightarrow> api_env \<Rightarrow> uuid \<Rightarrow> db \<Rightarrow> unit reply \<times> db" where
  "api_DeleteAgent pr env i = with_agent pr i (\<lambda>a db.
    if ag_Connected a then (Inl (Conflict ''agent is currently connected''), db)
    else done_reply ''agent not found'' (pg_DeleteAgent (av_now env) i [agent_entry pr ''agent.delete'' i a] db))"

definition api_UpdateAgent ::
    "Principal option \<Rightarrow> api_env \<Rightarrow> uuid \<Rightarrow> string option \<Rightarrow> (string \<times> string) list option \<Rightarrow> db \<Rightarrow> apiAgent reply \<times> db" where
  "api_UpdateAgent pr env i displayName0 labels = with_agent pr i (\<lambda>a db.
    let displayName = (case displayName0 of
          None \<Rightarrow> None
        | Some d \<Rightarrow> if TrimSpace d = '''' then None else Some (TrimSpace d))
    in case pg_UpdateAgentMeta (av_now env) i displayName
           (map_option (\<lambda>m. JObj (map (\<lambda>(k, v). (k, JStr v)) m)) labels) [agent_entry pr ''agent.update'' i a] db of
         (Inr updated, db') \<Rightarrow> (Inr (toAgent updated), db')
       | (Inl ErrNotFound, db') \<Rightarrow> (Inl (NotFound ''agent not found''), db')
       | (Inl _, db') \<Rightarrow> (Inl Internal, db'))"

definition api_SyncAgent :: "PipelineSvc \<Rightarrow> Principal option \<Rightarrow> api_env \<Rightarrow> uuid \<Rightarrow> db \<Rightarrow> string reply \<times> db" where
  "api_SyncAgent sv pr env i = with_agent pr i (\<lambda>a db.
    case ag_CustomerID a of
      None \<Rightarrow> (Inl (BadRequest ''re-sync applies to edge agents only; gateway configs are managed outside OpAMP''), db)
    | Some c \<Rightarrow>
        if ag_Class a \<noteq> AgentClassEdge
        then (Inl (BadRequest ''re-sync applies to edge agents only; gateway configs are managed outside OpAMP''), db)
        else (case ResyncEdge sv c db of
            Inl _ \<Rightarrow> (Inl Internal, db)
          | Inr (_, detail) \<Rightarrow>
              (Inr detail, snd (pg_WriteAuditEntries (av_now env) [agent_entry pr ''agent.sync'' i a] db))))"

definition api_GetAgentConfig :: "PipelineSvc \<Rightarrow> Principal option \<Rightarrow> uuid \<Rightarrow> db \<Rightarrow> (string \<times> string) reply \<times> db" where
  "api_GetAgentConfig sv pr i = with_agent pr i (\<lambda>a db.
    let reported = coalesce (ag_ReportedConfigYAML a) ''''
    in case (if ag_Class a = AgentClassEdge then ag_CustomerID a else None) of
         None \<Rightarrow> (Inr ('''', reported), db)
       | Some c \<Rightarrow> (case RenderEdgeCurrent (v_Marshal (sv_Validator sv)) (sv_Cipher sv) c db of
             Inl _ \<Rightarrow> (Inl Internal, db)
           | Inr assigned \<Rightarrow> (Inr (assigned, reported), db)))"

record apiAgentEvent =
  ve_Id :: int
  ve_EventType :: string
  ve_Detail :: "json option"
  ve_CreatedAt :: time

definition to_agent_event :: "AgentEvent \<Rightarrow> apiAgentEvent option" where
  "to_agent_event e = map_option (\<lambda>d. \<lparr>ve_Id = ev_ID e, ve_EventType = ev_EventType e, ve_Detail = d,
     ve_CreatedAt = ev_CreatedAt e\<rparr>) (json_map (ev_Detail e))"

definition clamp_events :: "int option \<Rightarrow> int" where
  "clamp_events l = (let n = coalesce l 50; n = (if n < 1 then 1 else n) in if n > 500 then 500 else n)"

definition api_ListAgentEvents :: "Principal option \<Rightarrow> uuid \<Rightarrow> int option \<Rightarrow> db \<Rightarrow> apiAgentEvent list reply \<times> db" where
  "api_ListAgentEvents pr i limit = with_agent pr i (\<lambda>a db.
    case pg_ListAgentEvents i (clamp_events limit) db of
      Inl ErrNotFound \<Rightarrow> (Inl (NotFound ''agent not found''), db)
    | Inl _ \<Rightarrow> (Inl Internal, db)
    | Inr events \<Rightarrow> (case those (map to_agent_event events) of
          None \<Rightarrow> (Inl Internal, db)
        | Some out \<Rightarrow> (Inr out, db)))"

section \<open>Bootstrap tokens\<close>

record apiBootstrapToken =
  vb_Id :: uuid
  vb_CustomerId :: uuid
  vb_Name :: string
  vb_TokenPrefix :: string
  vb_MaxUses :: int
  vb_UsedCount :: int
  vb_CreatedAt :: time
  vb_ExpiresAt :: time
  vb_RevokedAt :: "time option"

definition toBootstrapToken :: "BootstrapToken \<Rightarrow> apiBootstrapToken" where
  "toBootstrapToken t = \<lparr>vb_Id = bt_ID t, vb_CustomerId = bt_CustomerID t, vb_Name = bt_Name t,
     vb_TokenPrefix = bt_TokenPrefix t, vb_MaxUses = bt_MaxUses t, vb_UsedCount = bt_UsedCount t,
     vb_CreatedAt = bt_CreatedAt t, vb_ExpiresAt = bt_ExpiresAt t, vb_RevokedAt = bt_RevokedAt t\<rparr>"

definition api_ListBootstrapTokens :: "Principal option \<Rightarrow> uuid \<Rightarrow> db \<Rightarrow> apiBootstrapToken list reply \<times> db" where
  "api_ListBootstrapTokens pr i = with_access (requireCustomerAccess pr (Some i)) (\<lambda>db.
    case pg_ListBootstrapTokens i db of
      Inr toks \<Rightarrow> (Inr (map toBootstrapToken toks), db)
    | Inl ErrNotFound \<Rightarrow> (Inl (NotFound ''customer not found''), db)
    | Inl _ \<Rightarrow> (Inl Internal, db))"

definition api_CreateBootstrapToken ::
    "Principal option \<Rightarrow> api_env \<Rightarrow> uuid \<Rightarrow> string \<Rightarrow> time option \<Rightarrow> int option \<Rightarrow> db \<Rightarrow>
     (apiBootstrapToken \<times> string) reply \<times> db" where
  "api_CreateBootstrapToken pr env i name expiresAt maxUses = with_access (requireCustomerAccess pr (Some i)) (\<lambda>db.
    case CreateBootstrapToken (av_now env) (av_id env) (av_rand env) (actorID pr) i name expiresAt (coalesce maxUses 0) db of
      (Inr c, db') \<Rightarrow> (Inr (toBootstrapToken (cbt_Token c), cbt_Secret c), db')
    | (Inl ErrInvalidName, db') \<Rightarrow> (Inl (BadRequest ''name must be 1-200 characters''), db')
    | (Inl (ErrStore ErrNotFound), db') \<Rightarrow> (Inl (NotFound ''customer not found''), db')
    | (Inl _, db') \<Rightarrow> (Inl Internal, db'))"

definition api_RevokeBootstrapToken :: "Principal option \<Rightarrow> api_env \<Rightarrow> uuid \<Rightarrow> uuid \<Rightarrow> db \<Rightarrow> unit reply \<times> db" where
  "api_RevokeBootstrapToken pr env i tokenID = with_access (requireCustomerAccess pr (Some i)) (\<lambda>db.
    done_reply ''bootstrap token not found'' (RevokeBootstrapToken (av_now env) (actorID pr) i tokenID db))"

section \<open>Pipelines\<close>

record apiPipeline =
  vp_Id :: uuid
  vp_CustomerId :: uuid
  vp_CustomerName :: string
  vp_Name :: string
  vp_TargetClass :: string
  vp_ActiveVersion :: "int option"
  vp_LatestVersion :: "int option"
  vp_CreatedAt :: time

definition toPipeline :: "Pipeline \<Rightarrow> apiPipeline" where
  "toPipeline p = \<lparr>vp_Id = pl_ID p, vp_CustomerId = pl_CustomerID p, vp_CustomerName = pi_CustomerName p,
     vp_Name = pl_Name p, vp_TargetClass = pl_TargetClass p, vp_ActiveVersion = pi_ActiveVersion p,
     vp_LatestVersion = pi_LatestVersion p, vp_CreatedAt = pl_CreatedAt p\<rparr>"

record apiVersionSummary =
  vs_Version :: int
  vs_ValidationStatus :: string
  vs_Active :: bool
  vs_CreatedBy :: "string option"
  vs_CreatedAt :: time

record apiVersion = apiVersionSummary +
  vs_Graph :: Graph
  vs_RenderedYaml :: string
  vs_ConfigHash :: string

definition toVersionSummary :: "PipelineVersion \<Rightarrow> apiVersionSummary" where
  "toVersionSummary v = \<lparr>vs_Version = pv_Version v, vs_ValidationStatus = pv_ValidationStatus v, vs_Active = pv_Active v,
     vs_CreatedBy = pv_CreatedByEmail v, vs_CreatedAt = pv_CreatedAt v\<rparr>"

definition toVersion :: "PipelineVersion \<Rightarrow> apiVersion option" where
  "toVersion v = (case ParseGraph (pv_Graph v) of
      Inl _ \<Rightarrow> None
    | Inr g \<Rightarrow> Some \<lparr>vs_Version = pv_Version v, vs_ValidationStatus = pv_ValidationStatus v, vs_Active = pv_Active v,
        vs_CreatedBy = pv_CreatedByEmail v, vs_CreatedAt = pv_CreatedAt v, vs_Graph = RedactGraphSecrets g,
        vs_RenderedYaml = pv_RenderedYAML v, vs_ConfigHash = hexEncode (pv_ConfigHash v)\<rparr>)"

definition firstIssueMessage :: "Result \<Rightarrow> string" where
  "firstIssueMessage r = (case res_Issues r of
      [] \<Rightarrow> ''pipeline graph is invalid''
    | iss # _ \<Rightarrow> (case i_Path iss of None \<Rightarrow> i_Message iss | Some path \<Rightarrow> path @ '': '' @ i_Message iss))"

definition api_ListPipelines :: "Principal option \<Rightarrow> db \<Rightarrow> apiPipeline list reply \<times> db" where
  "api_ListPipelines pr db =
    (Inr (map toPipeline (filter (\<lambda>p. in_scope (customerScope pr) (Some (pl_CustomerID p))) (pg_ListPipelines None db))), db)"

definition api_ListCustomerPipelines :: "Principal option \<Rightarrow> uuid \<Rightarrow> db \<Rightarrow> apiPipeline list reply \<times> db" where
  "api_ListCustomerPipelines pr i = with_access (requireCustomerAccess pr (Some i)) (\<lambda>db.
    case pg_GetCustomer i db of
      Inl ErrNotFound \<Rightarrow> (Inl (NotFound ''customer not found''), db)
    | Inl _ \<Rightarrow> (Inl Internal, db)
    | Inr _ \<Rightarrow> (Inr (map toPipeline (pg_ListPipelines (Some i) db)), db))"

definition api_CreatePipeline ::
    "PipelineSvc \<Rightarrow> Principal option \<Rightarrow> api_env \<Rightarrow> uuid \<Rightarrow> string \<Rightarrow> string option \<Rightarrow> Graph \<Rightarrow> db \<Rightarrow> apiPipeline reply \<times> db" where
  "api_CreatePipeline sv pr env i name targetClass g = with_access (requireCustomerAccess pr (Some i)) (\<lambda>db.
    case Create sv (av_nonces env) (av_now env) (av_id2 env) (av_id env) (actorID pr) i name
           (coalesce targetClass ClassForwarding) g db of
      (Inr (res, Some (p, _)), db') \<Rightarrow>
        (if res_Valid res then (Inr (toPipeline p), db') else (Inl (BadRequest (firstIssueMessage res)), db'))
    | (Inr (res, None), db') \<Rightarrow> (Inl (BadRequest (firstIssueMessage res)), db')
    | (Inl PErrInvalidName, db') \<Rightarrow> (Inl (BadRequest ''invalid pipeline name''), db')
    | (Inl PErrSlugTaken, db') \<Rightarrow> (Inl (Conflict ''a pipeline with an equivalent name already exists''), db')
    | (Inl (PErrStore ErrNameExists), db') \<Rightarrow> (Inl (Conflict ''name already exists''), db')
    | (Inl (PErrStore ErrNotFound), db') \<Rightarrow> (Inl (NotFound ''customer not found''), db')
    | (Inl _, db') \<Rightarrow> (Inl Internal, db'))"

definition api_GetPipeline :: "Principal option \<Rightarrow> uuid \<Rightarrow> db \<Rightarrow> (apiPipeline \<times> apiVersionSummary list) reply \<times> db" where
  "api_GetPipeline pr i db = (case pg_GetPipeline i db of
      Inl ErrNotFound \<Rightarrow> (Inl (NotFound ''pipeline not found''), db)
    | Inl _ \<Rightarrow> (Inl Internal, db)
    | Inr p \<Rightarrow> with_access (requireCustomerAccess pr (Some (pl_CustomerID p)))
        (\<lambda>db. (Inr (toPipeline p, map toVersionSummary (pg_ListPipelineVersions i db)), db)) db)"

text \<open>\<open>look\<close> is the read \<open>requirePipelineAccess\<close> does on its own; it may fail while the handler's later reads
  succeed.\<close>

definition api_DeletePipeline ::
    "PipelineSvc \<Rightarrow> (uuid \<Rightarrow> db \<Rightarrow> store_error + Pipeline) \<Rightarrow> Principal option \<Rightarrow> api_env \<Rightarrow> uuid \<Rightarrow> svc_state \<Rightarrow>
     unit reply \<times> svc_state" where
  "api_DeletePipeline sv look pr env i st =
    with_access (requirePipelineAccess (\<lambda>j. look j (ss_db st)) pr i) (\<lambda>st.
      case Delete sv (av_now env) (actorID pr) i st of
        (Inr _, st') \<Rightarrow> (Inr (), st')
      | (Inl (PErrStore ErrNotFound), st') \<Rightarrow> (Inl (NotFound ''pipeline not found''), st')
      | (Inl _, st') \<Rightarrow> (Inl Internal, st')) st"

definition api_ValidatePipeline :: "PipelineSvc \<Rightarrow> string option \<Rightarrow> Graph \<Rightarrow> db \<Rightarrow> Result reply \<times> db" where
  "api_ValidatePipeline sv targetClass g db = (Inr (ValidateDraft sv (coalesce targetClass ClassForwarding) g db), db)"

datatype version_reply =
    CreatedVersion apiVersion
  | InvalidGraph Result

definition api_CreatePipelineVersion ::
    "PipelineSvc \<Rightarrow> (uuid \<Rightarrow> db \<Rightarrow> store_error + Pipeline) \<Rightarrow> Principal option \<Rightarrow> api_env \<Rightarrow> uuid \<Rightarrow> Graph \<Rightarrow> db \<Rightarrow>
     version_reply reply \<times> db" where
  "api_CreatePipelineVersion sv look pr env i g db =
    with_access (requirePipelineAccess (\<lambda>j. look j db) pr i) (\<lambda>db.
      case CreateVersion sv (av_nonces env) (av_now env) (av_id env) (actorID pr) i g db of
        (Inl (PErrStore ErrNotFound), db') \<Rightarrow> (Inl (NotFound ''pipeline not found''), db')
      | (Inl _, db') \<Rightarrow> (Inl Internal, db')
      | (Inr (res, None), db') \<Rightarrow> (Inr (InvalidGraph res), db')
      | (Inr (res, Some ver), db') \<Rightarrow>
          (if \<not> res_Valid res then (Inr (InvalidGraph res), db')
           else case toVersion ver of None \<Rightarrow> (Inl Internal, db') | Some out \<Rightarrow> (Inr (CreatedVersion out), db'))) db"

definition api_GetPipelineVersion ::
    "(uuid \<Rightarrow> db \<Rightarrow> store_error + Pipeline) \<Rightarrow> Principal option \<Rightarrow> uuid \<Rightarrow> int \<Rightarrow> db \<Rightarrow> apiVersion reply \<times> db" where
  "api_GetPipelineVersion look pr i version db =
    with_access (requirePipelineAccess (\<lambda>j. look j db) pr i) (\<lambda>db.
      case pg_GetPipelineVersion i version db of
        Inl ErrNotFound \<Rightarrow> (Inl (NotFound ''version not found''), db)
      | Inl _ \<Rightarrow> (Inl Internal, db)
      | Inr v \<Rightarrow> (case toVersion v of None \<Rightarrow> (Inl Internal, db) | Some out \<Rightarrow> (Inr out, db))) db"

definition api_ActivatePipelineVersion ::
    "PipelineSvc \<Rightarrow> (uuid \<Rightarrow> db \<Rightarrow> store_error + Pipeline) \<Rightarrow> Principal option \<Rightarrow> api_env \<Rightarrow> uuid \<Rightarrow> int \<Rightarrow> svc_state \<Rightarrow>
     (int \<times> string \<times> string) reply \<times> svc_state" where
  "api_ActivatePipelineVersion sv look pr env i version st =
    with_access (requirePipelineAccess (\<lambda>j. look j (ss_db st)) pr i) (\<lambda>st.
      case Activate sv (av_now env) (actorID pr) i version st of
        (Inr (_, state, detail), st') \<Rightarrow> (Inr (version, state, detail), st')
      | (Inl (PErrStore ErrNotFound), st') \<Rightarrow> (Inl (NotFound ''version not found''), st')
      | (Inl (PErrStore ErrConflict), st') \<Rightarrow> (Inl (BadRequest ''version is not valid and cannot be activated''), st')
      | (Inl _, st') \<Rightarrow> (Inl Internal, st')) st"

section \<open>The requests\<close>

text \<open>The requests the router dispatches to these handlers, with their answers.\<close>

datatype api_request =
    RListCustomers "string option"
  | RCreateCustomer string "string option"
  | RGetCustomer uuid
  | RUpdateCustomer uuid "string list option option" customer_patch
  | RDeleteCustomer uuid
  | RListApiKeys uuid
  | RCreateApiKey uuid string "time option"
  | RRevokeApiKey uuid uuid
  | RListAgents AgentFilter
  | RGetAgent uuid
  | RDeleteAgent uuid
  | RUpdateAgent uuid "string option" "(string \<times> string) list option"
  | RSyncAgent uuid
  | RGetAgentConfig uuid
  | RListAgentEvents uuid "int option"
  | RListBootstrapTokens uuid
  | RCreateBootstrapToken uuid string "time option" "int option"
  | RRevokeBootstrapToken uuid uuid
  | RListPipelines
  | RListCustomerPipelines uuid
  | RCreatePipeline uuid string "string option" Graph
  | RGetPipeline uuid
  | RDeletePipeline uuid
  | RValidatePipeline "string option" Graph
  | RCreatePipelineVersion uuid Graph
  | RGetPipelineVersion uuid int
  | RActivatePipelineVersion uuid int

datatype api_answer =
    ACustomers "apiCustomer list"
  | ANewCustomer apiCustomer apiKeyView string
  | AKeys "apiKeyView list"
  | ANewKey apiKeyView string
  | AAgents "apiAgent list"
  | AAgentDetail apiAgent "json option" "json option"
  | AText string string
  | AEvents "apiAgentEvent list"
  | ATokens "apiBootstrapToken list"
  | ANewToken apiBootstrapToken string
  | APipelines "apiPipeline list"
  | APipelineDetail apiPipeline "apiVersionSummary list"
  | AValidation Result
  | AVersion apiVersion
  | ARollout int string string
  | ANone

definition answer :: "('a \<Rightarrow> api_answer) \<Rightarrow> 'a reply \<times> 's \<Rightarrow> api_answer reply \<times> 's" where
  "answer f = map_prod (map_sum id f) id"

definition on_ss :: "(db \<Rightarrow> 'a \<times> db) \<Rightarrow> svc_state \<Rightarrow> 'a \<times> svc_state" where
  "on_ss f st = (case f (ss_db st) of (x, db') \<Rightarrow> (x, st\<lparr>ss_db := db'\<rparr>))"

fun version_answer :: "version_reply \<Rightarrow> api_answer" where
  "version_answer (CreatedVersion v) = AVersion v"
| "version_answer (InvalidGraph r) = AValidation r"

fun serve_customers :: "Principal option \<Rightarrow> api_env \<Rightarrow> api_request \<Rightarrow> db \<Rightarrow> api_answer reply \<times> db" where
  "serve_customers pr env (RListCustomers status) db = answer ACustomers (api_ListCustomers pr status db)"
| "serve_customers pr env (RCreateCustomer name slug) db =
     answer (\<lambda>(c, k, s). ANewCustomer c k s) (api_CreateCustomer pr env name slug db)"
| "serve_customers pr env (RGetCustomer i) db = answer (\<lambda>c. ACustomers [c]) (api_GetCustomer pr i db)"
| "serve_customers pr env (RUpdateCustomer i raw body) db = answer (\<lambda>c. ACustomers [c]) (api_UpdateCustomer pr env i raw body db)"
| "serve_customers pr env (RDeleteCustomer i) db = answer (\<lambda>_. ANone) (api_DeleteCustomer pr env i db)"
| "serve_customers pr env (RListApiKeys i) db = answer AKeys (api_ListApiKeys pr i db)"
| "serve_customers pr env (RCreateApiKey i name e) db = answer (\<lambda>(k, s). ANewKey k s) (api_CreateApiKey pr env i name e db)"
| "serve_customers pr env (RRevokeApiKey i k) db = answer (\<lambda>_. ANone) (api_RevokeApiKey pr env i k db)"
| "serve_customers pr env (RListBootstrapTokens i) db = answer ATokens (api_ListBootstrapTokens pr i db)"
| "serve_customers pr env (RCreateBootstrapToken i name e n) db =
     answer (\<lambda>(t, s). ANewToken t s) (api_CreateBootstrapToken pr env i name e n db)"
| "serve_customers pr env (RRevokeBootstrapToken i t) db = answer (\<lambda>_. ANone) (api_RevokeBootstrapToken pr env i t db)"
| "serve_customers pr env _ db = (Inl (NotFound ''''), db)"

fun serve_agents :: "PipelineSvc \<Rightarrow> Principal option \<Rightarrow> api_env \<Rightarrow> api_request \<Rightarrow> db \<Rightarrow> api_answer reply \<times> db" where
  "serve_agents sv pr env (RListAgents f) db = answer AAgents (api_ListAgents pr f db)"
| "serve_agents sv pr env (RGetAgent i) db = answer (\<lambda>(a, d, h). AAgentDetail a d h) (api_GetAgent pr i db)"
| "serve_agents sv pr env (RDeleteAgent i) db = answer (\<lambda>_. ANone) (api_DeleteAgent pr env i db)"
| "serve_agents sv pr env (RUpdateAgent i d l) db = answer (\<lambda>a. AAgents [a]) (api_UpdateAgent pr env i d l db)"
| "serve_agents sv pr env (RSyncAgent i) db = answer (\<lambda>d. AText d '''') (api_SyncAgent sv pr env i db)"
| "serve_agents sv pr env (RGetAgentConfig i) db = answer (\<lambda>(a, r). AText a r) (api_GetAgentConfig sv pr i db)"
| "serve_agents sv pr env (RListAgentEvents i n) db = answer AEvents (api_ListAgentEvents pr i n db)"
| "serve_agents sv pr env req db = serve_customers pr env req db"

fun serve ::
    "PipelineSvc \<Rightarrow> (uuid \<Rightarrow> db \<Rightarrow> store_error + Pipeline) \<Rightarrow> Principal option \<Rightarrow> api_env \<Rightarrow> api_request \<Rightarrow> svc_state \<Rightarrow>
     api_answer reply \<times> svc_state" where
  "serve sv look pr env RListPipelines st = answer APipelines (on_ss (api_ListPipelines pr) st)"
| "serve sv look pr env (RListCustomerPipelines i) st = answer APipelines (on_ss (api_ListCustomerPipelines pr i) st)"
| "serve sv look pr env (RCreatePipeline i name cls g) st =
     answer (\<lambda>p. APipelines [p]) (on_ss (api_CreatePipeline sv pr env i name cls g) st)"
| "serve sv look pr env (RGetPipeline i) st = answer (\<lambda>(p, vs). APipelineDetail p vs) (on_ss (api_GetPipeline pr i) st)"
| "serve sv look pr env (RDeletePipeline i) st = answer (\<lambda>_. ANone) (api_DeletePipeline sv look pr env i st)"
| "serve sv look pr env (RValidatePipeline cls g) st = answer AValidation (on_ss (api_ValidatePipeline sv cls g) st)"
| "serve sv look pr env (RCreatePipelineVersion i g) st =
     answer version_answer (on_ss (api_CreatePipelineVersion sv look pr env i g) st)"
| "serve sv look pr env (RGetPipelineVersion i n) st = answer AVersion (on_ss (api_GetPipelineVersion look pr i n) st)"
| "serve sv look pr env (RActivatePipelineVersion i n) st =
     answer (\<lambda>(v, s, d). ARollout v s d) (api_ActivatePipelineVersion sv look pr env i n st)"
| "serve sv look pr env req st = on_ss (serve_agents sv pr env req) st"

end
