(* ===== verification/ApiScope.thy ===== *)
theory ApiScope
  imports Handlers System
begin

text \<open>
  What a tenant-scoped principal can do through the handlers of \<open>Handlers\<close>: everything it reads belongs to
  the customers it was granted, and everything else in the database stays as it was.
\<close>

section \<open>The rows of one customer, and the rows of none\<close>

definition owned :: "uuid \<Rightarrow> db \<Rightarrow>
    Customer list \<times> APIKey list \<times> BootstrapToken list \<times> agent_row list \<times> AgentEvent list \<times> pipeline_row list \<times> version_row list" where
  "owned c db = (filter (\<lambda>x. cust_ID x = c) (customers db), filter (\<lambda>k. ak_CustomerID k = c) (api_keys db),
     filter (\<lambda>t. bt_CustomerID t = c) (bootstrap_tokens db), filter (\<lambda>a. ag_CustomerID a = Some c) (agents db),
     filter (\<lambda>e. list_ex (\<lambda>a. ag_ID a = ev_AgentID e \<and> ag_CustomerID a = Some c) (agents db)) (agent_events db),
     filter (\<lambda>p. pl_CustomerID p = c) (pipelines db),
     filter (\<lambda>v. list_ex (\<lambda>p. pl_ID p = pv_PipelineID v \<and> pl_CustomerID p = c) (pipelines db)) (pipeline_versions db))"

definition fleet_wide where
  "fleet_wide db = (users db, user_identities db, user_customer_grants db, sessions db, auth_providers db, webhooks db,
     api_tokens db, billing_settings db, filter (\<lambda>a. ag_CustomerID a = None) (agents db))"

definition elsewhere where
  "elsewhere i db = (fleet_wide db, \<lambda>c. if c = i then None else Some (owned c db))"

definition confined_to :: "uuid set \<Rightarrow> db \<Rightarrow> db \<Rightarrow> bool" where
  "confined_to A db db' \<longleftrightarrow> fleet_wide db' = fleet_wide db \<and> (\<forall>c. c \<notin> A \<longrightarrow> owned c db' = owned c db)"

lemma confined_refl [simp]: "confined_to A db db"
  by (simp add: confined_to_def)

lemma confined_trans: "confined_to A a b \<Longrightarrow> confined_to A b c \<Longrightarrow> confined_to A a c"
  by (simp add: confined_to_def)

lemma elsewhere_confined: "elsewhere i db' = elsewhere i db \<Longrightarrow> i \<in> A \<Longrightarrow> confined_to A db db'"
  unfolding elsewhere_def confined_to_def by (auto dest!: fun_cong split: if_splits)

lemma elsewhereI:
  "fleet_wide db' = fleet_wide db \<Longrightarrow> (\<And>c. c \<noteq> i \<Longrightarrow> owned c db' = owned c db) \<Longrightarrow> elsewhere i db' = elsewhere i db"
  by (auto simp: elsewhere_def)

lemma elsewhere_audit: "audit_Write now es db = Inr db' \<Longrightarrow> elsewhere i db' = elsewhere i db"
  by (rule elsewhereI) (simp_all add: fleet_wide_def owned_def audit_Write_fields)

lemma elsewhere_commit: "commit now es f db = Inr (x, db') \<Longrightarrow> elsewhere i db' = elsewhere i db"
  unfolding commit_Inr using elsewhere_audit by blast

lemma elsewhere_inTx:
  "(\<And>x db'. fn db = Inr (x, db') \<Longrightarrow> elsewhere i db' = elsewhere i db) \<Longrightarrow> elsewhere i (snd (inTx fn db)) = elsewhere i db"
  by (rule inTx_keeps) simp_all

section \<open>The operations on one customer\<close>

lemma elsewhere_customers:
  "\<forall>c. P c \<longrightarrow> cust_ID c = i \<Longrightarrow> (\<And>c. cust_ID (f c) = cust_ID c) \<Longrightarrow>
   elsewhere i (db\<lparr>customers := upd_where P f (customers db)\<rparr>) = elsewhere i db"
  by (rule elsewhereI) (auto simp: fleet_wide_def owned_def filter_upd_where_other)

lemma elsewhere_keys:
  "\<forall>k. P k \<longrightarrow> ak_CustomerID k = i \<Longrightarrow> (\<And>k. ak_CustomerID (f k) = ak_CustomerID k) \<Longrightarrow>
   elsewhere i (db\<lparr>api_keys := upd_where P f (api_keys db)\<rparr>) = elsewhere i db"
  "ak_CustomerID k = i \<Longrightarrow> elsewhere i (db\<lparr>api_keys := api_keys db @ [k]\<rparr>) = elsewhere i db"
  by (rule elsewhereI; auto simp: fleet_wide_def owned_def filter_upd_where_other)+

lemma elsewhere_tokens:
  "\<forall>t. P t \<longrightarrow> bt_CustomerID t = i \<Longrightarrow> (\<And>t. bt_CustomerID (f t) = bt_CustomerID t) \<Longrightarrow>
   elsewhere i (db\<lparr>bootstrap_tokens := upd_where P f (bootstrap_tokens db)\<rparr>) = elsewhere i db"
  "bt_CustomerID t = i \<Longrightarrow> elsewhere i (db\<lparr>bootstrap_tokens := bootstrap_tokens db @ [t]\<rparr>) = elsewhere i db"
  by (rule elsewhereI; auto simp: fleet_wide_def owned_def filter_upd_where_other)+

lemma UpdateCustomer_elsewhere: "elsewhere i (snd (UpdateCustomer now actor i upd db)) = elsewhere i db"
proof -
  have u: "cust_ID (apply_customer_update now u c) = cust_ID c" for u c by (simp add: apply_customer_update_def)
  have "elsewhere i (snd (pg_UpdateCustomer now i u es db)) = elsewhere i db" for u es
    unfolding pg_UpdateCustomer_def Let_def
    by (rule elsewhere_inTx)
      (auto split: sum.splits if_splits dest!: elsewhere_audit [where i = i] intro!: elsewhere_customers simp: u)
  then show ?thesis
    by (auto simp: UpdateCustomer_def Let_def split: if_splits prod.splits sum.splits) (metis snd_conv)+
qed

lemma elsewhere_soft_delete:
  assumes "\<forall>c. P c \<longrightarrow> cust_ID c = i" "\<And>c. cust_ID (f c) = cust_ID c"
    "\<forall>k. Q k \<longrightarrow> ak_CustomerID k = i" "\<And>k. ak_CustomerID (g k) = ak_CustomerID k"
  shows "elsewhere i (db\<lparr>customers := upd_where P f (customers db), api_keys := upd_where Q g (api_keys db)\<rparr>) = elsewhere i db"
  using elsewhere_keys(1) [OF assms(3,4), of "db\<lparr>customers := upd_where P f (customers db)\<rparr>"]
    elsewhere_customers [OF assms(1,2), of db] by simp

lemma DeleteCustomer_elsewhere: "elsewhere i (snd (DeleteCustomer now actor i db)) = elsewhere i db"
proof -
  have "elsewhere i (snd (pg_SoftDeleteCustomer now i es db)) = elsewhere i db" for es
    unfolding pg_SoftDeleteCustomer_def Let_def
    by (rule elsewhere_inTx)
      (auto split: sum.splits if_splits dest!: elsewhere_audit [where i = i] intro!: elsewhere_soft_delete)
  then show ?thesis by (simp add: DeleteCustomer_def)
qed

lemma CreateAPIKey_elsewhere: "elsewhere i (snd (CreateAPIKey now newID rnd actor i name e db)) = elsewhere i db"
proof -
  have "elsewhere i (snd (pg_CreateAPIKey now k es db)) = elsewhere i db" if "nk_CustomerID k = i" for k es
    unfolding pg_CreateAPIKey_def using that
    by (auto simp: insertAPIKey_Inr new_api_key_row_def split: sum.splits
        intro!: elsewhere_inTx elsewhere_keys dest!: elsewhere_audit [where i = i])
  then show ?thesis
    by (auto simp: CreateAPIKey_def Let_def split: sum.splits key_error.splits prod.splits)
       (metis NewAPIKey.select_convs(2) snd_conv)+
qed

lemma RevokeAPIKey_elsewhere: "elsewhere i (snd (RevokeAPIKey now actor i k db)) = elsewhere i db"
proof -
  have "elsewhere i (snd (pg_RevokeAPIKey now i k es db)) = elsewhere i db" for es
    unfolding pg_RevokeAPIKey_def
    by (rule elsewhere_inTx) (auto split: sum.splits if_splits intro!: elsewhere_keys dest!: elsewhere_audit [where i = i])
  then show ?thesis by (simp add: RevokeAPIKey_def)
qed

lemma CreateBootstrapToken_elsewhere:
  "elsewhere i (snd (CreateBootstrapToken now newID rnd actor i name e n db)) = elsewhere i db"
proof -
  have "elsewhere i (snd (pg_CreateBootstrapToken now t es db)) = elsewhere i db" if "nb_CustomerID t = i" for t es
    unfolding pg_CreateBootstrapToken_def using that
    by (auto simp: new_bootstrap_row_def split: sum.splits if_splits
        intro!: elsewhere_inTx elsewhere_tokens dest!: elsewhere_commit [where i = i])
  then show ?thesis
    by (auto simp: CreateBootstrapToken_def Let_def split: sum.splits key_error.splits prod.splits)
       (metis NewBootstrapToken.select_convs(2) snd_conv)+
qed

lemma RevokeBootstrapToken_elsewhere: "elsewhere i (snd (RevokeBootstrapToken now actor i t db)) = elsewhere i db"
  unfolding RevokeBootstrapToken_def pg_RevokeBootstrapToken_def
  by (rule elsewhere_inTx) (auto split: if_splits intro!: elsewhere_tokens dest!: elsewhere_commit [where i = i])

section \<open>The operations on an agent\<close>

text \<open>The agents with the identifier \<open>j\<close> belong to \<open>i\<close>.\<close>

definition agent_of :: "uuid \<Rightarrow> uuid \<Rightarrow> db \<Rightarrow> bool" where
  "agent_of i j db \<longleftrightarrow> (\<forall>a \<in> set (agents db). ag_ID a = j \<longrightarrow> ag_CustomerID a = Some i)"

lemma GetAgent_of:
  assumes "db_wf db" "pg_GetAgent j db = Inr a" "ag_CustomerID a = Some i"
  shows "agent_of i j db"
proof -
  from assms(2) obtain r where r: "find (\<lambda>a. ag_ID a = j) (agents db) = Some r" "a = agent_view db r"
    by (auto simp: pg_GetAgent_def split: option.splits)
  have d: "distinct (map ag_ID (agents db))" using assms(1) by (simp add: db_wf_def agents_wf_def)
  have "ag_CustomerID r = Some i" using assms(3) r(2) by (simp add: agent_view_def agent_cols.defs Agent.defs)
  with find_SomeD [OF r(1)] show ?thesis
    unfolding agent_of_def using distinct_map_inj [OF d] by blast
qed

lemma elsewhere_upd_agents:
  assumes "agent_of i j db" "\<And>a. ag_ID (f a) = ag_ID a" "\<And>a. ag_CustomerID (f a) = ag_CustomerID a"
  shows "elsewhere i (db\<lparr>agents := upd_where (\<lambda>a. ag_ID a = j) f (agents db)\<rparr>) = elsewhere i db"
proof (rule elsewhereI)
  have "filter (\<lambda>a. ag_CustomerID a = c) (upd_where (\<lambda>a. ag_ID a = j) f xs) = filter (\<lambda>a. ag_CustomerID a = c) xs"
    if "c \<noteq> Some i" "set xs \<subseteq> set (agents db)" for c xs
    using that by (induction xs) (use assms in \<open>auto simp: agent_of_def\<close>)
  then have f: "filter (\<lambda>a. ag_CustomerID a = c) (upd_where (\<lambda>a. ag_ID a = j) f (agents db)) =
      filter (\<lambda>a. ag_CustomerID a = c) (agents db)" if "c \<noteq> Some i" for c using that by blast
  have l: "list_ex (\<lambda>a. ag_ID a = k \<and> ag_CustomerID a = c) (upd_where (\<lambda>a. ag_ID a = j) f xs) =
      list_ex (\<lambda>a. ag_ID a = k \<and> ag_CustomerID a = c) xs" for k c xs
    by (induction xs) (auto simp: assms)
  show "fleet_wide (db\<lparr>agents := upd_where (\<lambda>a. ag_ID a = j) f (agents db)\<rparr>) = fleet_wide db"
    by (simp add: fleet_wide_def f)
  show "owned c (db\<lparr>agents := upd_where (\<lambda>a. ag_ID a = j) f (agents db)\<rparr>) = owned c db" if "c \<noteq> i" for c
    using that by (simp add: owned_def f l)
qed

lemma elsewhere_del_agents:
  assumes "agent_of i j db"
  shows "elsewhere i (db\<lparr>agents := filter (\<lambda>a. ag_ID a \<noteq> j) (agents db),
     agent_events := filter (\<lambda>e. ev_AgentID e \<noteq> j) (agent_events db)\<rparr>) = elsewhere i db"
proof (rule elsewhereI)
  let ?db = "db\<lparr>agents := filter (\<lambda>a. ag_ID a \<noteq> j) (agents db), agent_events := filter (\<lambda>e. ev_AgentID e \<noteq> j) (agent_events db)\<rparr>"
  have f: "filter (\<lambda>a. ag_CustomerID a = c) (filter (\<lambda>a. ag_ID a \<noteq> j) (agents db)) = filter (\<lambda>a. ag_CustomerID a = c) (agents db)"
    if "c \<noteq> Some i" for c
    unfolding filter_filter using assms that by (intro filter_cong) (auto simp: agent_of_def)
  have l: "ev_AgentID e \<noteq> j \<and> list_ex (\<lambda>a. ag_ID a = ev_AgentID e \<and> ag_CustomerID a = Some c) (filter (\<lambda>a. ag_ID a \<noteq> j) (agents db)) \<longleftrightarrow>
      list_ex (\<lambda>a. ag_ID a = ev_AgentID e \<and> ag_CustomerID a = Some c) (agents db)" if "c \<noteq> i" for c e
    using assms that by (auto simp: agent_of_def list_ex_iff)
  show "fleet_wide ?db = fleet_wide db" using f [of None] by (simp add: fleet_wide_def)
  show "owned c ?db = owned c db" if "c \<noteq> i" for c
  proof -
    have "filter (\<lambda>e. list_ex (\<lambda>a. ag_ID a = ev_AgentID e \<and> ag_CustomerID a = Some c) (filter (\<lambda>a. ag_ID a \<noteq> j) (agents db)))
       (filter (\<lambda>e. ev_AgentID e \<noteq> j) (agent_events db)) =
       filter (\<lambda>e. list_ex (\<lambda>a. ag_ID a = ev_AgentID e \<and> ag_CustomerID a = Some c) (agents db)) (agent_events db)"
      unfolding filter_filter by (intro filter_cong refl l that)
    with f [of "Some c"] that show ?thesis by (simp add: owned_def)
  qed
qed

lemma agent_elsewhere:
  assumes "agent_of i j db"
  shows "elsewhere i (snd (pg_DeleteAgent now j es db)) = elsewhere i db"
    "elsewhere i (snd (pg_UpdateAgentMeta now j dn labels es db)) = elsewhere i db"
    "elsewhere i (snd (pg_WriteAuditEntries now es db)) = elsewhere i db"
proof -
  show "elsewhere i (snd (pg_DeleteAgent now j es db)) = elsewhere i db"
    unfolding pg_DeleteAgent_def
    by (rule elsewhere_inTx)
      (auto split: if_splits dest!: elsewhere_commit [where i = i] intro!: elsewhere_del_agents assms)
  show "elsewhere i (snd (pg_UpdateAgentMeta now j dn labels es db)) = elsewhere i db"
    unfolding pg_UpdateAgentMeta_def
    by (rule elsewhere_inTx)
      (auto simp: upd_agent_Inr split: sum.splits prod.splits dest!: elsewhere_commit [where i = i]
        intro!: elsewhere_upd_agents assms)
  show "elsewhere i (snd (pg_WriteAuditEntries now es db)) = elsewhere i db"
    unfolding pg_WriteAuditEntries_def by (auto intro!: elsewhere_inTx dest!: elsewhere_commit [where i = i])
qed

section \<open>The operations on a pipeline\<close>

definition pipeline_of :: "uuid \<Rightarrow> uuid \<Rightarrow> db \<Rightarrow> bool" where
  "pipeline_of i j db \<longleftrightarrow> (\<forall>p \<in> set (pipelines db). pl_ID p = j \<longrightarrow> pl_CustomerID p = i)"

lemma GetPipeline_of:
  assumes "db_wf db" "pg_GetPipeline j db = Inr p"
  shows "pipeline_of (pl_CustomerID p) j db"
proof -
  from assms(2) obtain r c where r: "find (\<lambda>(p, c). pl_ID p = j) (joined_pipelines db) = Some (r, c)" "p = pipeline_view db r c"
    by (auto simp: pg_GetPipeline_def split: option.splits)
  have d: "distinct (map pl_ID (pipelines db))" using assms(1) by (simp add: db_wf_def pipelines_wf_def)
  have "r \<in> set (pipelines db)" "pl_ID r = j"
    using find_SomeD [OF r(1)] by (auto simp: joined_pipelines_def)
  moreover have "pl_CustomerID p = pl_CustomerID r" using r(2) by (simp add: pipeline_view_def pipeline_row.defs)
  ultimately show ?thesis unfolding pipeline_of_def using distinct_map_inj [OF d] by metis
qed

lemma GetPipeline_missing:
  assumes "db_wf db" "pg_GetPipeline j db = Inl e"
  shows "j \<notin> set (pipeline_ids db)"
proof
  assume "j \<in> set (pipeline_ids db)"
  then obtain p where p: "p \<in> set (pipelines db)" "pl_ID p = j" by (auto simp: pipeline_ids_def)
  then obtain c where "c \<in> set (customers db)" "cust_ID c = pl_CustomerID p"
    using assms(1) by (auto simp: db_wf_def pipelines_wf_def customer_ids_def list_all_iff)
  with p have "(p, c) \<in> set (joined_pipelines db)" by (auto simp: joined_pipelines_def)
  with p(2) assms(2) show False
    by (auto simp: pg_GetPipeline_def find_None_set split: option.splits)
qed

lemma elsewhere_add_version:
  assumes "pipeline_of i (pv_PipelineID v) db"
  shows "elsewhere i (db\<lparr>pipeline_versions := pipeline_versions db @ [v]\<rparr>) = elsewhere i db"
  by (rule elsewhereI) (use assms in \<open>auto simp: fleet_wide_def owned_def list_ex_iff pipeline_of_def\<close>)

lemma elsewhere_add_pipeline:
  "pl_CustomerID p = i \<Longrightarrow> elsewhere i (db\<lparr>pipelines := pipelines db @ [p]\<rparr>) = elsewhere i db"
  by (rule elsewhereI) (auto simp: fleet_wide_def owned_def)

lemma elsewhere_upd_pipelines:
  assumes "pipeline_of i j db" "\<And>p. pl_ID (f p) = pl_ID p" "\<And>p. pl_CustomerID (f p) = pl_CustomerID p"
  shows "elsewhere i (db\<lparr>pipelines := upd_where (\<lambda>p. pl_ID p = j) f (pipelines db)\<rparr>) = elsewhere i db"
proof (rule elsewhereI)
  have "filter (\<lambda>p. pl_CustomerID p = c) (upd_where (\<lambda>p. pl_ID p = j) f xs) = filter (\<lambda>p. pl_CustomerID p = c) xs"
    if "c \<noteq> i" "set xs \<subseteq> set (pipelines db)" for c xs
    using that by (induction xs) (use assms in \<open>auto simp: pipeline_of_def\<close>)
  then have f: "filter (\<lambda>p. pl_CustomerID p = c) (upd_where (\<lambda>p. pl_ID p = j) f (pipelines db)) =
      filter (\<lambda>p. pl_CustomerID p = c) (pipelines db)" if "c \<noteq> i" for c using that by blast
  have l: "list_ex (\<lambda>p. pl_ID p = k \<and> pl_CustomerID p = c) (upd_where (\<lambda>p. pl_ID p = j) f xs) =
      list_ex (\<lambda>p. pl_ID p = k \<and> pl_CustomerID p = c) xs" for k c xs
    by (induction xs) (auto simp: assms)
  show "fleet_wide (db\<lparr>pipelines := upd_where (\<lambda>p. pl_ID p = j) f (pipelines db)\<rparr>) = fleet_wide db"
    by (simp add: fleet_wide_def)
  show "owned c (db\<lparr>pipelines := upd_where (\<lambda>p. pl_ID p = j) f (pipelines db)\<rparr>) = owned c db" if "c \<noteq> i" for c
    using that by (simp add: owned_def f l)
qed

lemma elsewhere_del_pipelines:
  assumes "pipeline_of i j db"
  shows "elsewhere i (db\<lparr>pipelines := filter (\<lambda>p. pl_ID p \<noteq> j) (pipelines db),
     pipeline_versions := filter (\<lambda>v. pv_PipelineID v \<noteq> j) (pipeline_versions db)\<rparr>) = elsewhere i db"
proof (rule elsewhereI)
  let ?db = "db\<lparr>pipelines := filter (\<lambda>p. pl_ID p \<noteq> j) (pipelines db),
    pipeline_versions := filter (\<lambda>v. pv_PipelineID v \<noteq> j) (pipeline_versions db)\<rparr>"
  show "fleet_wide ?db = fleet_wide db" by (simp add: fleet_wide_def)
  fix c assume c: "c \<noteq> i"
  have f: "filter (\<lambda>p. pl_CustomerID p = c) (filter (\<lambda>p. pl_ID p \<noteq> j) (pipelines db)) = filter (\<lambda>p. pl_CustomerID p = c) (pipelines db)"
    unfolding filter_filter using assms c by (intro filter_cong) (auto simp: pipeline_of_def)
  have "filter (\<lambda>v. list_ex (\<lambda>p. pl_ID p = pv_PipelineID v \<and> pl_CustomerID p = c) (filter (\<lambda>p. pl_ID p \<noteq> j) (pipelines db)))
      (filter (\<lambda>v. pv_PipelineID v \<noteq> j) (pipeline_versions db)) =
      filter (\<lambda>v. list_ex (\<lambda>p. pl_ID p = pv_PipelineID v \<and> pl_CustomerID p = c) (pipelines db)) (pipeline_versions db)"
    unfolding filter_filter using assms c by (intro filter_cong refl) (auto simp: pipeline_of_def list_ex_iff)
  with f show "owned c ?db = owned c db" by (simp add: owned_def)
qed

lemma pipeline_elsewhere:
  assumes "pipeline_of i j db"
  shows "nv_PipelineID v = j \<Longrightarrow> elsewhere i (snd (pg_CreatePipelineVersion now v es db)) = elsewhere i db"
    "elsewhere i (snd (pg_ActivatePipelineVersion now j n es db)) = elsewhere i db"
    "elsewhere i (snd (pg_DeletePipeline now j es db)) = elsewhere i db"
proof -
  show "elsewhere i (snd (pg_CreatePipelineVersion now v es db)) = elsewhere i db" if "nv_PipelineID v = j"
    unfolding pg_CreatePipelineVersion_def Let_def
    by (rule elsewhere_inTx) (use that assms in \<open>auto simp: insertPipelineVersion_Inr new_version_row_def split: sum.splits prod.splits if_splits
        dest!: elsewhere_commit [where i = i] intro!: elsewhere_add_version\<close>)
  show "elsewhere i (snd (pg_ActivatePipelineVersion now j n es db)) = elsewhere i db"
    unfolding pg_ActivatePipelineVersion_def
    by (rule elsewhere_inTx) (auto split: sum.splits prod.splits if_splits
        dest!: elsewhere_commit [where i = i] intro!: elsewhere_upd_pipelines assms)
  show "elsewhere i (snd (pg_DeletePipeline now j es db)) = elsewhere i db"
    unfolding pg_DeletePipeline_def Let_def
    by (rule elsewhere_inTx) (auto split: sum.splits if_splits
        dest!: elsewhere_commit [where i = i] intro!: elsewhere_del_pipelines assms)
qed

lemma elsewhere_new_pipeline:
  assumes "pl_CustomerID p = i" "pl_ID p = pv_PipelineID v" "pl_ID p \<notin> set (pipeline_ids db)"
  shows "elsewhere i (db\<lparr>pipelines := pipelines db @ [p], pipeline_versions := pipeline_versions db @ [v]\<rparr>) = elsewhere i db"
proof -
  have "pipeline_of i (pv_PipelineID v) (db\<lparr>pipelines := pipelines db @ [p]\<rparr>)"
    using assms by (auto simp: pipeline_of_def pipeline_ids_def image_iff)
  from elsewhere_add_version [OF this] elsewhere_add_pipeline [OF assms(1), of db] show ?thesis by simp
qed

lemma CreatePipeline_elsewhere:
  assumes "np_CustomerID p = i" "nv_PipelineID v = np_ID p"
  shows "elsewhere i (snd (pg_CreatePipeline now p v es db)) = elsewhere i db"
  unfolding pg_CreatePipeline_def Let_def
  by (rule elsewhere_inTx) (use assms in \<open>auto simp: insertPipelineVersion_Inr new_version_row_def
      split: sum.splits prod.splits if_splits dest!: elsewhere_commit [where i = i] intro!: elsewhere_new_pipeline\<close>)

section \<open>A handler changes the customers the principal was granted\<close>

lemma elsewhere_nowhere:
  assumes "\<And>i. elsewhere i db' = elsewhere i db"
  shows "confined_to A db db'"
proof -
  have "owned c db' = owned c db" for c
    using assms [of "c + 1"] unfolding elsewhere_def by (auto dest!: fun_cong [where x = c] split: if_splits)
  moreover have "fleet_wide db' = fleet_wide db" using assms [of 0] by (simp add: elsewhere_def)
  ultimately show ?thesis by (simp add: confined_to_def)
qed

lemma scoped_access:
  "\<not> p_AllCustomers p \<Longrightarrow> requireCustomerAccess (Some p) c = Inr u \<longleftrightarrow> c \<in> Some ` set (p_AllowedCustomers p)"
  by (auto simp: requireCustomerAccess_def CanAccessCustomer_def split: option.splits)

lemma confined_access:
  assumes "\<not> p_AllCustomers p" "elsewhere i (snd (k db)) = elsewhere i db"
  shows "confined_to (set (p_AllowedCustomers p)) db (snd (with_access (requireCustomerAccess (Some p) (Some i)) k db))"
  using assms by (auto simp: with_access_def scoped_access split: sum.splits intro: elsewhere_confined)

lemma confined_agent:
  assumes "\<not> p_AllCustomers p" "db_wf db"
    "\<And>a i. agent_of i j db \<Longrightarrow> elsewhere i (snd (k a db)) = elsewhere i db"
  shows "confined_to (set (p_AllowedCustomers p)) db (snd (with_agent (Some p) j k db))"
proof (cases "pg_GetAgent j db")
  case (Inl e)
  then show ?thesis by (cases e) (simp_all add: with_agent_def)
next
  case (Inr a)
  show ?thesis
  proof (cases "ag_CustomerID a \<in> Some ` set (p_AllowedCustomers p)")
    case True
    then obtain i where i: "ag_CustomerID a = Some i" by auto
    from confined_access [OF assms(1), of i "k a" db] assms(3) GetAgent_of [OF assms(2) Inr i]
    show ?thesis by (simp add: with_agent_def Inr i)
  next
    case False
    then show ?thesis using assms(1) by (cases "requireCustomerAccess (Some p) (ag_CustomerID a)")
        (simp_all add: with_agent_def with_access_def Inr scoped_access)
  qed
qed

lemma confined_pipeline:
  assumes "\<not> p_AllCustomers p" "db_wf (f s)"
    "\<And>i. pipeline_of i j (f s) \<Longrightarrow> elsewhere i (f (snd (k s))) = elsewhere i (f s)"
  shows "confined_to (set (p_AllowedCustomers p)) (f s)
     (f (snd (with_access (requirePipelineAccess (\<lambda>j. pg_GetPipeline j (f s)) (Some p) j) k s)))"
proof (cases "pg_GetPipeline j (f s)")
  case (Inl e)
  have "pipeline_of i j (f s)" for i
    using GetPipeline_missing [OF assms(2) Inl] by (auto simp: pipeline_of_def pipeline_ids_def)
  then show ?thesis using assms(1,3)
    by (auto simp: with_access_def requirePipelineAccess_def customerScope_def Inl intro!: elsewhere_nowhere)
next
  case (Inr pl)
  have "pipeline_of (pl_CustomerID pl) j (f s)" by (rule GetPipeline_of [OF assms(2) Inr])
  with assms(1,3) show ?thesis
    by (auto simp: with_access_def requirePipelineAccess_def customerScope_def Inr scoped_access split: sum.splits
        intro: elsewhere_confined)
qed

lemma snd_answer [simp]: "snd (answer f r) = snd r"
  by (simp add: answer_def)

lemma on_ss_db [simp]: "ss_db (snd (on_ss f st)) = snd (f (ss_db st))"
  by (simp add: on_ss_def split: prod.splits)

lemma done_reply_snd [simp]: "snd (done_reply m r) = snd r"
  by (auto simp: done_reply_def split: prod.splits sum.splits store_error.splits)

named_theorems confined \<open>the handlers change what the principal was granted\<close>

lemma UpdateCustomer_confined [confined]:
  assumes "\<not> p_AllCustomers p"
  shows "confined_to (set (p_AllowedCustomers p)) db (snd (api_UpdateCustomer (Some p) env i raw body db))"
  unfolding api_UpdateCustomer_def
proof (rule confined_access [OF assms], goal_cases)
  case 1
  obtain rate retention where q: "quotaRetentionUpdate raw body = (rate, retention)" by fastforce
  obtain r db' where u: "UpdateCustomer (av_now env) (actorID (Some p)) i \<lparr>cu_Name = cp_Name body, cu_Status = cp_Status body,
      cu_RateLimitItemsPerSec = rate, cu_RetentionDays = retention\<rparr> db = (r, db')" by fastforce
  have "elsewhere i db' = elsewhere i db" using UpdateCustomer_elsewhere u by (metis snd_conv)
  then show ?case by (simp add: q u Let_def split: sum.splits svc_error.splits store_error.splits)
qed

lemma CreateApiKey_confined [confined]:
  assumes "\<not> p_AllCustomers p"
  shows "confined_to (set (p_AllowedCustomers p)) db (snd (api_CreateApiKey (Some p) env i name e db))"
  unfolding api_CreateApiKey_def
proof (rule confined_access [OF assms], goal_cases)
  case 1
  obtain r db' where u: "CreateAPIKey (av_now env) (av_id env) (av_rand env) (actorID (Some p)) i name e db = (r, db')" by fastforce
  have "elsewhere i db' = elsewhere i db" using CreateAPIKey_elsewhere u by (metis snd_conv)
  then show ?case by (simp add: u split: sum.splits prod.splits svc_error.splits store_error.splits)
qed

lemma CreateBootstrapToken_confined [confined]:
  assumes "\<not> p_AllCustomers p"
  shows "confined_to (set (p_AllowedCustomers p)) db (snd (api_CreateBootstrapToken (Some p) env i name e n db))"
  unfolding api_CreateBootstrapToken_def
proof (rule confined_access [OF assms], goal_cases)
  case 1
  obtain r db' where u: "CreateBootstrapToken (av_now env) (av_id env) (av_rand env) (actorID (Some p)) i name e (coalesce n 0) db = (r, db')"
    by fastforce
  have "elsewhere i db' = elsewhere i db" using CreateBootstrapToken_elsewhere u by (metis snd_conv)
  then show ?case by (simp add: u split: sum.splits svc_error.splits store_error.splits)
qed

lemma customer_handlers_confined [confined]:
  assumes "\<not> p_AllCustomers p"
  shows "confined_to (set (p_AllowedCustomers p)) db (snd (api_DeleteCustomer (Some p) env i db))"
    "confined_to (set (p_AllowedCustomers p)) db (snd (api_RevokeApiKey (Some p) env i k db))"
    "confined_to (set (p_AllowedCustomers p)) db (snd (api_RevokeBootstrapToken (Some p) env i k db))"
  unfolding api_DeleteCustomer_def api_RevokeApiKey_def api_RevokeBootstrapToken_def
  by (simp_all add: confined_access assms DeleteCustomer_elsewhere RevokeAPIKey_elsewhere RevokeBootstrapToken_elsewhere)

lemma CreateCustomer_confined [confined]:
  "\<not> p_AllCustomers p \<Longrightarrow> confined_to A db (snd (api_CreateCustomer (Some p) env name slug db))"
  by (simp add: api_CreateCustomer_def with_access_def requireUnscoped_def)

text \<open>The handlers that read leave the state.\<close>

lemma readers_keep [simp]:
  "snd (api_ListCustomers pr status db) = db" "snd (api_GetCustomer pr i db) = db" "snd (api_ListApiKeys pr i db) = db"
  "snd (api_ListBootstrapTokens pr i db) = db" "snd (api_ListAgents pr f db) = db" "snd (api_ListPipelines pr db) = db"
  "snd (api_ListCustomerPipelines pr i db) = db" "snd (api_ValidatePipeline sv cls g db) = db"
  by (auto simp: api_ListCustomers_def api_GetCustomer_def api_ListApiKeys_def api_ListBootstrapTokens_def api_ListAgents_def
      api_ListPipelines_def api_ListCustomerPipelines_def api_ValidatePipeline_def with_access_def
      split: sum.splits store_error.splits)

lemma agent_readers_keep [simp]:
  "snd (api_GetAgent pr i db) = db" "snd (api_GetAgentConfig sv pr i db) = db" "snd (api_ListAgentEvents pr i n db) = db"
  by (auto simp: api_GetAgent_def api_GetAgentConfig_def api_ListAgentEvents_def with_agent_def with_access_def Let_def
      split: sum.splits store_error.splits option.splits)

lemma pipeline_readers_keep [simp]:
  "snd (api_GetPipeline pr i db) = db" "snd (api_GetPipelineVersion look pr i n db) = db"
  by (auto simp: api_GetPipeline_def api_GetPipelineVersion_def with_access_def split: sum.splits store_error.splits option.splits)

lemma agent_handlers_confined [confined]:
  assumes "\<not> p_AllCustomers p" "db_wf db"
  shows "confined_to (set (p_AllowedCustomers p)) db (snd (api_DeleteAgent (Some p) env j db))"
    "confined_to (set (p_AllowedCustomers p)) db (snd (api_SyncAgent sv (Some p) env j db))"
  unfolding api_DeleteAgent_def api_SyncAgent_def
  by (rule confined_agent [OF assms]; simp add: agent_elsewhere split: option.splits sum.splits prod.splits)+

lemma UpdateAgent_confined [confined]:
  assumes "\<not> p_AllCustomers p" "db_wf db"
  shows "confined_to (set (p_AllowedCustomers p)) db (snd (api_UpdateAgent (Some p) env j d l db))"
  unfolding api_UpdateAgent_def
proof (rule confined_agent [OF assms], goal_cases)
  case (1 a i)
  have "elsewhere i db' = elsewhere i db" if "pg_UpdateAgentMeta now j dn ls es db = (r, db')" for now dn ls es r db'
    using agent_elsewhere(2) [OF 1, of now dn ls es] that by simp
  then show ?case by (auto simp: Let_def split: prod.splits sum.splits store_error.splits)
qed

lemma CreatePipeline_confined [confined]:
  assumes "\<not> p_AllCustomers p"
  shows "confined_to (set (p_AllowedCustomers p)) db (snd (api_CreatePipeline sv (Some p) env i name cls g db))"
  unfolding api_CreatePipeline_def
proof (rule confined_access [OF assms], goal_cases)
  case 1
  obtain r db' where u: "Create sv (av_nonces env) (av_now env) (av_id2 env) (av_id env) (actorID (Some p)) i name
      (coalesce cls ClassForwarding) g db = (r, db')" by fastforce
  have c: "elsewhere i d = elsewhere i db"
    if "pg_CreatePipeline now \<lparr>np_ID = pid, np_CustomerID = i, np_Name = nm, np_TargetClass = tc\<rparr> (nv\<lparr>nv_PipelineID := pid\<rparr>) es db = (x, d)"
    for now pid nm tc nv es x d
    using CreatePipeline_elsewhere [of "\<lparr>np_ID = pid, np_CustomerID = i, np_Name = nm, np_TargetClass = tc\<rparr>" i "nv\<lparr>nv_PipelineID := pid\<rparr>" now es db]
      that by simp
  have "elsewhere i db' = elsewhere i db"
    using u unfolding Create_def Let_def by (auto split: if_splits sum.splits option.splits prod.splits dest: c)
  then show ?case by (simp add: u split: sum.splits prod.splits option.splits pipe_error.splits store_error.splits)
qed

lemma CreateVersion_elsewhere:
  assumes "pipeline_of i j db"
  shows "elsewhere i (snd (CreateVersion sv rnd now vid actor j g db)) = elsewhere i db"
proof -
  have c: "elsewhere i d = elsewhere i db" if "pg_CreatePipelineVersion now (nv\<lparr>nv_PipelineID := j\<rparr>) es db = (x, d)" for nv es x d
    using pipeline_elsewhere(1) [OF assms, of "nv\<lparr>nv_PipelineID := j\<rparr>" now es] that by simp
  obtain r db' where u: "CreateVersion sv rnd now vid actor j g db = (r, db')" by fastforce
  have "elsewhere i db' = elsewhere i db"
    using u unfolding CreateVersion_def by (auto split: sum.splits option.splits prod.splits dest: c)
  then show ?thesis by (simp add: u)
qed

lemma CreatePipelineVersion_confined [confined]:
  assumes "\<not> p_AllCustomers p" "db_wf db"
  shows "confined_to (set (p_AllowedCustomers p)) db (snd (api_CreatePipelineVersion sv pg_GetPipeline (Some p) env j g db))"
  unfolding api_CreatePipelineVersion_def
proof (rule confined_pipeline [where f = "\<lambda>db. db", OF assms], goal_cases)
  case (1 i)
  obtain r db' where u: "CreateVersion sv (av_nonces env) (av_now env) (av_id env) (actorID (Some p)) j g db = (r, db')" by fastforce
  have "elsewhere i db' = elsewhere i db" using CreateVersion_elsewhere [OF 1] u by (metis snd_conv)
  then show ?case by (simp add: u split: sum.splits prod.splits option.splits pipe_error.splits store_error.splits)
qed

lemma DeletePipeline_confined [confined]:
  assumes "\<not> p_AllCustomers p" "db_wf (ss_db st)"
  shows "confined_to (set (p_AllowedCustomers p)) (ss_db st) (ss_db (snd (api_DeletePipeline sv pg_GetPipeline (Some p) env j st)))"
  unfolding api_DeletePipeline_def
proof (rule confined_pipeline [where f = ss_db, OF assms], goal_cases)
  case (1 i)
  obtain r st' where u: "Delete sv (av_now env) (actorID (Some p)) j st = (r, st')" by fastforce
  have "elsewhere i (ss_db st') = elsewhere i (ss_db st)"
    using Delete_db [of sv "av_now env" "actorID (Some p)" j st] pipeline_elsewhere(3) [OF 1] u by auto
  then show ?case by (simp add: u split: sum.splits pipe_error.splits store_error.splits)
qed

lemma ActivatePipelineVersion_confined [confined]:
  assumes "\<not> p_AllCustomers p" "db_wf (ss_db st)"
  shows "confined_to (set (p_AllowedCustomers p)) (ss_db st)
     (ss_db (snd (api_ActivatePipelineVersion sv pg_GetPipeline (Some p) env j n st)))"
  unfolding api_ActivatePipelineVersion_def
proof (rule confined_pipeline [where f = ss_db, OF assms], goal_cases)
  case (1 i)
  obtain r st' where u: "Activate sv (av_now env) (actorID (Some p)) j n st = (r, st')" by fastforce
  have "elsewhere i (ss_db st') = elsewhere i (ss_db st)"
    using Activate_db [of sv "av_now env" "actorID (Some p)" j n st] pipeline_elsewhere(2) [OF 1] u by auto
  then show ?case by (simp add: u split: sum.splits prod.splits pipe_error.splits store_error.splits)
qed

lemma serve_confined:
  assumes "\<not> p_AllCustomers p" "db_wf (ss_db st)"
  shows "confined_to (set (p_AllowedCustomers p)) (ss_db st) (ss_db (snd (serve sv pg_GetPipeline (Some p) env req st)))"
  by (cases req) (simp_all add: confined assms)

section \<open>A handler answers with what the principal was granted\<close>

text \<open>The customers a request addresses, directly or by an agent or a pipeline of theirs.\<close>

definition agent_customers :: "uuid \<Rightarrow> db \<Rightarrow> uuid option list" where
  "agent_customers j db = map ag_CustomerID (filter (\<lambda>a. ag_ID a = j) (agents db))"

definition pipeline_customers :: "uuid \<Rightarrow> db \<Rightarrow> uuid option list" where
  "pipeline_customers j db = map (\<lambda>p. Some (pl_CustomerID p)) (filter (\<lambda>p. pl_ID p = j) (pipelines db))"

fun request_customers :: "api_request \<Rightarrow> db \<Rightarrow> uuid option list" where
  "request_customers (RGetCustomer i) db = [Some i]"
| "request_customers (RUpdateCustomer i _ _) db = [Some i]"
| "request_customers (RDeleteCustomer i) db = [Some i]"
| "request_customers (RListApiKeys i) db = [Some i]"
| "request_customers (RCreateApiKey i _ _) db = [Some i]"
| "request_customers (RRevokeApiKey i _) db = [Some i]"
| "request_customers (RListBootstrapTokens i) db = [Some i]"
| "request_customers (RCreateBootstrapToken i _ _ _) db = [Some i]"
| "request_customers (RRevokeBootstrapToken i _) db = [Some i]"
| "request_customers (RListCustomerPipelines i) db = [Some i]"
| "request_customers (RCreatePipeline i _ _ _) db = [Some i]"
| "request_customers (RGetAgent j) db = agent_customers j db"
| "request_customers (RDeleteAgent j) db = agent_customers j db"
| "request_customers (RUpdateAgent j _ _) db = agent_customers j db"
| "request_customers (RSyncAgent j) db = agent_customers j db"
| "request_customers (RGetAgentConfig j) db = agent_customers j db"
| "request_customers (RListAgentEvents j _) db = agent_customers j db"
| "request_customers (RGetPipeline j) db = pipeline_customers j db"
| "request_customers (RDeletePipeline j) db = pipeline_customers j db"
| "request_customers (RCreatePipelineVersion j _) db = pipeline_customers j db"
| "request_customers (RGetPipelineVersion j _) db = pipeline_customers j db"
| "request_customers (RActivatePipelineVersion j _) db = pipeline_customers j db"
| "request_customers _ db = []"

text \<open>The customers the entries of an answer name.\<close>

fun answer_customers :: "api_answer \<Rightarrow> uuid option list" where
  "answer_customers (ACustomers cs) = map (\<lambda>c. Some (vc_Id c)) cs"
| "answer_customers (ANewCustomer c k _) = [Some (vc_Id c), Some (vk_CustomerId k)]"
| "answer_customers (AKeys ks) = map (\<lambda>k. Some (vk_CustomerId k)) ks"
| "answer_customers (ANewKey k _) = [Some (vk_CustomerId k)]"
| "answer_customers (AAgents as) = map va_CustomerId as"
| "answer_customers (AAgentDetail a _ _) = [va_CustomerId a]"
| "answer_customers (ATokens ts) = map (\<lambda>t. Some (vb_CustomerId t)) ts"
| "answer_customers (ANewToken t _) = [Some (vb_CustomerId t)]"
| "answer_customers (APipelines ps) = map (\<lambda>p. Some (vp_CustomerId p)) ps"
| "answer_customers (APipelineDetail p _) = [Some (vp_CustomerId p)]"
| "answer_customers _ = []"

lemma answer_Inr: "answer f r = (Inr x, s) \<longleftrightarrow> (\<exists>y. r = (Inr y, s) \<and> x = f y)"
  by (cases r; cases "fst r") (auto simp: answer_def)

lemma on_ss_Inr: "on_ss f st = (x, st') \<longleftrightarrow> (\<exists>db'. f (ss_db st) = (x, db') \<and> st' = st\<lparr>ss_db := db'\<rparr>)"
  by (auto simp: on_ss_def split: prod.splits)

lemma with_access_Inr: "with_access c k s = (Inr x, s') \<longleftrightarrow> c = Inr () \<and> k s = (Inr x, s')"
  by (auto simp: with_access_def split: sum.splits)

lemma with_agent_Inr:
  assumes "with_agent (Some p) j k db = (Inr x, db')"
  obtains a where "pg_GetAgent j db = Inr a" "requireCustomerAccess (Some p) (ag_CustomerID a) = Inr ()" "k a db = (Inr x, db')"
  using assms by (auto simp: with_agent_def with_access_Inr split: sum.splits store_error.splits)

lemma GetAgent_customers:
  assumes "db_wf db" "pg_GetAgent j db = Inr a"
  shows "set (agent_customers j db) = {ag_CustomerID a}"
proof -
  from assms(2) obtain r where r: "find (\<lambda>a. ag_ID a = j) (agents db) = Some r" "a = agent_view db r"
    by (auto simp: pg_GetAgent_def split: option.splits)
  have d: "distinct (map ag_ID (agents db))" using assms(1) by (simp add: db_wf_def agents_wf_def)
  have c: "ag_CustomerID a = ag_CustomerID r" using r(2) by (simp add: agent_view_def agent_cols.defs Agent.defs)
  from find_SomeD [OF r(1)] have m: "r \<in> set (agents db)" "ag_ID r = j" by simp_all
  have "x = r" if "x \<in> set (agents db)" "ag_ID x = j" for x using distinct_map_inj [OF d that(1) m(1)] that(2) m(2) by simp
  with m have "{x \<in> set (agents db). ag_ID x = j} = {r}" by blast
  with c show ?thesis by (simp add: agent_customers_def)
qed

text \<open>The outcome of a store call names the customer it was asked for.\<close>

lemma GetCustomer_ID: "pg_GetCustomer i db = Inr c \<Longrightarrow> cust_ID c = i"
  by (auto simp: pg_GetCustomer_def split: option.splits dest!: find_SomeD)

lemma UpdateCustomer_ID: "UpdateCustomer now actor i upd db = (Inr c, db') \<Longrightarrow> cust_ID c = i"
  by (auto simp: UpdateCustomer_def pg_UpdateCustomer_def Let_def inTx_Inr apply_customer_update_def
      split: if_splits sum.splits prod.splits dest: GetCustomer_ID)

lemma CreateAPIKey_ID: "CreateAPIKey now n rnd actor i name e db = (Inr (k, s), db') \<Longrightarrow> ak_CustomerID k = i"
  by (auto simp: CreateAPIKey_def pg_CreateAPIKey_def Let_def inTx_Inr insertAPIKey_Inr new_api_key_row_def
      split: if_splits sum.splits prod.splits key_error.splits)

lemma CreateBootstrapToken_ID:
  "CreateBootstrapToken now n rnd actor i name e m db = (Inr c, db') \<Longrightarrow> bt_CustomerID (cbt_Token c) = i"
  by (auto simp: CreateBootstrapToken_def pg_CreateBootstrapToken_def Let_def inTx_Inr commit_Inr new_bootstrap_row_def
      split: if_splits sum.splits prod.splits key_error.splits)

lemma GetAgent_ID: "pg_GetAgent j db = Inr a \<Longrightarrow> \<exists>r \<in> set (agents db). ag_ID r = j \<and> ag_CustomerID r = ag_CustomerID a"
  by (auto simp: pg_GetAgent_def agent_view_def agent_cols.defs Agent.defs split: option.splits dest!: find_SomeD)

lemma UpdateAgentMeta_ID:
  assumes "agent_of i j db" "pg_UpdateAgentMeta now j d l es db = (Inr a, db')"
  shows "ag_CustomerID a = Some i"
proof -
  from assms(2) obtain db1 where db1: "db1 = db\<lparr>agents := upd_where (\<lambda>a. ag_ID a = j)
      (\<lambda>a. a\<lparr>ag_DisplayName := d, ag_Labels := coalesce l (ag_Labels a)\<rparr>) (agents db)\<rparr>"
    and w: "audit_Write now es db1 = Inr db'" and g: "pg_GetAgent j db' = Inr a"
    by (auto simp: pg_UpdateAgentMeta_def inTx_Inr commit_Inr upd_agent_Inr split: sum.splits prod.splits)
  from GetAgent_ID [OF g] obtain r where r: "r \<in> set (agents db')" "ag_ID r = j" "ag_CustomerID r = ag_CustomerID a" by blast
  have "agents db' = agents db1" using audit_Write_fields [OF w] by simp
  with r(1) obtain x where x: "x \<in> set (agents db)" "ag_ID r = ag_ID x" "ag_CustomerID r = ag_CustomerID x"
    by (auto simp: db1 elim!: upd_where_cases)
  then have "ag_CustomerID x = Some i" using assms(1) r(2) by (simp add: agent_of_def)
  with x(3) r(3) show ?thesis by simp
qed

lemma GetPipeline_ID:
  "pg_GetPipeline j db = Inr p \<Longrightarrow> \<exists>r \<in> set (pipelines db). pl_ID r = j \<and> pl_CustomerID r = pl_CustomerID p"
  by (auto simp: pg_GetPipeline_def pipeline_view_def pipeline_row.defs joined_pipelines_def split: option.splits dest!: find_SomeD)

lemma CreatePipeline_ID:
  assumes "pg_CreatePipeline now np v es db = (Inr (p, ver), db')"
  shows "pl_CustomerID p = np_CustomerID np"
  using assms
proof (rule CreatePipeline_body)
  fix db1
  assume n: "np_ID np \<notin> set (pipeline_ids db)"
    and i: "insertPipelineVersion now v 1 (db\<lparr>pipelines := pipelines db @ [new_pipeline_row now np]\<rparr>) = Inr db1"
    and w: "audit_Write now es db1 = Inr db'"
  have g: "pg_GetPipeline (np_ID np) db' = Inr p"
    using assms by (auto simp: pg_CreatePipeline_def Let_def inTx_Inr commit_Inr split: if_splits sum.splits prod.splits)
  have "pipelines db' = pipelines db1" using audit_Write_fields [OF w] by simp
  also have "\<dots> = pipelines db @ [new_pipeline_row now np]" using i by (auto simp: insertPipelineVersion_Inr)
  finally have "pipelines db' = pipelines db @ [new_pipeline_row now np]" .
  with GetPipeline_ID [OF g] n show ?thesis by (auto simp: pipeline_ids_def new_pipeline_row_def image_iff)
qed

lemma Create_ID:
  assumes "Create sv rnd now vid pid actor i name cls g db = (Inr (res, Some (p, ver)), db')"
  shows "pl_CustomerID p = i"
  using assms unfolding Create_def Let_def
  by (auto split: if_splits sum.splits option.splits prod.splits dest!: CreatePipeline_ID)

text \<open>A request and its answer stay with the customers of a principal.\<close>

definition stays_granted :: "Principal \<Rightarrow> api_request \<Rightarrow> db \<Rightarrow> api_answer \<Rightarrow> bool" where
  "stays_granted p req db ans \<longleftrightarrow>
    set (request_customers req db) \<union> set (answer_customers ans) \<subseteq> Some ` set (p_AllowedCustomers p)"

lemmas handler_simps = answer_Inr with_access_Inr stays_granted_def scoped_access

lemma serve_customers_granted:
  assumes "\<not> p_AllCustomers p" "serve_customers (Some p) env req db = (Inr ans, db')"
  shows "stays_granted p req db ans"
proof (cases req)
  case (RListCustomers status)
  then show ?thesis using assms
    by (auto simp: handler_simps api_ListCustomers_def in_scope_def customerScope_def toCustomer_def)
next
  case (RCreateCustomer name slug)
  then show ?thesis using assms by (auto simp: handler_simps api_CreateCustomer_def requireUnscoped_def)
next
  case (RGetCustomer i)
  then show ?thesis using assms
    by (auto simp: handler_simps api_GetCustomer_def toCustomer_def split: sum.splits store_error.splits dest: GetCustomer_ID)
next
  case (RUpdateCustomer i raw body)
  then show ?thesis using assms
    by (auto simp: handler_simps api_UpdateCustomer_def toCustomer_def Let_def
        split: prod.splits if_splits sum.splits svc_error.splits store_error.splits dest: UpdateCustomer_ID)
next
  case (RListApiKeys i)
  then show ?thesis using assms
    by (auto simp: handler_simps api_ListApiKeys_def toAPIKey_def pg_ListAPIKeys_def split: sum.splits store_error.splits)
next
  case (RCreateApiKey i name e)
  then show ?thesis using assms
    by (auto simp: handler_simps api_CreateApiKey_def toAPIKeyCreated_def toAPIKey_def
        split: prod.splits sum.splits svc_error.splits store_error.splits dest: CreateAPIKey_ID)
next
  case (RListBootstrapTokens i)
  then show ?thesis using assms
    by (auto simp: handler_simps api_ListBootstrapTokens_def toBootstrapToken_def pg_ListBootstrapTokens_def
        split: sum.splits store_error.splits)
next
  case (RCreateBootstrapToken i name e n)
  then show ?thesis using assms
    by (auto simp: handler_simps api_CreateBootstrapToken_def toBootstrapToken_def
        split: prod.splits sum.splits svc_error.splits store_error.splits dest: CreateBootstrapToken_ID)
qed (use assms in \<open>auto simp: handler_simps api_DeleteCustomer_def api_RevokeApiKey_def api_RevokeBootstrapToken_def\<close>)

lemma agent_view_customer [simp]: "ag_CustomerID (agent_view db a) = ag_CustomerID a"
  by (simp add: agent_view_def agent_cols.defs Agent.defs)

lemma pipeline_view_customer [simp]: "pl_CustomerID (pipeline_view db p c) = pl_CustomerID p"
  by (simp add: pipeline_view_def pipeline_row.defs)

lemma agent_granted:
  assumes "\<not> p_AllCustomers p" "db_wf db" "with_agent (Some p) j k db = (Inr x, db')"
  obtains a i where "ag_CustomerID a = Some i" "i \<in> set (p_AllowedCustomers p)" "agent_of i j db" "k a db = (Inr x, db')"
    "set (agent_customers j db) = {Some i}"
  using assms(3)
proof (rule with_agent_Inr)
  fix a assume a: "pg_GetAgent j db = Inr a" "requireCustomerAccess (Some p) (ag_CustomerID a) = Inr ()" "k a db = (Inr x, db')"
  with assms(1) obtain i where i: "ag_CustomerID a = Some i" "i \<in> set (p_AllowedCustomers p)" by (auto simp: scoped_access)
  show thesis
    using that [OF i GetAgent_of [OF assms(2) a(1) i(1)] a(3)] GetAgent_customers [OF assms(2) a(1)] i(1) by simp
qed

lemma serve_agents_granted:
  assumes "\<not> p_AllCustomers p" "db_wf db" "serve_agents sv (Some p) env req db = (Inr ans, db')"
  shows "stays_granted p req db ans"
proof -
  note g = agent_granted [OF assms(1,2)]
  show ?thesis
  proof (cases req)
    case (RListAgents f)
    then show ?thesis using assms
      by (auto simp: handler_simps api_ListAgents_def in_scope_def customerScope_def toAgent_def split: option.splits)
  next
    case (RGetAgent j)
    then show ?thesis using assms(3)
      by (auto simp: handler_simps api_GetAgent_def toAgentDetail_def toAgent_def split: option.splits elim!: g)
  next
    case (RUpdateAgent j d l)
    then show ?thesis using assms(3)
      by (auto simp: handler_simps api_UpdateAgent_def toAgent_def Let_def elim!: g
          split: prod.splits sum.splits store_error.splits dest!: UpdateAgentMeta_ID [rotated])
  next
    case (RDeleteAgent j)
    then show ?thesis using assms(3) by (auto simp: handler_simps api_DeleteAgent_def elim!: g)
  next
    case (RSyncAgent j)
    then show ?thesis using assms(3) by (auto simp: handler_simps api_SyncAgent_def elim!: g)
  next
    case (RGetAgentConfig j)
    then show ?thesis using assms(3) by (auto simp: handler_simps api_GetAgentConfig_def elim!: g)
  next
    case (RListAgentEvents j n)
    then show ?thesis using assms(3) by (auto simp: handler_simps api_ListAgentEvents_def elim!: g)
  qed (use assms(1,3) in \<open>simp_all add: serve_customers_granted\<close>)
qed

lemma pipeline_granted:
  assumes "\<not> p_AllCustomers p" "db_wf db" "requirePipelineAccess (\<lambda>j. pg_GetPipeline j db) (Some p) j = Inr ()"
  shows "set (pipeline_customers j db) \<subseteq> Some ` set (p_AllowedCustomers p)"
proof (cases "pg_GetPipeline j db")
  case (Inl e)
  from GetPipeline_missing [OF assms(2) this] show ?thesis by (auto simp: pipeline_customers_def pipeline_ids_def)
next
  case (Inr x)
  from GetPipeline_of [OF assms(2) this] have "set (pipeline_customers j db) \<subseteq> {Some (pl_CustomerID x)}"
    by (auto simp: pipeline_customers_def pipeline_of_def)
  with assms(1,3) Inr show ?thesis by (auto simp: requirePipelineAccess_def customerScope_def scoped_access)
qed

lemma serve_granted:
  assumes "\<not> p_AllCustomers p" "db_wf (ss_db st)" "serve sv pg_GetPipeline (Some p) env req st = (Inr ans, st')"
  shows "stays_granted p req (ss_db st) ans"
proof -
  note g = pipeline_granted [OF assms(1,2)]
  show ?thesis
  proof (cases req)
    case RListPipelines
    then show ?thesis using assms
      by (auto simp: handler_simps on_ss_Inr api_ListPipelines_def in_scope_def customerScope_def toPipeline_def)
  next
    case (RListCustomerPipelines i)
    then show ?thesis using assms
      by (auto simp: handler_simps on_ss_Inr api_ListCustomerPipelines_def toPipeline_def pg_ListPipelines_def
          split: sum.splits store_error.splits)
  next
    case (RCreatePipeline i name cls gr)
    then show ?thesis using assms
      by (auto simp: handler_simps on_ss_Inr api_CreatePipeline_def toPipeline_def
          split: prod.splits sum.splits option.splits if_splits pipe_error.splits store_error.splits dest: Create_ID)
  next
    case (RGetPipeline j)
    have "set (pipeline_customers j (ss_db st)) \<subseteq> {Some (pl_CustomerID x)}" if "pg_GetPipeline j (ss_db st) = Inr x" for x
      using GetPipeline_of [OF assms(2) that] by (auto simp: pipeline_customers_def pipeline_of_def)
    with RGetPipeline assms show ?thesis
      by (auto simp: handler_simps on_ss_Inr api_GetPipeline_def toPipeline_def split: sum.splits store_error.splits)
  next
    case (RDeletePipeline j)
    then show ?thesis using assms g [of j] by (auto simp: handler_simps api_DeletePipeline_def)
  next
    case (RValidatePipeline cls gr)
    then show ?thesis using assms by (auto simp: handler_simps on_ss_Inr)
  next
    case (RCreatePipelineVersion j gr)
    have "answer_customers (version_answer v) = []" for v by (cases v) simp_all
    with RCreatePipelineVersion show ?thesis using assms g [of j] by (auto simp: handler_simps on_ss_Inr api_CreatePipelineVersion_def)
  next
    case (RGetPipelineVersion j n)
    then show ?thesis using assms g [of j] by (auto simp: handler_simps on_ss_Inr api_GetPipelineVersion_def)
  next
    case (RActivatePipelineVersion j n)
    then show ?thesis using assms g [of j] by (auto simp: handler_simps api_ActivatePipelineVersion_def)
  qed (use assms serve_agents_granted [OF assms(1,2), of sv env req ans] in \<open>auto simp: on_ss_Inr\<close>)
qed


definition scope_user :: User where
  "scope_user = sample_admin\<lparr>u_ID := 6, u_Role := ''operator''\<rparr>"

definition tenant_principal :: "uuid list \<Rightarrow> Principal" where
  "tenant_principal cs = \<lparr>p_User = scope_user, p_CSRFToken = ''c'',
     p_AllCustomers = False, p_AllowedCustomers = cs\<rparr>"

definition scope_env :: api_env where
  "scope_env = \<lparr>av_now = 9, av_id = 20, av_id2 = 21, av_rand = None,
     av_draws = (\<lambda>_. \<lparr>dr_client = None, dr_key = None, dr_customer_id = 30, dr_key_id = 31, dr_now = 9\<rparr>),
     av_nonces = (\<lambda>_. None)\<rparr>"

definition scope_state :: svc_state where
  "scope_state = \<lparr>ss_db = sample_fleet_db\<lparr>users := [scope_user]\<rparr>, ss_current = ''''\<rparr>"

lemma scope_state_wf: "db_wf (ss_db scope_state)"
  by (simp add: db_wf_def scope_state_def scope_user_def sample_admin_def sample_fleet_db_def sample_agent_def new_agent_row_def
      sample_pipeline_db_def db_init_def table_wf_defs id_list_defs ref_ok_def status_ok_def rate_ok_def retention_ok_def role_ok_def RoleOperator_def)

lemmas scope_defs = actor_types_def scope_state_def tenant_principal_def scope_user_def scope_env_def sample_admin_def sample_fleet_db_def
  sample_agent_def new_agent_row_def sample_pipeline_db_def db_init_def

lemma scope_delete_agent:
  "\<exists>st'. serve sample_sv pg_GetPipeline (Some (tenant_principal [1])) scope_env (RDeleteAgent 7) scope_state = (Inr ANone, st') \<and>
     agents (ss_db st') = []"
  by (simp add: answer_def on_ss_def api_DeleteAgent_def with_agent_def with_access_def done_reply_def
      pg_GetAgent_def agent_view_def agent_cols.defs Agent.defs requireCustomerAccess_def CanAccessCustomer_def
      pg_DeleteAgent_def inTx_def commit_def id_list_defs agent_entry_def user_entry_def actorID_def scope_defs)


text \<open>C40: the scope check of the pipeline handlers fails open. When the look-up inside
  \<open>requirePipelineAccess\<close> fails for any reason, the handler treats the tenant-scoped principal as one with
  access to every customer, and its own look-ups decide alone: a transient error of one query lets the
  principal read, extend, activate or delete the pipeline of another customer.\<close>

theorem pipeline_scope_fails_open:
  assumes "look j (ss_db st) = Inl e"
    "req \<in> {RDeletePipeline j, RCreatePipelineVersion j g, RGetPipelineVersion j n, RActivatePipelineVersion j n}"
  shows "serve sv look (Some p) env req st = serve sv look (Some (p\<lparr>p_AllCustomers := True\<rparr>)) env req st"
proof -
  have "requirePipelineAccess (\<lambda>j. look j (ss_db st)) (Some p) j = Inr ()"
    "requirePipelineAccess (\<lambda>j. look j (ss_db st)) (Some (p\<lparr>p_AllCustomers := True\<rparr>)) j = Inr ()"
    using assms(1) by (simp_all add: requirePipelineAccess_def customerScope_def)
  moreover have "actorID (Some (p\<lparr>p_AllCustomers := True\<rparr>)) = actorID (Some p)" by (simp add: actorID_def)
  ultimately show ?thesis using assms(2)
    by (auto simp: api_DeletePipeline_def api_CreatePipelineVersion_def api_GetPipelineVersion_def
        api_ActivatePipelineVersion_def with_access_def on_ss_def)
qed

lemma scope_delete_pipeline:
  "pipelines (ss_db (snd (serve sample_sv (\<lambda>_ _. Inl (ErrDB ''timeout'')) (Some (tenant_principal [2])) scope_env
     (RDeletePipeline 3) scope_state))) = []"
  by (simp add: api_DeletePipeline_def with_access_def requirePipelineAccess_def Delete_def Let_def Distribute_db
      pg_GetPipeline_def joined_pipelines_def pipeline_view_def pipeline_row.defs
      pg_DeletePipeline_def inTx_def commit_def id_list_defs user_entry_def actorID_def versions_of_def scope_defs)

theorem pipeline_scope_fails_open_witness:
  "requireCustomerAccess (Some (tenant_principal [2])) (Some 1) \<noteq> Inr () \<and>
   serve sample_sv (\<lambda>_ _. Inl (ErrDB ''timeout'')) (Some (tenant_principal [2])) scope_env (RDeletePipeline 3) scope_state =
   serve sample_sv (\<lambda>_ _. Inl (ErrDB ''timeout'')) (Some (tenant_principal [2]\<lparr>p_AllCustomers := True\<rparr>)) scope_env
     (RDeletePipeline 3) scope_state \<and>
   pipelines (ss_db (snd (serve sample_sv (\<lambda>_ _. Inl (ErrDB ''timeout'')) (Some (tenant_principal [2])) scope_env
     (RDeletePipeline 3) scope_state))) = []"
proof -
  have "pipelines (ss_db (snd (serve sample_sv (\<lambda>_ _. Inl (ErrDB ''timeout'')) (Some (tenant_principal [2])) scope_env
     (RDeletePipeline 3) scope_state))) = []" by (rule scope_delete_pipeline)
  moreover have "requireCustomerAccess (Some (tenant_principal [2])) (Some 1) \<noteq> Inr ()"
    by (simp add: requireCustomerAccess_def CanAccessCustomer_def tenant_principal_def)
  ultimately show ?thesis
    using pipeline_scope_fails_open [of "\<lambda>_ _. Inl (ErrDB ''timeout'')" 3 scope_state _ "RDeletePipeline 3"] by blast
qed

end
