(* ===== verification/Spec2Isabelle.thy ===== *)
theory Spec2Isabelle
  imports Authz Slug Keys Tenants IngestAuth TenantAuth TenantStamp TenantQuota StoreFleet ApiGuard PipelineService System OpampSafety AuditLog ApiScope
begin

text \<open>
  Verification of otelfleet, a multi-tenant fleet manager for OpenTelemetry collectors.
\<close>

section \<open>Credentials\<close>

text \<open>C11: a secret minted by any of the four generators parses back, with the parser of its own
  format, to the prefix stored with it, and no secret is accepted by the parsers of two formats.\<close>

theorem credentials_round_trip:
  assumes "length buf = 36"
    and "GenerateAPIKey (Some buf) = Inr k"
    and "GenerateAgentToken (Some buf) = Inr a"
    and "GenerateBootstrapToken (Some buf) = Inr b"
    and "GenerateAPIToken (Some buf) = Inr t"
  shows "ParseKeyPrefix (gk_Secret k) = Some (gk_Prefix k)
    \<and> ParseAgentTokenPrefix (gk_Secret a) = Some (gk_Prefix a)
    \<and> ParseBootstrapTokenPrefix (gk_Secret b) = Some (gk_Prefix b)
    \<and> ParseAPITokenPrefix (gk_Secret t) = Some (gk_Prefix t)
    \<and> (\<forall>s. length (filter (\<lambda>parse. parse s \<noteq> None)
         [ParseKeyPrefix, ParseAgentTokenPrefix, ParseBootstrapTokenPrefix, ParseAPITokenPrefix]) \<le> 1)"
  using assms api_key.round_trip agent_token.round_trip bootstrap_token.round_trip
    api_token.round_trip parsers_exclusive by blast

theorem credentials_round_trip_witness:
  "\<exists>k. GenerateAPIKey (Some (replicate 36 CHR 0x00)) = Inr k \<and>
     ParseKeyPrefix (gk_Secret k) = Some (gk_Prefix k)"
proof -
  obtain k a b t where "GenerateAPIKey (Some (replicate 36 CHR 0x00)) = Inr k"
    "GenerateAgentToken (Some (replicate 36 CHR 0x00)) = Inr a"
    "GenerateBootstrapToken (Some (replicate 36 CHR 0x00)) = Inr b"
    "GenerateAPIToken (Some (replicate 36 CHR 0x00)) = Inr t"
    using api_key.gen_total agent_token.gen_total bootstrap_token.gen_total api_token.gen_total
    by metis
  then show ?thesis using credentials_round_trip [of "replicate 36 CHR 0x00" k a b t] by simp
qed

section \<open>From the gateway to the database\<close>

text \<open>The control plane answers from the database it has at the time of the call: \<open>hist\<close> gives the
  database at every time, and a reply to a request that was received at \<open>t0\<close> is computed at some later
  time.\<close>

definition answered_from :: "(time \<Rightarrow> db) \<Rightarrow> string \<times> (string + ValidateAPIKeyResponse) \<times> time \<Rightarrow> bool" where
  "answered_from hist rep = (case rep of (k, reply, t0) \<Rightarrow> \<forall>r. reply = Inr r \<longrightarrow>
     (\<exists>tv used s s'. t0 \<le> tv \<and> validate_on (hist tv) tv used k s = (Inr r, s')))"

lemma accepted_row:
  assumes "(gw_step kc_get kc_put)\<^sup>*\<^sup>* (gw_init (newAuthenticator cfg)) g" "0 \<le> cfg_MaxEntries cfg"
    "(k, d, t) \<in> set (gw_accepted g)" "\<forall>rep \<in> set (gw_replies g). answered_from hist rep"
  shows "\<exists>tv t0 row c. t0 \<le> tv \<and> (t = t0 \<or> t < t0 + max (cfg_TTL cfg) (cfg_StaleIfError cfg)) \<and>
    row \<in> set (api_keys (hist tv)) \<and> c \<in> set (customers (hist tv)) \<and> ak_KeyHash row = HashAPIKey k \<and>
    ak_RevokedAt row = None \<and> cust_ID c = ak_CustomerID row \<and> cust_Status c = CustomerActive \<and>
    ad_tenantID d = cust_ClientID c \<and> ad_customerID d = uuid_String (cust_ID c)"
proof -
  from gw_reached [OF assms(1-3)] obtain rep where rep: "rep \<in> set (gw_replies g)"
    "covers cfg (hash_key k) d t rep" by blast
  then obtain k' r t0 where r: "rep = (k', Inr r, t0)"
    by (cases rep; cases "fst (snd rep)") (auto simp: covers_def)
  have c: "hash_key k' = hash_key k" "vr_Valid r" "d = response_data r"
    "t = t0 \<or> t < t0 + effective_ttl cfg r \<or> t < t0 + cfg_StaleIfError cfg"
    using rep(2) by (simp_all add: r covers_def)
  have "answered_from hist (k', Inr r, t0)" using assms(4) rep(1) r by blast
  then obtain tv used s s' where v: "t0 \<le> tv" "validate_on (hist tv) tv used k' s = (Inr r, s')"
    by (auto simp: answered_from_def)
  have h: "HashAPIKey k' = HashAPIKey k"
    using c(1) by (simp add: hash_key_def HashAPIKey_def hexEncode_inj)
  have ttl: "effective_ttl cfg r \<le> cfg_TTL cfg" by (simp add: effective_ttl_def Let_def)
  show ?thesis
  proof (rule validate_sound [OF v(2) c(2)])
    fix row c p
    assume "row \<in> set (api_keys (hist tv))" "c \<in> set (customers (hist tv))" "ak_KeyHash row = HashAPIKey k'"
      "ak_RevokedAt row = None" "cust_ID c = ak_CustomerID row" "cust_Status c = CustomerActive"
      "vr_CustomerId r = uuid_String (cust_ID c)" "vr_ClientId r = cust_ClientID c"
    then show ?thesis
      using v(1) h c ttl
      by (intro exI [of _ tv] exI [of _ t0] exI [of _ row] exI [of _ c]) (auto simp: response_data_def)
  qed
qed

text \<open>C1: from the request to the stored telemetry. When the gateway lets a request through and the
  stamp processor forwards its batch, every resource is stamped with the client ID of a customer that
  was active, with an unrevoked key of the request's secret, in a database state at most one cache
  lifetime or stale window old; what the client claimed itself is gone.\<close>

theorem stamped_tenant_owns_key:
  assumes "(gw_step kc_get kc_put)\<^sup>*\<^sup>* (gw_init (newAuthenticator cfg)) g" "0 \<le> cfg_MaxEntries cfg"
    and "(k, d, t) \<in> set (gw_accepted g)" "\<forall>rep \<in> set (gw_replies g). answered_from hist rep"
    and "attr_map_laws get remove putStr"
    and "stamp_processLogs remove putStr now (contextWithAuth ctx d) batch s = (Inr out, s')"
  shows "\<exists>tv t0 row c. t0 \<le> tv \<and> (t = t0 \<or> t < t0 + max (cfg_TTL cfg) (cfg_StaleIfError cfg)) \<and>
    row \<in> set (api_keys (hist tv)) \<and> c \<in> set (customers (hist tv)) \<and> ak_KeyHash row = HashAPIKey k \<and>
    ak_RevokedAt row = None \<and> cust_ID c = ak_CustomerID row \<and> cust_Status c = CustomerActive \<and>
    (\<forall>attrs \<in> fst ` set out. get attrs AttrTenantID = Some (VStr (cust_ClientID c)))"
proof -
  from assms(6) obtain auth i where i: "ci_Auth (contextWithAuth ctx d) = Some auth"
    "i = \<lparr>id_tenantID = attrString auth AttrTenantID, id_clientID = attrString auth AttrClientID,
      id_customerID = attrString auth AttrCustomerID\<rparr>" "id_tenantID i \<noteq> ''''"
    "out = map (\<lambda>(attrs, p). (stamp remove putStr i attrs, p)) batch"
    unfolding stamp_processLogs_def by (rule stamp_batch_Inr)
  have "auth = GetAttribute d" using i(1) by (simp add: contextWithAuth_def)
  then have "id_tenantID i = ad_tenantID d" using i(2) by (simp add: attrString_authData)
  then have "\<forall>attrs \<in> fst ` set out. get attrs AttrTenantID = Some (VStr (ad_tenantID d))"
    using i(3,4) by (auto simp: stamp_get [OF assms(5)])
  with accepted_row [OF assms(1-4)] show ?thesis by metis
qed

text \<open>A run in which the sample key is confirmed from the sample database and let through.\<close>

lemma sample_run:
  assumes "hist 5 = sample_db"
  shows "\<exists>g r. (gw_step kc_get kc_put)\<^sup>*\<^sup>* (gw_init (newAuthenticator defaultCacheConfig)) g \<and>
     (sample_secret, response_data r, 5) \<in> set (gw_accepted g) \<and> vr_ClientId r = ''cust_01'' \<and>
     (\<forall>rep \<in> set (gw_replies g). answered_from hist rep)"
proof -
  obtain r s' where v: "validate_on sample_db 5 5 sample_secret new_auth_service = (Inr r, s')"
    "vr_Valid r" "vr_ClientId r = ''cust_01''"
    using sample_valid by blast
  from sample_gateway_run [OF v(2)] obtain g where
    g: "(gw_step kc_get kc_put)\<^sup>*\<^sup>* (gw_init (newAuthenticator defaultCacheConfig)) g"
    "(sample_secret, response_data r, 5) \<in> set (gw_accepted g)" "gw_replies g = [(sample_secret, Inr r, 5)]"
    by (auto simp: sample_secret_def)
  have "answered_from hist (sample_secret, Inr r, 5)"
    unfolding answered_from_def
    using v(1) assms by (simp, intro exI [of _ 5]) auto
  with g v(3) show ?thesis by (intro exI [of _ g] exI [of _ r]) simp
qed

lemma default_entries: "0 < cfg_MaxEntries defaultCacheConfig" "0 < cfg_TTL defaultCacheConfig"
  by (simp_all add: defaultCacheConfig_def duration_defs)

theorem stamped_tenant_owns_key_witness:
  "\<exists>g d. (sample_secret, d, 5) \<in> set (gw_accepted (g :: keyCache gateway)) \<and>
    (\<exists>out s'. stamp_processLogs list_remove list_putStr 0 (contextWithAuth \<lparr>ci_Addr = '''', ci_Auth = None\<rparr> d)
      [([(AttrTenantID, VStr ''forged'')], ())] new_stamper = (Inr out, s') \<and>
     (\<exists>c \<in> set (customers sample_db). \<forall>attrs \<in> fst ` set out. map_of attrs AttrTenantID = Some (VStr (cust_ClientID c))))"
proof -
  obtain g r where g: "(gw_step kc_get kc_put)\<^sup>*\<^sup>* (gw_init (newAuthenticator defaultCacheConfig)) g"
     "(sample_secret, response_data r, 5) \<in> set (gw_accepted g)" "vr_ClientId r = ''cust_01''"
     "\<forall>rep \<in> set (gw_replies g). answered_from (\<lambda>_. sample_db) rep"
    using sample_run [of "\<lambda>_. sample_db"] by auto
  have "ad_tenantID (response_data r) \<noteq> ''''" using g(3) by (simp add: response_data_def)
  then obtain out s' where p: "stamp_processLogs list_remove list_putStr 0
      (contextWithAuth \<lparr>ci_Addr = '''', ci_Auth = None\<rparr> (response_data r))
      [([(AttrTenantID, VStr ''forged'')], ())] new_stamper = (Inr out, s')"
    by (simp add: stamp_processLogs_def stamp_batch_def identity_of_context)
  from stamped_tenant_owns_key [OF g(1) less_imp_le [OF default_entries(1)] g(2,4) list_attr_map p]
  have "\<exists>c \<in> set (customers sample_db). \<forall>attrs \<in> fst ` set out.
      map_of attrs AttrTenantID = Some (VStr (cust_ClientID c))" by blast
  with g(2) p show ?thesis by blast
qed

text \<open>C2: revocation takes effect. If from time \<open>T\<close> on the database has no unrevoked key with the hash
  of \<open>k\<close>, a request with \<open>k\<close> is let through only if it was received before \<open>T\<close> plus the larger of
  the cache lifetime and the stale window, over every interleaving of requests and replies.\<close>

theorem revocation_takes_effect:
  assumes "(gw_step kc_get kc_put)\<^sup>*\<^sup>* (gw_init (newAuthenticator cfg)) g" "0 < cfg_MaxEntries cfg"
    and "0 < cfg_TTL cfg" "\<forall>rep \<in> set (gw_replies g). answered_from hist rep"
    and "\<forall>tv \<ge> T. \<forall>row \<in> set (api_keys (hist tv)). ak_KeyHash row = HashAPIKey k \<longrightarrow> ak_RevokedAt row \<noteq> None"
    and "(k, d, t) \<in> set (gw_accepted g)"
  shows "t < T + max (cfg_TTL cfg) (cfg_StaleIfError cfg)"
proof -
  from accepted_row [OF assms(1) _ assms(6) assms(4)] assms(2)
  obtain tv t0 row where r: "t0 \<le> tv" "t = t0 \<or> t < t0 + max (cfg_TTL cfg) (cfg_StaleIfError cfg)"
    "row \<in> set (api_keys (hist tv))" "ak_KeyHash row = HashAPIKey k" "ak_RevokedAt row = None"
    by auto
  then have "tv < T" using assms(5) by (meson not_le_imp_less)
  with r assms(3) show ?thesis by auto
qed

theorem revocation_takes_effect_witness:
  "\<exists>g d. (sample_secret, d, 5) \<in> set (gw_accepted (g :: keyCache gateway)) \<and>
     5 < (10 :: time) + max (30 * second) (15 * minute)"
proof -
  define hist where "hist t = (if t < (10 :: time) then sample_db
    else sample_db\<lparr>api_keys := [sample_key\<lparr>ak_RevokedAt := Some 10\<rparr>]\<rparr>)" for t
  obtain g r where g: "(gw_step kc_get kc_put)\<^sup>*\<^sup>* (gw_init (newAuthenticator defaultCacheConfig)) g"
     "(sample_secret, response_data r, 5) \<in> set (gw_accepted g)"
     "\<forall>rep \<in> set (gw_replies g). answered_from hist rep"
    using sample_run [of hist] by (auto simp: hist_def)
  have "\<forall>tv \<ge> 10. \<forall>row \<in> set (api_keys (hist tv)). ak_KeyHash row = HashAPIKey sample_secret \<longrightarrow> ak_RevokedAt row \<noteq> None"
    by (auto simp: hist_def)
  from revocation_takes_effect [OF g(1) default_entries g(3) this g(2)] g(2) show ?thesis
    unfolding defaultCacheConfig_def CacheConfig.select_convs by blast
qed

end
